(* ===== verification/Prelude.thy ===== *)
theory Prelude
  imports Main "HOL-Library.Word" "HOL-Library.Signed_Division"
begin

text \<open>
  Shared vocabulary of the development.

  \<^item> Go's \<open>int64\<close> and \<open>time.Duration\<close> (nanoseconds) are 64-bit words read by \<open>sint\<close>;
    \<open>+\<close> and \<open>*\<close> wrap as they do in Go. \<open>time.Time\<close> is an integer count of nanoseconds and
    \<open>Time.Sub\<close> saturates at the ends of the \<open>int64\<close> range, as the standard library documents.
  \<^item> A Go call that may panic returns an \<open>outcome\<close>.
  \<^item> A Go error is a \<open>goerr\<close>: a sentinel or message, an error of the contract vocabulary, an
    error wrapped by \<open>%w\<close>, or the list built by \<open>errors.Join\<close>. A nil error is \<open>None\<close>.
\<close>

named_theorems go_arith "reading 64-bit words as signed integers"

section \<open>64-bit integers and durations\<close>

type_synonym duration = "64 word"
type_synonym time = int

definition max_int64 :: int where
  "max_int64 = 9223372036854775807"

definition min_int64 :: int where
  "min_int64 = - 9223372036854775808"

definition in_int64 :: "int \<Rightarrow> bool" where
  "in_int64 x \<longleftrightarrow> min_int64 \<le> x \<and> x \<le> max_int64"

lemma sint_ge64 [simp]: "- 9223372036854775808 \<le> sint (d :: 64 word)"
  using sint_ge [of d] by simp

lemma sint_le64 [simp]: "sint (d :: 64 word) \<le> 9223372036854775807"
  using sint_lt [of d] by simp

lemma sint_in_int64 [simp]: "in_int64 (sint (d :: 64 word))"
  by (simp add: in_int64_def min_int64_def max_int64_def)

lemma sint_in_range_eq:
  "in_int64 x \<Longrightarrow> signed_take_bit 63 x = x"
  by (rule signed_take_bit_int_eq_self) (simp_all add: in_int64_def min_int64_def max_int64_def)

lemma sint_word_of_int_in_range [go_arith]:
  "in_int64 x \<Longrightarrow> sint (word_of_int x :: 64 word) = x"
  by (simp add: sint_sbintrunc' sint_in_range_eq)

lemma word_eq_iff_sint: "(a :: 64 word) = b \<longleftrightarrow> sint a = sint b"
  by (auto intro: signed_word_eqI)

text \<open>Go's integer division truncates towards zero.\<close>

definition go_div :: "duration \<Rightarrow> duration \<Rightarrow> duration" where
  "go_div a b = word_of_int (sint a sdiv sint b)"

lemma sint_half:
  "sint (go_div d 2) = sint d sdiv 2"
proof -
  have "sgn (sint d) * (\<bar>sint d\<bar> div 2) \<le> max_int64" "min_int64 \<le> sgn (sint d) * (\<bar>sint d\<bar> div 2)"
    using sint_ge64 [of d] sint_le64 [of d]
    by (auto simp: sgn_if max_int64_def min_int64_def simp del: sint_ge64 sint_le64)
  then have "in_int64 (sint d sdiv 2)"
    by (simp add: signed_divide_int_def in_int64_def)
  then show ?thesis
    by (simp add: go_div_def go_arith)
qed

lemma sint_half_nonneg:
  "0 \<le> sint d \<Longrightarrow> sint (go_div d 2) = sint d div 2"
  by (simp add: sint_half signed_divide_int_def sgn_if)

lemma sint_mult_in_range:
  fixes a b :: "64 word"
  assumes "in_int64 (sint a * sint b)"
  shows "sint (a * b) = sint a * sint b"
  using assms by (simp add: sint_word_ariths sint_in_range_eq)

lemma sint_add_in_range:
  fixes a b :: "64 word"
  assumes "in_int64 (sint a + sint b)"
  shows "sint (a + b) = sint a + sint b"
  using assms by (simp add: sint_word_ariths sint_in_range_eq)

text \<open>\<open>Time.Sub\<close>: the difference, saturated to a duration.\<close>

definition time_sub :: "time \<Rightarrow> time \<Rightarrow> duration" where
  "time_sub t u = word_of_int (max min_int64 (min max_int64 (t - u)))"

lemma sint_time_sub:
  "sint (time_sub t u) = max min_int64 (min max_int64 (t - u))"
  unfolding time_sub_def
  by (rule sint_word_of_int_in_range) (simp add: in_int64_def min_int64_def max_int64_def)

lemma time_sub_less_iff:
  assumes "min_int64 < d" "d \<le> max_int64"
  shows "sint (time_sub t u) < d \<longleftrightarrow> t - u < d"
  using assms by (auto simp: sint_time_sub)

lemma time_sub_greater_iff:
  assumes "min_int64 \<le> d" "d < max_int64"
  shows "d < sint (time_sub t u) \<longleftrightarrow> d < t - u"
  using assms by (auto simp: sint_time_sub)

lemma duration_less_time_sub:
  "sint (d :: duration) < sint (time_sub t u) \<Longrightarrow> sint d < t - u"
  using sint_ge64 [of d]
  by (simp add: sint_time_sub max_def min_int64_def max_int64_def del: sint_ge64 split: if_splits)

text \<open>The units of package \<open>time\<close> that the program uses.\<close>

definition nanosecond :: duration where "nanosecond = 1"
definition millisecond :: duration where "millisecond = 1000000"
definition second :: duration where "second = 1000000000"

section \<open>Calls that may panic\<close>

datatype 'a outcome = Ret 'a | Panic string

fun bind_outcome :: "'a outcome \<Rightarrow> ('a \<Rightarrow> 'b outcome) \<Rightarrow> 'b outcome" where
  "bind_outcome (Ret x) f = f x"
| "bind_outcome (Panic v) f = Panic v"

definition nil_dereference :: string where
  "nil_dereference = ''invalid memory address or nil pointer dereference''"

section \<open>Errors\<close>

text \<open>
  An error of the contract vocabulary (\<open>contract.Coded\<close>) has its text, its code, and, when it is
  \<open>contract.Detailed\<close> as well, its params: scalars, keys distinct.
\<close>

datatype param = PStr string | PInt int | PBool bool

datatype goerr =
    Err string
  | ContractErr string string "(string \<times> param) list option"
  | Wrapped string goerr
  | Joined "goerr list"

text \<open>\<open>errors.Is\<close>: the error itself or anything it wraps, depth first.\<close>

fun err_is :: "goerr \<Rightarrow> goerr \<Rightarrow> bool" where
  "err_is (Err m) t \<longleftrightarrow> Err m = t"
| "err_is (ContractErr m c ps) t \<longleftrightarrow> ContractErr m c ps = t"
| "err_is (Wrapped m e) t \<longleftrightarrow> Wrapped m e = t \<or> err_is e t"
| "err_is (Joined es) t \<longleftrightarrow> Joined es = t \<or> list_ex (\<lambda>e. err_is e t) es"

text \<open>The text of an error: \<open>%w\<close> follows a prefix, joined errors are one per line.\<close>

fun join_lines :: "string list \<Rightarrow> string" where
  "join_lines [] = []"
| "join_lines [x] = x"
| "join_lines (x # xs) = x @ [CHR 0x0A] @ join_lines xs"

fun err_text :: "goerr \<Rightarrow> string" where
  "err_text (Err m) = m"
| "err_text (ContractErr m c ps) = m"
| "err_text (Wrapped m e) = m @ '': '' @ err_text e"
| "err_text (Joined es) = join_lines (map err_text es)"

text \<open>\<open>errors.Join\<close>: nil errors are dropped, and joining nothing is nil.\<close>

fun somes :: "'a option list \<Rightarrow> 'a list" where
  "somes [] = []"
| "somes (None # xs) = somes xs"
| "somes (Some x # xs) = x # somes xs"

definition join_errors :: "goerr option list \<Rightarrow> goerr option" where
  "join_errors es = (case somes es of [] \<Rightarrow> None | xs \<Rightarrow> Some (Joined xs))"

lemma set_somes [simp]: "set (somes xs) = {x. Some x \<in> set xs}"
  by (induction xs rule: somes.induct) auto

lemma somes_append [simp]: "somes (xs @ ys) = somes xs @ somes ys"
  by (induction xs rule: somes.induct) auto

lemma somes_map_Some [simp]: "somes (map Some xs) = xs"
  by (induction xs) auto

lemma somes_eq_Nil_iff: "somes xs = [] \<longleftrightarrow> (\<forall>x \<in> set xs. x = None)"
  by (induction xs rule: somes.induct) auto

lemma err_is_refl [simp]: "err_is e e"
  by (cases e) auto

lemma join_errors_None_iff: "join_errors es = None \<longleftrightarrow> (\<forall>e \<in> set es. e = None)"
  unfolding join_errors_def somes_eq_Nil_iff [symmetric] by (simp split: list.split)

lemma join_errors_Some_is:
  assumes "Some e \<in> set es" "err_is e t"
  shows "\<exists>j. join_errors es = Some j \<and> err_is j t"
proof -
  have "e \<in> set (somes es)" using assms(1) by simp
  then obtain x xs where somes: "somes es = x # xs" by (cases "somes es") auto
  then have "join_errors es = Some (Joined (x # xs))" by (simp add: join_errors_def)
  moreover have "list_ex (\<lambda>e. err_is e t) (x # xs)"
    using \<open>e \<in> set (somes es)\<close> assms(2) somes by (metis list_ex_iff)
  ultimately show ?thesis by (metis err_is.simps(4))
qed

end
