(* ===== verification/Backoff.thy ===== *)
theory Backoff
  imports Prelude
begin

text \<open>
  Package \<open>resilience\<close>, \<open>backoff.go\<close>: the delay before each retry. A \<open>Backoff\<close> is a function of
  the 1-based attempt. \<open>Jitter\<close> draws from \<open>math/rand/v2\<close>, so a backoff also takes the random
  source and returns it advanced; \<open>rand.N\<close> panics on a bound that is not positive, as its
  documentation says.
\<close>

section \<open>The random source\<close>

text \<open>The source is the sequence of raw draws still to come.\<close>

type_synonym rng = "nat \<Rightarrow> nat"

definition rand_N :: "duration \<Rightarrow> rng \<Rightarrow> duration outcome \<times> rng" where
  "rand_N n r =
     (if sint n \<le> 0 then (Panic ''invalid argument to N'', r)
      else (Ret (word_of_int (int (r 0 mod nat (sint n)))), (\<lambda>k. r (Suc k))))"

section \<open>Policies\<close>

type_synonym backoff = "int \<Rightarrow> rng \<Rightarrow> duration outcome \<times> rng"

definition Constant :: "duration \<Rightarrow> backoff" where
  "Constant d = (\<lambda>attempt r. (Ret d, r))"

text \<open>
  The loop \<open>for i := 1; i < attempt; i++\<close>, by the number of iterations left: return \<open>max\<close> before a
  doubling that could pass it, clamp at the end.
\<close>

fun exponential_loop :: "nat \<Rightarrow> duration \<Rightarrow> duration \<Rightarrow> duration" where
  "exponential_loop 0 d mx = (if sint mx < sint d then mx else d)"
| "exponential_loop (Suc n) d mx =
     (if sint (go_div mx 2) \<le> sint d then mx else exponential_loop n (d * 2) mx)"

definition Exponential :: "duration \<Rightarrow> duration \<Rightarrow> backoff" where
  "Exponential base mx = (\<lambda>attempt r. (Ret (exponential_loop (nat (attempt - 1)) base mx), r))"

definition Jitter :: "backoff \<Rightarrow> backoff" where
  "Jitter b = (\<lambda>attempt r.
     case b attempt r of
       (Panic v, r') \<Rightarrow> (Panic v, r')
     | (Ret d, r') \<Rightarrow> if sint d \<le> 0 then (Ret 0, r') else rand_N (d + 1) r')"

section \<open>The exponential curve\<close>

text \<open>The unbounded-integer curve the doubling approximates.\<close>

definition ideal_delay :: "int \<Rightarrow> int \<Rightarrow> nat \<Rightarrow> int" where
  "ideal_delay base mx n = min mx (base * 2 ^ n)"

lemma ideal_delay_le: "ideal_delay base mx n \<le> mx"
  by (simp add: ideal_delay_def)

lemma sint_double:
  "0 \<le> sint (d :: duration) \<Longrightarrow> sint d < sint (go_div mx 2) \<Longrightarrow> 0 \<le> sint mx \<Longrightarrow> sint (d * 2) = sint d * 2"
  using sint_le64 [of mx] sint_mult_in_range [of d 2]
  by (simp add: sint_half_nonneg in_int64_def min_int64_def max_int64_def del: sint_le64)

lemma exponential_loop_le:
  "sint (exponential_loop n d mx) \<le> sint mx"
  by (induction n d mx rule: exponential_loop.induct) auto

lemma exponential_loop_ge:
  assumes "0 \<le> sint d" "0 \<le> sint mx"
  shows "min (sint mx) (sint d) \<le> sint (exponential_loop n d mx)"
  using assms
proof (induction n d mx rule: exponential_loop.induct)
  case (2 n d mx)
  then show ?case
    using sint_double [of d mx] by (cases "sint (go_div mx 2) \<le> sint d") fastforce+
qed auto

lemma exponential_loop_near_ideal:
  assumes "0 \<le> sint d" "0 \<le> sint mx"
  shows "ideal_delay (sint d) (sint mx) n \<le> sint (exponential_loop n d mx)
    \<and> sint (exponential_loop n d mx) \<le> ideal_delay (sint d) (sint mx) n + 1"
  using assms
proof (induction n d mx rule: exponential_loop.induct)
  case (1 d mx)
  then show ?case by (auto simp: ideal_delay_def)
next
  case (2 n d mx)
  show ?case
  proof (cases "sint (go_div mx 2) \<le> sint d")
    case True
    have "sint d * 2 \<le> sint d * 2 ^ Suc n"
      using "2.prems"(1) by (intro mult_left_mono) auto
    moreover have "sint mx - 1 \<le> sint d * 2"
      using True "2.prems"(2) by (simp add: sint_half_nonneg)
    ultimately show ?thesis
      using True by (auto simp: ideal_delay_def)
  next
    case False
    then have dbl: "sint (d * 2) = sint d * 2"
      using "2.prems" by (intro sint_double [of d mx]) auto
    have "ideal_delay (sint (d * 2)) (sint mx) n = ideal_delay (sint d) (sint mx) (Suc n)"
      by (simp add: dbl ideal_delay_def mult.assoc)
    then show ?thesis
      using "2.IH" [OF False] "2.prems" False dbl by simp
  qed
qed

lemma exponential_loop_step_mono:
  assumes "0 \<le> sint d" "0 \<le> sint mx"
  shows "sint (exponential_loop n d mx) \<le> sint (exponential_loop (Suc n) d mx)"
  using assms
proof (induction n d mx rule: exponential_loop.induct)
  case (1 d mx)
  then show ?case using sint_double [of d mx] by (auto simp: sint_half_nonneg)
next
  case (2 n d mx)
  then show ?case
    using sint_double [of d mx] by (cases "sint (go_div mx 2) \<le> sint d") auto
qed

lemma exponential_loop_mono:
  assumes "0 \<le> sint d" "0 \<le> sint mx" "m \<le> n"
  shows "sint (exponential_loop m d mx) \<le> sint (exponential_loop n d mx)"
  using lift_Suc_mono_le [of "\<lambda>n. sint (exponential_loop n d mx)" m n]
    exponential_loop_step_mono [OF assms(1,2)] assms(3) by blast

section \<open>Jitter\<close>

lemma rand_N_range:
  assumes "rand_N n r = (Ret x, r')"
  shows "0 \<le> sint x \<and> sint x < sint n"
proof -
  from assms have pos: "0 < sint n" and x: "x = word_of_int (int (r 0 mod nat (sint n)))"
    by (auto simp: rand_N_def split: if_splits)
  have lt: "int (r 0 mod nat (sint n)) < sint n"
    using pos by (metis nat_0_less_mult_iff mod_less_divisor of_nat_less_iff int_nat_eq
        less_imp_le zero_less_nat_eq)
  then have "in_int64 (int (r 0 mod nat (sint n)))"
    using sint_le64 [of n] by (simp add: in_int64_def min_int64_def max_int64_def del: sint_le64)
  then have "sint x = int (r 0 mod nat (sint n))" unfolding x by (rule sint_word_of_int_in_range)
  then show ?thesis using lt by simp
qed

lemma sint_plus_one:
  "sint (d :: duration) < max_int64 \<Longrightarrow> sint (d + 1) = sint d + 1"
  using sint_ge64 [of d] sint_add_in_range [of d 1]
  by (simp add: in_int64_def min_int64_def max_int64_def del: sint_ge64)

section \<open>Properties\<close>

text \<open>C37: for a non-negative base and cap, the exponential backoff consumes no randomness, never
  panics, and its delay for any attempt (below 1 included) is the unbounded curve
  \<open>min max (base * 2 ^ (attempt - 1))\<close> to within one nanosecond, rounded up and never above the cap;
  it never decreases as the attempts go on, so no doubling wraps around.\<close>

theorem exponential_tracks_the_unbounded_curve:
  assumes "0 \<le> sint base" and "0 \<le> sint mx"
  shows "\<exists>d. Exponential base mx attempt r = (Ret d, r)
    \<and> ideal_delay (sint base) (sint mx) (nat (attempt - 1)) \<le> sint d
    \<and> sint d \<le> ideal_delay (sint base) (sint mx) (nat (attempt - 1)) + 1
    \<and> sint d \<le> sint mx
    \<and> (\<forall>later. attempt \<le> later \<longrightarrow>
         (\<exists>d'. Exponential base mx later r = (Ret d', r) \<and> sint d \<le> sint d'))"
  using exponential_loop_near_ideal [OF assms, of "nat (attempt - 1)"]
    exponential_loop_le [of "nat (attempt - 1)" base mx] exponential_loop_mono [OF assms]
  by (auto simp: Exponential_def)

theorem exponential_tracks_the_unbounded_curve_witness:
  "\<exists>d. Exponential 100 5001 9 (\<lambda>_. 0) = (Ret d, \<lambda>_. 0)
    \<and> ideal_delay 100 5001 8 \<le> sint d \<and> sint d \<le> 5001"
  using exponential_tracks_the_unbounded_curve [of 100 5001 9 "\<lambda>_. 0"] by auto

text \<open>Full jitter. When the inner backoff yields a positive delay \<open>d\<close> below the largest
  duration, \<open>Jitter\<close> yields a delay in \<open>[0, d]\<close>, and every delay of that range, both ends
  included, is produced by some draw; a delay of zero or less becomes zero with no draw at all.\<close>

lemma jitter_covers_exactly_the_full_range:
  assumes "b attempt r = (Ret d, r')" and "sint d < max_int64"
  shows "(\<exists>x r''. Jitter b attempt r = (Ret x, r'') \<and> 0 \<le> sint x \<and> sint x \<le> max 0 (sint d))
    \<and> (\<forall>x. 0 < sint d \<and> 0 \<le> sint x \<and> sint x \<le> sint d \<and> r' 0 = nat (sint x)
          \<longrightarrow> Jitter b attempt r = (Ret x, \<lambda>k. r' (Suc k)))
    \<and> (sint d \<le> 0 \<longrightarrow> Jitter b attempt r = (Ret 0, r'))"
proof (cases "sint d \<le> 0")
  case True
  then show ?thesis by (simp add: Jitter_def assms)
next
  case False
  then obtain x r'' where x: "rand_N (d + 1) r' = (Ret x, r'')"
    using assms(2) by (auto simp: rand_N_def sint_plus_one)
  with False assms rand_N_range [OF x] show ?thesis
    by (auto simp: Jitter_def rand_N_def sint_plus_one)
qed

lemma jitter_covers_exactly_the_full_range_witness:
  "Jitter (Constant 10) 1 (\<lambda>_. 4) = (Ret 4, \<lambda>_. 4)"
  using jitter_covers_exactly_the_full_range
    [where b = "Constant 10" and attempt = 1 and r = "\<lambda>_. 4" and d = 10 and r' = "\<lambda>_. 4"]
  by (auto simp: Constant_def max_int64_def)

text \<open>The one delay \<open>Jitter\<close> cannot take. At the largest duration the bound \<open>int64(d) + 1\<close> wraps
  to the smallest \<open>int64\<close>, which \<open>rand.N\<close> refuses: the backoff panics on the request path.\<close>

lemma jitter_panics_at_the_largest_duration:
  "Jitter (Constant (word_of_int max_int64)) attempt r = (Panic ''invalid argument to N'', r)"
proof -
  have "sint (word_of_int max_int64 + 1 :: duration) = min_int64"
    by (simp add: max_int64_def min_int64_def)
  moreover have "sint (word_of_int max_int64 :: duration) = max_int64"
    by (simp add: max_int64_def)
  ultimately show ?thesis
    by (simp add: Jitter_def Constant_def rand_N_def min_int64_def max_int64_def)
qed

end
