(* ===== verification/Http.thy ===== *)
theory Http
  imports Backoff
begin

text \<open>
  The part of \<open>net/http\<close> and \<open>context\<close> that the client-side modules use: contexts, requests,
  responses and the result of a round trip. Bodies are named by identity (a natural number), since
  what matters to the code is which reader is consumed and closed, and by whom.

  \<^item> A context carries its deadline and the moment it ends with the error it then reports
    (\<open>ctx_done_at\<close>, the environment's choice), the contexts \<open>WithTimeout\<close> created on the way, which
    \<open>cancel\<close> ends by hand, and the span it carries, if any.
  \<^item> \<open>GetBody\<close> is a closure of the caller: what it returns when the attempt \<open>k\<close> asks is
    \<open>rq_get_body k\<close>.
\<close>

record ctx =
  ctx_deadline :: "time option"
  ctx_done_at :: "(time \<times> goerr) option"
  ctx_tokens :: "nat list"
  ctx_span :: "nat option"

definition background :: ctx where
  "background = \<lparr>ctx_deadline = None, ctx_done_at = None, ctx_tokens = [], ctx_span = None\<rparr>"

text \<open>A context with a deadline has ended, for whatever reason, once its deadline is reached.\<close>

definition wf_ctx :: "ctx \<Rightarrow> bool" where
  "wf_ctx c \<longleftrightarrow>
     (case ctx_deadline c of None \<Rightarrow> True
      | Some dl \<Rightarrow> (case ctx_done_at c of None \<Rightarrow> False | Some (t, e) \<Rightarrow> t \<le> dl))"

definition Canceled :: goerr where "Canceled = Err ''context canceled''"
definition DeadlineExceeded :: goerr where "DeadlineExceeded = Err ''context deadline exceeded''"

text \<open>\<open>context.WithTimeout\<close>: the nearer of the parent's end and the new deadline.\<close>

definition with_timeout :: "ctx \<Rightarrow> duration \<Rightarrow> time \<Rightarrow> nat \<Rightarrow> ctx" where
  "with_timeout c d now tok =
     (let dl = now + sint d in
      c\<lparr>ctx_deadline := Some (case ctx_deadline c of None \<Rightarrow> dl | Some p \<Rightarrow> min p dl),
       ctx_done_at := Some (case ctx_done_at c of
           None \<Rightarrow> (dl, DeadlineExceeded)
         | Some (t, e) \<Rightarrow> if t \<le> dl then (t, e) else (dl, DeadlineExceeded)),
       ctx_tokens := tok # ctx_tokens c\<rparr>)"

lemma wf_ctx_background [simp]: "wf_ctx background"
  by (simp add: wf_ctx_def background_def)

lemma wf_ctx_with_timeout [intro]: "wf_ctx c \<Longrightarrow> wf_ctx (with_timeout c d t tok)"
  by (auto simp: wf_ctx_def with_timeout_def Let_def split: option.splits)

section \<open>Requests and responses\<close>

datatype body =
    NoBody
  | Raw nat
  | CancelOnClose body nat

record request =
  rq_method :: string
  rq_host :: string
  rq_header :: "string \<Rightarrow> string"
  rq_body :: "nat option"
  rq_get_body :: "(int \<Rightarrow> goerr + nat) option"
  rq_ctx :: ctx

record response =
  rs_status :: int
  rs_header :: "string \<Rightarrow> string"
  rs_body :: "body option"

text \<open>What \<open>RoundTrip\<close> returns: a response or nil, and an error or nil.\<close>

type_synonym rt_result = "response option \<times> goerr option"

definition MethodGet :: string where "MethodGet = ''GET''"
definition MethodHead :: string where "MethodHead = ''HEAD''"
definition MethodPut :: string where "MethodPut = ''PUT''"
definition MethodDelete :: string where "MethodDelete = ''DELETE''"
definition MethodOptions :: string where "MethodOptions = ''OPTIONS''"
definition MethodTrace :: string where "MethodTrace = ''TRACE''"

lemmas http_methods =
  MethodGet_def MethodHead_def MethodPut_def MethodDelete_def MethodOptions_def MethodTrace_def

text \<open>A caller-supplied predicate on a result may itself panic.\<close>

type_synonym predicate = "rt_result \<Rightarrow> bool outcome"

definition empty_response :: "int \<Rightarrow> response" where
  "empty_response code = \<lparr>rs_status = code, rs_header = (\<lambda>_. []), rs_body = None\<rparr>"

definition plain_request :: "string \<Rightarrow> ctx \<Rightarrow> request" where
  "plain_request m c = \<lparr>rq_method = m, rq_host = ''example.com'', rq_header = (\<lambda>_. []),
     rq_body = None, rq_get_body = None, rq_ctx = c\<rparr>"

end
