(* ===== verification/Breaker.thy ===== *)
theory Breaker
  imports Http
begin

text \<open>
  Package \<open>resilience\<close>, \<open>breaker.go\<close>: the circuit breaker's policy and the state machine its mutex
  protects. \<open>now()\<close>, the clock seam of the policy, is read at most once per operation, so each
  operation takes the instant it reads as an argument; the middleware that wraps a transport is in
  theory \<open>Resilience\<close>.
\<close>

definition ErrOpen :: goerr where
  "ErrOpen = Err ''resilience: circuit breaker is open''"

section \<open>Policy\<close>

record breaker_policy =
  failure_threshold :: int
  cooldown :: duration
  trip_if :: "predicate option"

definition defaultFailureThreshold :: int where "defaultFailureThreshold = 5"
definition defaultCooldown :: duration where "defaultCooldown = 30 * second"

definition defaultTripIf :: predicate where
  "defaultTripIf = (\<lambda>(resp, err).
     if err \<noteq> None then Ret True
     else case resp of None \<Rightarrow> Panic nil_dereference | Some r \<Rightarrow> Ret (500 \<le> rs_status r))"

definition breaker_with_defaults :: "breaker_policy \<Rightarrow> breaker_policy" where
  "breaker_with_defaults p =
     (let p1 = (if failure_threshold p \<le> 0
                then p\<lparr>failure_threshold := defaultFailureThreshold\<rparr> else p);
          p2 = (if sint (cooldown p1) \<le> 0 then p1\<lparr>cooldown := defaultCooldown\<rparr> else p1);
          p3 = (if trip_if p2 = None then p2\<lparr>trip_if := Some defaultTripIf\<rparr> else p2)
      in p3)"

section \<open>The state machine\<close>

datatype breaker_state = StateClosed | StateOpen | StateHalfOpen

record breaker =
  bk_policy :: breaker_policy
  bk_state :: breaker_state
  bk_fails :: int
  bk_opened_at :: time
  bk_probing :: bool

text \<open>
  The zero \<open>breaker\<close> with its policy. Its \<open>openedAt\<close> is the zero time, which no operation reads
  before it is set.
\<close>

definition new_breaker :: "breaker_policy \<Rightarrow> breaker" where
  "new_breaker p = \<lparr>bk_policy = breaker_with_defaults p, bk_state = StateClosed, bk_fails = 0,
     bk_opened_at = 0, bk_probing = False\<rparr>"

definition allow :: "breaker \<Rightarrow> time \<Rightarrow> breaker \<times> (goerr + bool)" where
  "allow b now =
     (case bk_state b of
        StateOpen \<Rightarrow>
          if sint (time_sub now (bk_opened_at b)) < sint (cooldown (bk_policy b))
          then (b, Inl ErrOpen)
          else (b\<lparr>bk_state := StateHalfOpen, bk_probing := True\<rparr>, Inr True)
      | StateHalfOpen \<Rightarrow>
          if bk_probing b then (b, Inl ErrOpen)
          else (b\<lparr>bk_probing := True\<rparr>, Inr True)
      | StateClosed \<Rightarrow> (b, Inr False))"

definition record_result :: "breaker \<Rightarrow> bool \<Rightarrow> time \<Rightarrow> breaker" where
  "record_result b tripped now =
     (if \<not> tripped then b\<lparr>bk_state := StateClosed, bk_fails := 0\<rparr>
      else let b1 = b\<lparr>bk_fails := bk_fails b + 1\<rparr> in
        if bk_state b1 = StateHalfOpen \<or> failure_threshold (bk_policy b1) \<le> bk_fails b1
        then b1\<lparr>bk_state := StateOpen, bk_opened_at := now\<rparr> else b1)"

definition releaseProbe :: "breaker \<Rightarrow> breaker" where
  "releaseProbe b = b\<lparr>bk_probing := False\<rparr>"

lemmas breaker_ops = allow_def record_result_def releaseProbe_def Let_def

section \<open>What every operation keeps\<close>

text \<open>
  The policy has its defaults applied, and the failure counter agrees with the state: below the
  threshold exactly when the circuit is closed.
\<close>

definition wf_breaker :: "breaker \<Rightarrow> bool" where
  "wf_breaker b \<longleftrightarrow>
     0 < failure_threshold (bk_policy b) \<and> 0 < sint (cooldown (bk_policy b)) \<and>
     trip_if (bk_policy b) \<noteq> None \<and> 0 \<le> bk_fails b \<and>
     (bk_state b = StateClosed \<longleftrightarrow> bk_fails b < failure_threshold (bk_policy b))"

lemma sint_second [go_arith]: "sint second = 1000000000"
  by (simp add: second_def)

lemma sint_defaultCooldown [go_arith]: "sint defaultCooldown = 30000000000"
  by (simp add: defaultCooldown_def second_def)

lemma breaker_with_defaults_positive:
  "0 < failure_threshold (breaker_with_defaults p)"
  "0 < sint (cooldown (breaker_with_defaults p))"
  "\<exists>f. trip_if (breaker_with_defaults p) = Some f"
  by (auto simp: breaker_with_defaults_def Let_def defaultFailureThreshold_def go_arith)

lemma wf_new_breaker [simp]: "wf_breaker (new_breaker p)"
  using breaker_with_defaults_positive [of p]
  by (auto simp: wf_breaker_def new_breaker_def)

lemma wf_allow: "wf_breaker b \<Longrightarrow> wf_breaker (fst (allow b t))"
  by (auto simp: wf_breaker_def allow_def split: breaker_state.splits)

lemma wf_record: "wf_breaker b \<Longrightarrow> wf_breaker (record_result b tripped t)"
  by (cases "bk_state b") (auto simp: wf_breaker_def record_result_def Let_def)

lemma wf_release: "wf_breaker b \<Longrightarrow> wf_breaker (releaseProbe b)"
  by (simp add: wf_breaker_def releaseProbe_def)

lemma policy_frame [simp]:
  "bk_policy (fst (allow b t)) = bk_policy b"
  "bk_policy (record_result b tripped t) = bk_policy b"
  "bk_policy (releaseProbe b) = bk_policy b"
  by (auto simp: breaker_ops split: breaker_state.splits)

lemma probing_frame [simp]:
  "bk_probing (record_result b tripped t) = bk_probing b"
  "\<not> bk_probing (releaseProbe b)"
  by (auto simp: breaker_ops)

lemma allow_cases:
  obtains (refused) "allow b t = (b, Inl ErrOpen)" "bk_state b \<noteq> StateClosed"
  | (probe) "allow b t = (b\<lparr>bk_state := StateHalfOpen, bk_probing := True\<rparr>, Inr True)"
      "bk_state b \<noteq> StateClosed" "bk_state b = StateHalfOpen \<Longrightarrow> \<not> bk_probing b"
  | (closed) "allow b t = (b, Inr False)" "bk_state b = StateClosed"
proof (cases "bk_state b")
  case StateClosed
  then show ?thesis by (intro closed) (simp_all add: allow_def)
next
  case StateOpen
  then show ?thesis
    using refused probe
    by (cases "sint (time_sub t (bk_opened_at b)) < sint (cooldown (bk_policy b))")
       (simp_all add: allow_def)
next
  case StateHalfOpen
  then have "b\<lparr>bk_probing := True\<rparr> = b\<lparr>bk_state := StateHalfOpen, bk_probing := True\<rparr>"
    by (cases b) simp
  with StateHalfOpen show ?thesis
    using refused probe by (cases "bk_probing b") (simp_all add: allow_def)
qed

section \<open>One call at a time\<close>

text \<open>
  The contract of the breaker, with no mutex, probe flag or counter in it: closed with a number of
  consecutive failures, open since an instant, or waiting for a probe.
\<close>

datatype circuit = CClosed nat | COpen time | CHalf

datatype verdict = Passed | Tripped | Panicked

fun circuit_probe :: "verdict \<Rightarrow> time \<Rightarrow> circuit" where
  "circuit_probe Passed t = CClosed 0"
| "circuit_probe Tripped t = COpen t"
| "circuit_probe Panicked t = CHalf"

text \<open>A call arriving at \<open>t\<close> and ending at \<open>t'\<close>: the next circuit, and whether it was admitted.\<close>

fun circuit_call :: "nat \<Rightarrow> int \<Rightarrow> circuit \<Rightarrow> time \<Rightarrow> verdict \<Rightarrow> time \<Rightarrow> circuit \<times> bool" where
  "circuit_call th cd (CClosed n) t v t' =
     (case v of
        Passed \<Rightarrow> CClosed 0
      | Tripped \<Rightarrow> if th \<le> Suc n then COpen t' else CClosed (Suc n)
      | Panicked \<Rightarrow> CClosed n, True)"
| "circuit_call th cd (COpen t0) t v t' =
     (if t - t0 < cd then (COpen t0, False) else (circuit_probe v t', True))"
| "circuit_call th cd CHalf t v t' = (circuit_probe v t', True)"

definition abs_breaker :: "breaker \<Rightarrow> circuit" where
  "abs_breaker b = (case bk_state b of
      StateClosed \<Rightarrow> CClosed (nat (bk_fails b))
    | StateOpen \<Rightarrow> COpen (bk_opened_at b)
    | StateHalfOpen \<Rightarrow> CHalf)"

text \<open>
  The same call on the machine: \<open>allow\<close>, then \<open>record\<close> unless the transport panicked, then
  \<open>releaseProbe\<close> if the call was the probe.
\<close>

definition guarded_call :: "breaker \<Rightarrow> time \<Rightarrow> verdict \<Rightarrow> time \<Rightarrow> breaker \<times> bool" where
  "guarded_call b t v t' =
     (case allow b t of
        (b1, Inl e) \<Rightarrow> (b1, False)
      | (b1, Inr probe) \<Rightarrow>
          let b2 = (case v of Panicked \<Rightarrow> b1 | Passed \<Rightarrow> record_result b1 False t'
                    | Tripped \<Rightarrow> record_result b1 True t')
          in (if probe then releaseProbe b2 else b2, True))"

lemma guarded_call_refines:
  assumes "wf_breaker b" "\<not> bk_probing b"
  shows "circuit_call (nat (failure_threshold (bk_policy b))) (sint (cooldown (bk_policy b)))
           (abs_breaker b) t v t'
         = (abs_breaker (fst (guarded_call b t v t')), snd (guarded_call b t v t'))"
proof -
  have cd: "sint (time_sub t (bk_opened_at b)) < sint (cooldown (bk_policy b))
      \<longleftrightarrow> t - bk_opened_at b < sint (cooldown (bk_policy b))"
    using assms(1) by (intro time_sub_less_iff)
      (auto simp: wf_breaker_def min_int64_def max_int64_def)
  show ?thesis
  proof (cases "bk_state b")
    case StateClosed
    then have "nat (failure_threshold (bk_policy b)) \<le> Suc (nat (bk_fails b))
        \<longleftrightarrow> failure_threshold (bk_policy b) \<le> bk_fails b + 1" "Suc (nat (bk_fails b)) = nat (bk_fails b + 1)"
      using assms(1) by (auto simp: wf_breaker_def)
    with StateClosed show ?thesis
      by (cases v) (simp_all add: guarded_call_def breaker_ops abs_breaker_def)
  next
    case StateOpen
    with cd show ?thesis
      by (cases v) (simp_all add: guarded_call_def breaker_ops abs_breaker_def)
  next
    case StateHalfOpen
    with assms(2) show ?thesis
      by (cases v) (simp_all add: guarded_call_def breaker_ops abs_breaker_def)
  qed
qed

lemma guarded_call_idle:
  assumes "wf_breaker b" "\<not> bk_probing b"
  shows "wf_breaker (fst (guarded_call b t v t')) \<and> \<not> bk_probing (fst (guarded_call b t v t'))
    \<and> bk_policy (fst (guarded_call b t v t')) = bk_policy b"
  using wf_allow [OF assms(1), of t] assms(2)
  by (cases rule: allow_cases [of b t])
     (auto simp: guarded_call_def Let_def wf_record wf_release split: verdict.split)

end
