(* ===== verification/Machine.thy ===== *)
theory Machine
  imports Main
begin

text \<open>
  Interleaved steps in general: a step takes the state to another or is not possible. What a
  component with goroutines shows of its steps is one of three contracts, an invariant, an invariant
  that rests on another one, or a measure; what follows for whole runs is proved here once.
\<close>

fun run_all :: "('a \<Rightarrow> 's \<Rightarrow> 's option) \<Rightarrow> 'a list \<Rightarrow> 's \<Rightarrow> 's option" where
  "run_all step [] s = Some s"
| "run_all step (a # as) s = (case step a s of None \<Rightarrow> None | Some s' \<Rightarrow> run_all step as s')"

inductive reaches :: "('a \<Rightarrow> 's \<Rightarrow> 's option) \<Rightarrow> 's \<Rightarrow> 's \<Rightarrow> bool" for step s0 where
  reaches_refl: "reaches step s0 s0"
| reaches_step: "reaches step s0 s \<Longrightarrow> step a s = Some s' \<Longrightarrow> reaches step s0 s'"

lemma reaches_run_all: "reaches step s0 s \<Longrightarrow> run_all step as s = Some s' \<Longrightarrow> reaches step s0 s'"
  by (induction as arbitrary: s) (auto split: option.splits intro: reaches_step)

lemma reachesI: "run_all step as s0 = Some s \<Longrightarrow> reaches step s0 s"
  by (rule reaches_run_all [OF reaches_refl])

lemma run_all_append:
  "run_all step (as @ bs) s = (case run_all step as s of None \<Rightarrow> None | Some s' \<Rightarrow> run_all step bs s')"
  by (induction as arbitrary: s) (auto split: option.split)

lemma reach_then:
  assumes "run_all step (as @ [a]) s0 \<noteq> None"
  obtains s s' where "reaches step s0 s" "step a s = Some s'" "run_all step as s0 = Some s"
  using assms by (auto simp: run_all_append intro: reachesI split: option.splits)

lemma run_all_keeps:
  assumes "\<And>a s s'. P s \<Longrightarrow> step a s = Some s' \<Longrightarrow> P s'"
  shows "P s \<Longrightarrow> run_all step as s = Some s' \<Longrightarrow> P s'"
  using assms by (induction as arbitrary: s) (auto split: option.splits)

locale invariant =
  fixes step :: "'a \<Rightarrow> 's \<Rightarrow> 's option" and s0 :: 's and inv :: "'s \<Rightarrow> bool"
  assumes inv_start: "inv s0"
    and inv_step: "inv s \<Longrightarrow> step a s = Some s' \<Longrightarrow> inv s'"
begin

lemma holds: "reaches step s0 s \<Longrightarrow> inv s"
  by (induction rule: reaches.induct) (auto intro: inv_start inv_step)

lemma stays: "inv s \<Longrightarrow> run_all step as s = Some s' \<Longrightarrow> inv s'"
  by (rule run_all_keeps [OF inv_step])

end

text \<open>An invariant that needs another one to be kept.\<close>

locale supported = base: invariant step s0 base
  for step :: "'a \<Rightarrow> 's \<Rightarrow> 's option" and s0 :: 's and base :: "'s \<Rightarrow> bool" +
  fixes also_inv :: "'s \<Rightarrow> bool"
  assumes also_start: "also_inv s0"
    and also_step: "base s \<Longrightarrow> also_inv s \<Longrightarrow> step a s = Some s' \<Longrightarrow> also_inv s'"
begin

sublocale both: invariant step s0 "\<lambda>s. base s \<and> also_inv s"
  by unfold_locales (auto intro: base.inv_start base.inv_step also_start also_step)

lemma also_holds: "reaches step s0 s \<Longrightarrow> also_inv s"
  using both.holds by blast

end

text \<open>Steps of some kind use up a measure, so a run of them is no longer than what there is of it.\<close>

locale measured =
  fixes step :: "'a \<Rightarrow> 's \<Rightarrow> 's option" and kind :: "'a \<Rightarrow> bool" and inv :: "'s \<Rightarrow> bool" and size :: "'s \<Rightarrow> nat"
  assumes size_step: "kind a \<Longrightarrow> inv s \<Longrightarrow> step a s = Some s' \<Longrightarrow> inv s' \<and> size s' < size s"
begin

lemma bounded: "list_all kind as \<Longrightarrow> inv s \<Longrightarrow> run_all step as s = Some s' \<Longrightarrow> length as + size s' \<le> size s"
proof (induction as arbitrary: s)
  case (Cons a as)
  then obtain s1 where s1: "step a s = Some s1" "run_all step as s1 = Some s'"
    by (auto split: option.splits)
  with Cons.prems size_step [of a s s1] have "inv s1" "size s1 < size s" by auto
  with Cons.IH [of s1] Cons.prems s1(2) show ?case by simp
qed simp

end

end
