(* ===== verification/Breaker_Runs.thy ===== *)
theory Breaker_Runs
  imports Breaker Machine
begin

text \<open>
  Runs of the circuit breaker of \<open>resilience/breaker.go\<close>: sequences of calls that do not overlap,
  against the abstract circuit, and every interleaving of overlapping calls, where each critical
  section of the mutex (\<open>allow\<close>, \<open>record\<close>, \<open>releaseProbe\<close>) is one step.
\<close>

section \<open>Sequences of calls\<close>

text \<open>A call: when it arrives, how it ends, when it ends.\<close>

type_synonym call = "time \<times> verdict \<times> time"

fun call_run :: "breaker \<Rightarrow> call list \<Rightarrow> breaker" where
  "call_run b [] = b"
| "call_run b ((t, v, t') # cs) = call_run (fst (guarded_call b t v t')) cs"

fun circuit_run :: "nat \<Rightarrow> int \<Rightarrow> circuit \<Rightarrow> call list \<Rightarrow> circuit" where
  "circuit_run th cd c [] = c"
| "circuit_run th cd c ((t, v, t') # cs) = circuit_run th cd (fst (circuit_call th cd c t v t')) cs"

fun after_call :: "nat \<Rightarrow> verdict \<Rightarrow> nat" where
  "after_call n Passed = 0"
| "after_call n Tripped = Suc n"
| "after_call n Panicked = n"

text \<open>Tripping results since the last one that was not; a panic records no result.\<close>

definition trips_in_a_row :: "call list \<Rightarrow> nat" where
  "trips_in_a_row cs = foldl after_call 0 (map (fst \<circ> snd) cs)"

lemma trips_in_a_row_simps [simp]:
  "trips_in_a_row [] = 0"
  "trips_in_a_row (cs @ [(t, v, t')]) = after_call (trips_in_a_row cs) v"
  by (simp_all add: trips_in_a_row_def)

lemma circuit_run_append [simp]:
  "circuit_run th cd c (xs @ ys) = circuit_run th cd (circuit_run th cd c xs) ys"
  by (induction th cd c xs rule: circuit_run.induct) simp_all

lemma call_run_refines:
  assumes "wf_breaker b" "\<not> bk_probing b"
  shows "abs_breaker (call_run b cs)
    = circuit_run (nat (failure_threshold (bk_policy b))) (sint (cooldown (bk_policy b)))
        (abs_breaker b) cs"
  using assms
proof (induction b cs rule: call_run.induct)
  case (2 b t v t' cs)
  then show ?case
    using guarded_call_refines [OF 2(2,3)] guarded_call_idle [OF 2(2,3), of t v t'] by simp
qed simp

lemma circuit_counts_trips:
  assumes "\<And>k. k < length cs \<Longrightarrow> trips_in_a_row (take k cs) < th" "0 < th"
  shows "circuit_run th cd (CClosed 0) cs =
    (if trips_in_a_row cs < th then CClosed (trips_in_a_row cs)
     else COpen (snd (snd (last cs))))"
  using assms(1)
proof (induction cs rule: rev_induct)
  case (snoc c cs)
  obtain t v t' where c: "c = (t, v, t')" by (cases c) auto
  have below: "trips_in_a_row cs < th" using snoc.prems [of "length cs"] by simp
  have "circuit_run th cd (CClosed 0) cs = CClosed (trips_in_a_row cs)"
    using snoc.IH snoc.prems below by (auto simp: nth_append)
  then show ?case using below assms(2) by (cases v) (auto simp: c)
qed (simp add: assms)

lemma new_breaker_simps [simp]:
  "bk_policy (new_breaker p) = breaker_with_defaults p"
  "\<not> bk_probing (new_breaker p)"
  "abs_breaker (new_breaker p) = CClosed 0"
  by (simp_all add: new_breaker_def abs_breaker_def)

lemma new_breaker_run:
  "abs_breaker (call_run (new_breaker p) cs)
    = circuit_run (nat (failure_threshold (breaker_with_defaults p)))
        (sint (cooldown (breaker_with_defaults p))) (CClosed 0) cs"
  using call_run_refines [of "new_breaker p" cs] by simp

section \<open>Overlapping calls\<close>

text \<open>
  The system: the breaker, the clock it reads, the admitted requests whose result is not recorded
  yet (\<open>normals\<close> through a closed circuit, \<open>probes\<close> through the half-open one), and the probes
  that returned or panicked but have not run their deferred \<open>releaseProbe\<close>.
\<close>

record bsys =
  bs_breaker :: breaker
  bs_now :: time
  bs_normals :: nat
  bs_probes :: nat
  bs_releasing :: nat

datatype baction =
    Tick nat
  | Arrive
  | NormalDone bool
  | NormalPanic
  | ProbeDone bool
  | ProbePanic
  | Release

definition bsys_init :: "breaker_policy \<Rightarrow> time \<Rightarrow> bsys" where
  "bsys_init p t = \<lparr>bs_breaker = new_breaker p, bs_now = t, bs_normals = 0, bs_probes = 0,
     bs_releasing = 0\<rparr>"

text \<open>The state after an action, \<open>None\<close> where no such request is in flight.\<close>

fun bsys_step :: "baction \<Rightarrow> bsys \<Rightarrow> bsys option" where
  "bsys_step (Tick n) s = Some (s\<lparr>bs_now := bs_now s + int n\<rparr>)"
| "bsys_step Arrive s =
     (case allow (bs_breaker s) (bs_now s) of
        (b, Inl e) \<Rightarrow> Some (s\<lparr>bs_breaker := b\<rparr>)
      | (b, Inr True) \<Rightarrow> Some (s\<lparr>bs_breaker := b, bs_probes := Suc (bs_probes s)\<rparr>)
      | (b, Inr False) \<Rightarrow> Some (s\<lparr>bs_breaker := b, bs_normals := Suc (bs_normals s)\<rparr>))"
| "bsys_step (NormalDone tripped) s =
     (if bs_normals s = 0 then None
      else Some (s\<lparr>bs_breaker := record_result (bs_breaker s) tripped (bs_now s),
                   bs_normals := bs_normals s - 1\<rparr>))"
| "bsys_step NormalPanic s =
     (if bs_normals s = 0 then None else Some (s\<lparr>bs_normals := bs_normals s - 1\<rparr>))"
| "bsys_step (ProbeDone tripped) s =
     (if bs_probes s = 0 then None
      else Some (s\<lparr>bs_breaker := record_result (bs_breaker s) tripped (bs_now s),
                   bs_probes := bs_probes s - 1, bs_releasing := Suc (bs_releasing s)\<rparr>))"
| "bsys_step ProbePanic s =
     (if bs_probes s = 0 then None
      else Some (s\<lparr>bs_probes := bs_probes s - 1, bs_releasing := Suc (bs_releasing s)\<rparr>))"
| "bsys_step Release s =
     (if bs_releasing s = 0 then None
      else Some (s\<lparr>bs_breaker := releaseProbe (bs_breaker s), bs_releasing := bs_releasing s - 1\<rparr>))"

abbreviation bsys_run :: "baction list \<Rightarrow> bsys \<Rightarrow> bsys option" where
  "bsys_run \<equiv> run_all bsys_step"

abbreviation breaker_reach :: "breaker_policy \<Rightarrow> time \<Rightarrow> bsys \<Rightarrow> bool" where
  "breaker_reach p t \<equiv> reaches bsys_step (bsys_init p t)"

text \<open>
  The invariant of every interleaving: the breaker is well formed, an occupied probe slot is held
  by a probe that has still to run \<open>releaseProbe\<close>, and the circuit did not open in the future.
\<close>

definition bsys_inv :: "bsys \<Rightarrow> bool" where
  "bsys_inv s \<longleftrightarrow> wf_breaker (bs_breaker s)
     \<and> (bk_probing (bs_breaker s) \<longrightarrow> 0 < bs_probes s + bs_releasing s)
     \<and> (bk_state (bs_breaker s) = StateOpen \<longrightarrow> bk_opened_at (bs_breaker s) \<le> bs_now s)"

fun_cases tickE: "bsys_step (Tick n) s = Some s'"
  and normalDoneE: "bsys_step (NormalDone r) s = Some s'"
  and normalPanicE: "bsys_step NormalPanic s = Some s'"
  and probeDoneE: "bsys_step (ProbeDone r) s = Some s'"
  and probePanicE: "bsys_step ProbePanic s = Some s'"
  and releaseE: "bsys_step Release s = Some s'"

lemma bsys_inv_init: "bsys_inv (bsys_init p t)"
  by (simp add: bsys_inv_def bsys_init_def) (simp add: new_breaker_def)

lemma open_record:
  "bk_state (record_result b r t) = StateOpen \<Longrightarrow>
     bk_opened_at (record_result b r t) = t \<or>
     bk_state b = StateOpen \<and> bk_opened_at (record_result b r t) = bk_opened_at b"
  by (auto simp: record_result_def Let_def split: if_splits)

lemma bsys_inv_step:
  assumes "bsys_inv s" "bsys_step a s = Some s'"
  shows "bsys_inv s'"
proof (cases a)
  case (Tick n)
  with assms show ?thesis by (auto simp: bsys_inv_def)
next
  case Arrive
  have "wf_breaker (fst (allow (bs_breaker s) (bs_now s)))"
    using assms(1) by (simp add: bsys_inv_def wf_allow)
  with assms Arrive show ?thesis
    by (cases rule: allow_cases [of "bs_breaker s" "bs_now s"]) (auto simp: bsys_inv_def)
next
  case (NormalDone r)
  with assms show ?thesis
    using open_record [of "bs_breaker s" r "bs_now s"]
    by (auto simp: bsys_inv_def wf_record elim!: normalDoneE split: if_splits)
next
  case (ProbeDone r)
  with assms show ?thesis
    using open_record [of "bs_breaker s" r "bs_now s"]
    by (auto simp: bsys_inv_def wf_record split: if_splits)
next
  case Release
  with assms show ?thesis
    by (auto simp: bsys_inv_def wf_release split: if_splits) (simp_all add: releaseProbe_def)
qed (use assms in \<open>auto simp: bsys_inv_def split: if_splits\<close>)

interpretation circuit_runs: invariant bsys_step "bsys_init p t" bsys_inv for p t
  by unfold_locales (rule bsys_inv_init, rule bsys_inv_step)

lemmas breaker_reach_inv = circuit_runs.holds

section \<open>When at most one probe is out\<close>

text \<open>
  A run is separated when no request admitted through the closed circuit reports its result while
  a probe is out, and no time passes between a probe's \<open>record\<close> and its \<open>releaseProbe\<close>.
\<close>

fun separated :: "bsys \<Rightarrow> baction list \<Rightarrow> bool" where
  "separated s [] = True"
| "separated s (a # as) =
     ((case a of
         NormalDone r \<Rightarrow> bs_probes s + bs_releasing s = 0
       | Tick n \<Rightarrow> bs_releasing s = 0
       | _ \<Rightarrow> True)
      \<and> (case bsys_step a s of None \<Rightarrow> True | Some s' \<Rightarrow> separated s' as))"

definition one_probe_inv :: "bsys \<Rightarrow> bool" where
  "one_probe_inv s \<longleftrightarrow> wf_breaker (bs_breaker s)
     \<and> bs_probes s + bs_releasing s = (if bk_probing (bs_breaker s) then 1 else 0)
     \<and> (0 < bs_probes s \<longrightarrow> bk_state (bs_breaker s) = StateHalfOpen)
     \<and> (0 < bs_releasing s \<longrightarrow> bk_state (bs_breaker s) = StateOpen \<longrightarrow>
          bk_opened_at (bs_breaker s) = bs_now s)"

lemma one_probe_init: "one_probe_inv (bsys_init p t)"
  by (simp add: one_probe_inv_def bsys_init_def)

lemma just_opened_refuses:
  "wf_breaker b \<Longrightarrow> bk_state b = StateOpen \<Longrightarrow> bk_opened_at b = t \<Longrightarrow> allow b t = (b, Inl ErrOpen)"
  by (simp add: allow_def wf_breaker_def sint_time_sub min_int64_def max_int64_def)

lemma one_probe_step:
  assumes "one_probe_inv s" "bsys_step a s = Some s'" "separated s (a # as)"
  shows "one_probe_inv s'"
proof (cases a)
  case Arrive
  have wf: "wf_breaker (bs_breaker s)" using assms(1) by (simp add: one_probe_inv_def)
  then have wf': "wf_breaker (fst (allow (bs_breaker s) (bs_now s)))" by (rule wf_allow)
  show ?thesis
  proof (cases rule: allow_cases [of "bs_breaker s" "bs_now s"])
    case probe
    then have "\<not> bk_probing (bs_breaker s)"
      using assms(1) just_opened_refuses [OF wf, of "bs_now s"]
      by (cases "bk_state (bs_breaker s)") (auto simp: one_probe_inv_def split: if_splits)
    with probe assms Arrive wf' show ?thesis by (auto simp: one_probe_inv_def)
  qed (use assms Arrive in \<open>auto simp: one_probe_inv_def\<close>)
next
  case (ProbeDone r)
  with assms(1,2) have s': "s' = s\<lparr>bs_breaker := record_result (bs_breaker s) r (bs_now s),
      bs_probes := bs_probes s - 1, bs_releasing := Suc (bs_releasing s)\<rparr>" "0 < bs_probes s"
    by (auto split: if_splits)
  with assms(1) show ?thesis
    by (auto simp: one_probe_inv_def wf_record split: if_splits)
       (auto simp: record_result_def Let_def)
next
  case Release
  with assms(1,2) show ?thesis
    by (auto simp: one_probe_inv_def wf_release split: if_splits)
next
  case (NormalDone r)
  with assms show ?thesis
    by (auto simp: one_probe_inv_def wf_record split: if_splits)
qed (use assms in \<open>auto simp: one_probe_inv_def split: if_splits\<close>)

lemma one_probe_run:
  "one_probe_inv s \<Longrightarrow> separated s as \<Longrightarrow> bsys_run as s = Some s' \<Longrightarrow> one_probe_inv s'"
proof (induction as arbitrary: s)
  case (Cons a as)
  then obtain s1 where s1: "bsys_step a s = Some s1" by (auto split: option.splits)
  with one_probe_step [OF Cons.prems(1) s1 Cons.prems(2)] Cons show ?case by auto
qed auto

section \<open>Properties\<close>

text \<open>The policy the witnesses run with: threshold 2, the defaults otherwise.\<close>

definition policy2 :: breaker_policy where
  "policy2 = \<lparr>failure_threshold = 2, cooldown = 0, trip_if = None\<rparr>"

lemma policy2_defaults [simp]:
  "failure_threshold (breaker_with_defaults policy2) = 2"
  "cooldown (breaker_with_defaults policy2) = defaultCooldown"
  by (simp_all add: policy2_def breaker_with_defaults_def)

text \<open>C3: the breaker implements the abstract circuit. Any sequence of calls that do not overlap,
  whatever their times and results (passed, tripped, or a panicking transport), drives the machine
  of \<open>allow\<close>, \<open>record\<close> and \<open>releaseProbe\<close> to the state the abstract circuit reaches with the same
  calls: the counter, the probe flag and the zero opening time are invisible.\<close>

theorem breaker_implements_circuit:
  "abs_breaker (call_run (new_breaker p) cs)
    = circuit_run (nat (failure_threshold (breaker_with_defaults p)))
        (sint (cooldown (breaker_with_defaults p))) (CClosed 0) cs"
  by (rule new_breaker_run)

text \<open>The circuit opens at exactly the threshold of consecutive tripping results, not before.
  As long as no earlier prefix of the calls ends in \<open>FailureThreshold\<close> trips in a row, the circuit
  is closed with their number, and with the call that reaches the threshold it is open since the
  instant that call ended.\<close>

lemma breaker_opens_exactly_at_the_threshold:
  assumes "\<And>k. k < length cs \<Longrightarrow>
      int (trips_in_a_row (take k cs)) < failure_threshold (breaker_with_defaults p)"
  shows "abs_breaker (call_run (new_breaker p) cs) =
    (if int (trips_in_a_row cs) < failure_threshold (breaker_with_defaults p)
     then CClosed (trips_in_a_row cs) else COpen (snd (snd (last cs))))"
proof -
  let ?th = "nat (failure_threshold (breaker_with_defaults p))"
  have pos: "0 < ?th" using breaker_with_defaults_positive(1) [of p] by simp
  have "circuit_run ?th cd (CClosed 0) cs =
      (if trips_in_a_row cs < ?th then CClosed (trips_in_a_row cs) else COpen (snd (snd (last cs))))" for cd
    using assms by (intro circuit_counts_trips pos) (simp add: zless_nat_eq_int_zless)
  then show ?thesis by (simp add: new_breaker_run zless_nat_eq_int_zless)
qed

lemma breaker_opens_exactly_at_the_threshold_witness:
  "abs_breaker (call_run (new_breaker policy2)
      [(0, Tripped, 1), (2, Passed, 3), (4, Tripped, 5), (6, Panicked, 7), (8, Tripped, 9)]) = COpen 9"
  by (subst breaker_opens_exactly_at_the_threshold)
     (auto simp: trips_in_a_row_def less_Suc_eq)

text \<open>C25: in every interleaving of overlapping calls, the failure counter is below the threshold
  exactly when the circuit is closed; so a half-open circuit always carries a full count, and the
  half-open clause of \<open>record\<close> never decides alone. An occupied probe slot always has a probe that
  will release it, and an open circuit did not open in the future.\<close>

theorem breaker_reachable_states:
  assumes "breaker_reach p t s"
  shows "(bk_state (bs_breaker s) = StateClosed
        \<longleftrightarrow> bk_fails (bs_breaker s) < failure_threshold (bk_policy (bs_breaker s)))
    \<and> (bk_probing (bs_breaker s) \<longrightarrow> 0 < bs_probes s + bs_releasing s)
    \<and> (bk_state (bs_breaker s) = StateOpen \<longrightarrow> bk_opened_at (bs_breaker s) \<le> bs_now s)"
  using breaker_reach_inv [OF assms] by (simp add: bsys_inv_def wf_breaker_def)

text \<open>A run with a failed probe, used by the witnesses below: two failures open the circuit, the
  cooldown passes, and a probe is out.\<close>

definition probe_run :: "baction list" where
  "probe_run = [Arrive, Arrive, NormalDone True, NormalDone True, Tick 30000000000, Arrive]"

lemma probe_run_state:
  "bsys_run probe_run (bsys_init policy2 0) =
    Some \<lparr>bs_breaker = \<lparr>bk_policy = breaker_with_defaults policy2, bk_state = StateHalfOpen,
        bk_fails = 2, bk_opened_at = 0, bk_probing = True\<rparr>,
      bs_now = 30000000000, bs_normals = 0, bs_probes = 1, bs_releasing = 0\<rparr>"
  by (simp add: probe_run_def bsys_init_def new_breaker_def breaker_ops sint_time_sub
      min_int64_def max_int64_def go_arith)

lemma probe_run_reach:
  assumes "bsys_run (probe_run @ as) (bsys_init policy2 0) = Some s"
  shows "breaker_reach policy2 0 s"
  using reachesI [OF assms] .

theorem breaker_reachable_states_witness:
  "\<exists>s. bsys_run probe_run (bsys_init policy2 0) = Some s
    \<and> bk_state (bs_breaker s) = StateHalfOpen \<and> 0 < bs_probes s + bs_releasing s
    \<and> \<not> bk_fails (bs_breaker s) < failure_threshold (bk_policy (bs_breaker s))"
  using breaker_reachable_states [OF reachesI [OF probe_run_state]]
  by (simp add: probe_run_state)

text \<open>C26: the breaker never refuses for good. From every reachable state with no probe in flight or
  about to release its slot (panicking transports included), a request that arrives once the
  cooldown has passed since the last instant is admitted.\<close>

theorem breaker_never_stays_closed_to_traffic:
  assumes "breaker_reach p t s" and "bs_probes s + bs_releasing s = 0"
    and "sint (cooldown (bk_policy (bs_breaker s))) \<le> int n"
  shows "\<exists>s'. bsys_run [Tick n, Arrive] s = Some s'
    \<and> bs_normals s' + bs_probes s' = bs_normals s + bs_probes s + 1"
proof -
  have inv: "bsys_inv s" by (rule breaker_reach_inv [OF assms(1)])
  let ?b = "bs_breaker s" and ?t = "bs_now s + int n"
  have "bk_state ?b = StateOpen \<Longrightarrow> \<not> sint (time_sub ?t (bk_opened_at ?b)) < sint (cooldown (bk_policy ?b))"
    using inv assms(3) by (subst time_sub_less_iff)
      (auto simp: bsys_inv_def wf_breaker_def min_int64_def max_int64_def)
  then show ?thesis
    using inv assms(2)
    by (cases rule: allow_cases [of ?b ?t])
       (auto simp: bsys_inv_def allow_def split: breaker_state.splits)
qed

text \<open>The breaker after the probe of \<open>probe_run\<close> panicked: half-open, slot free.\<close>

lemma probe_panic_state:
  "\<exists>s. bsys_run (probe_run @ [ProbePanic, Release]) (bsys_init policy2 0) = Some s
    \<and> bs_probes s + bs_releasing s = 0 \<and> bk_state (bs_breaker s) = StateHalfOpen
    \<and> bk_policy (bs_breaker s) = breaker_with_defaults policy2"
  by (simp add: probe_run_def bsys_init_def new_breaker_def breaker_ops sint_time_sub
      min_int64_def max_int64_def go_arith)

theorem breaker_never_stays_closed_to_traffic_witness:
  "\<exists>s s'. bsys_run (probe_run @ [ProbePanic, Release]) (bsys_init policy2 0) = Some s
    \<and> bsys_run [Tick 30000000000, Arrive] s = Some s'
    \<and> bs_normals s' + bs_probes s' = bs_normals s + bs_probes s + 1"
proof -
  from probe_panic_state obtain s
    where s: "bsys_run (probe_run @ [ProbePanic, Release]) (bsys_init policy2 0) = Some s"
      "bs_probes s + bs_releasing s = 0" "bk_state (bs_breaker s) = StateHalfOpen"
      "bk_policy (bs_breaker s) = breaker_with_defaults policy2"
    by (elim exE conjE)
  have "breaker_reach policy2 0 s" by (rule probe_run_reach [OF s(1)])
  from breaker_never_stays_closed_to_traffic [OF this s(2), of 30000000000] obtain s'
    where "bsys_run [Tick 30000000000, Arrive] s = Some s'"
      "bs_normals s' + bs_probes s' = bs_normals s + bs_probes s + 1"
    by (auto simp: s(4) go_arith simp del: run_all.simps)
  with s(1) show ?thesis by (intro exI conjI)
qed

text \<open>C27: at most one probe is in flight in every separated interleaving, that is when no request
  admitted through the closed circuit reports its result while a probe is out and a finished probe
  releases its slot before the clock moves.\<close>

theorem breaker_at_most_one_probe:
  assumes "bsys_run as (bsys_init p t) = Some s" and "separated (bsys_init p t) as"
  shows "bs_probes s \<le> 1 \<and> (bs_probes s = 1 \<longrightarrow> bsys_step Arrive s = Some s)"
proof -
  have inv: "one_probe_inv s"
    using one_probe_run [OF one_probe_init assms(2,1)] .
  then have "bs_probes s = 1 \<Longrightarrow> allow (bs_breaker s) (bs_now s) = (bs_breaker s, Inl ErrOpen)"
    by (auto simp: one_probe_inv_def allow_def split: if_splits)
  with inv show ?thesis by (auto simp: one_probe_inv_def split: if_splits)
qed

theorem breaker_at_most_one_probe_witness:
  "\<exists>s. bsys_run probe_run (bsys_init policy2 0) = Some s \<and> bs_probes s = 1
    \<and> bsys_step Arrive s = Some s"
proof -
  have "separated (bsys_init policy2 0) probe_run"
    by (simp add: probe_run_def bsys_init_def new_breaker_def breaker_ops sint_time_sub
        min_int64_def max_int64_def go_arith)
  with breaker_at_most_one_probe [OF probe_run_state] show ?thesis
    by (simp add: probe_run_state)
qed

text \<open>Without that separation the promise of exactly one probe fails. A request admitted before
  the circuit opened and failing while the probe is out re-opens the circuit with the probe's slot
  still taken; after another cooldown \<open>allow\<close> takes the open branch, which does not look at the
  slot, and a second probe is in flight beside the first; when one of them releases the shared
  slot, a third request is admitted as a probe.\<close>

lemma breaker_admits_overlapping_probes:
  "\<exists>as s. bsys_run as (bsys_init policy2 0) = Some s \<and> breaker_reach policy2 0 s \<and> bs_probes s = 2
    \<and> (\<exists>s'. bsys_run [ProbePanic, Release, Arrive] s = Some s' \<and> bs_probes s' = 2)"
proof -
  let ?as = "[Arrive, Arrive, Arrive, NormalDone True, NormalDone True, Tick 30000000000, Arrive,
      NormalDone True, Tick 30000000000, Arrive]"
  have "\<exists>s. bsys_run ?as (bsys_init policy2 0) = Some s \<and> bs_probes s = 2
      \<and> (\<exists>s'. bsys_run [ProbePanic, Release, Arrive] s = Some s' \<and> bs_probes s' = 2)"
    by (simp add: bsys_init_def new_breaker_def breaker_ops sint_time_sub
        min_int64_def max_int64_def go_arith)
  then show ?thesis by (meson reachesI)
qed

end
