(* ===== verification/World.thy ===== *)
theory World
  imports Breaker
begin

text \<open>
  The state that client-side code threads through a call, and \<open>http.RoundTripper\<close> as a function of
  it. The world holds what the runtime and the heap hold for the code: the clock, the random source,
  the identities handed out to contexts, the contexts cancelled by hand, the state of every response
  body, the breakers, the calls made to the OpenTelemetry API, and what crossed the network boundary:
  the requests that reached it and the answers it gave. A transport of the caller's own keeps its state in the record's extension.
\<close>

section \<open>The world\<close>

record rbody =
  unread :: nat
  closed :: bool

text \<open>Calls the code makes to the OpenTelemetry API, in order.\<close>

datatype otel_value = OStr string | OInt int

datatype otel_call =
    SpanStart string bool "(string \<times> otel_value) list"
  | SpanSetName string
  | SpanSetAttributes "(string \<times> otel_value) list"
  | SpanSetStatusError string
  | SpanEnd
  | HistRecord string duration "(string \<times> otel_value) list"

record world =
  clock :: time
  rand :: rng
  tie :: bool
  next_token :: nat
  cancelled :: "nat list"
  bodies :: "nat \<Rightarrow> rbody"
  breakers :: "nat \<Rightarrow> breaker"
  otel :: "otel_call list"
  sent :: "(time \<times> request) list"
  answers :: "rt_result outcome list"

type_synonym 'x round_tripper =
  "'x world_scheme \<Rightarrow> request \<Rightarrow> 'x world_scheme \<times> rt_result outcome"

type_synonym 'x middleware = "'x round_tripper \<Rightarrow> 'x round_tripper"

section \<open>Contexts and bodies\<close>

text \<open>\<open>ctx.Err()\<close>.\<close>

definition ctx_err :: "ctx \<Rightarrow> 'x world_scheme \<Rightarrow> goerr option" where
  "ctx_err c w =
     (case ctx_done_at c of
        Some (t, e) \<Rightarrow> if t \<le> clock w then Some e
                     else if list_ex (\<lambda>k. k \<in> set (cancelled w)) (ctx_tokens c) then Some Canceled
                     else None
      | None \<Rightarrow> if list_ex (\<lambda>k. k \<in> set (cancelled w)) (ctx_tokens c) then Some Canceled else None)"

text \<open>The \<open>CancelFunc\<close> of a context.\<close>

definition cancel :: "nat \<Rightarrow> 'x world_scheme \<Rightarrow> 'x world_scheme" where
  "cancel k w = w\<lparr>cancelled := k # cancelled w\<rparr>"

text \<open>
  Reading up to \<open>n\<close> bytes and closing, through the wrappers a body may have. \<open>NoBody\<close> is always at
  its end. The \<open>Close\<close> of \<open>cancelOnClose\<close> closes what it wraps, then cancels its context.
\<close>

fun body_read :: "nat \<Rightarrow> body \<Rightarrow> 'x world_scheme \<Rightarrow> 'x world_scheme" where
  "body_read n NoBody w = w"
| "body_read n (Raw i) w =
     w\<lparr>bodies := (bodies w)(i := (bodies w i)\<lparr>unread := unread (bodies w i) - n\<rparr>)\<rparr>"
| "body_read n (CancelOnClose b k) w = body_read n b w"

fun body_close :: "body \<Rightarrow> 'x world_scheme \<Rightarrow> 'x world_scheme" where
  "body_close NoBody w = w"
| "body_close (Raw i) w = w\<lparr>bodies := (bodies w)(i := (bodies w i)\<lparr>closed := True\<rparr>)\<rparr>"
| "body_close (CancelOnClose b k) w = cancel k (body_close b w)"

text \<open>The reader at the bottom of a body.\<close>

fun body_handle :: "body \<Rightarrow> nat option" where
  "body_handle NoBody = None"
| "body_handle (Raw i) = Some i"
| "body_handle (CancelOnClose b k) = body_handle b"

fun body_tokens :: "body \<Rightarrow> nat list" where
  "body_tokens NoBody = []"
| "body_tokens (Raw i) = []"
| "body_tokens (CancelOnClose b k) = k # body_tokens b"

named_theorems world_frame "fields an operation leaves alone"

lemma cancel_frame [world_frame, simp]:
  "clock (cancel k w) = clock w" "rand (cancel k w) = rand w" "tie (cancel k w) = tie w"
  "next_token (cancel k w) = next_token w" "bodies (cancel k w) = bodies w"
  "breakers (cancel k w) = breakers w" "otel (cancel k w) = otel w" "sent (cancel k w) = sent w"
  "answers (cancel k w) = answers w"
  "cancelled (cancel k w) = k # cancelled w"
  by (simp_all add: cancel_def)

lemma body_read_frame [world_frame, simp]:
  "clock (body_read n b w) = clock w" "rand (body_read n b w) = rand w"
  "tie (body_read n b w) = tie w" "next_token (body_read n b w) = next_token w"
  "breakers (body_read n b w) = breakers w" "otel (body_read n b w) = otel w"
  "sent (body_read n b w) = sent w" "answers (body_read n b w) = answers w"
  "cancelled (body_read n b w) = cancelled w"
  by (induction n b w rule: body_read.induct) simp_all

lemma body_close_frame [world_frame, simp]:
  "clock (body_close b w) = clock w" "rand (body_close b w) = rand w"
  "tie (body_close b w) = tie w" "next_token (body_close b w) = next_token w"
  "breakers (body_close b w) = breakers w" "otel (body_close b w) = otel w"
  "sent (body_close b w) = sent w" "answers (body_close b w) = answers w"
  "cancelled (body_close b w) = body_tokens b @ cancelled w"
  by (induction b w rule: body_close.induct) simp_all

lemma bodies_read:
  "bodies (body_read n b w) = (case body_handle b of None \<Rightarrow> bodies w
     | Some i \<Rightarrow> (bodies w)(i := (bodies w i)\<lparr>unread := unread (bodies w i) - n\<rparr>))"
  by (induction n b w rule: body_read.induct) simp_all

lemma bodies_close:
  "bodies (body_close b w) = (case body_handle b of None \<Rightarrow> bodies w
     | Some i \<Rightarrow> (bodies w)(i := (bodies w i)\<lparr>closed := True\<rparr>))"
  by (induction b w rule: body_close.induct) simp_all

section \<open>Transports\<close>

text \<open>
  The contract of \<open>http.RoundTripper\<close> that middleware relies on: time does not run backwards, the
  logs of the network boundary only grow, and the identities of contexts already handed out stay
  valid.
\<close>

definition grows :: "'x world_scheme \<Rightarrow> 'x world_scheme \<Rightarrow> bool" where
  "grows w w' \<longleftrightarrow> clock w \<le> clock w' \<and> (\<exists>more. sent w' = sent w @ more)
     \<and> (\<exists>more. answers w' = answers w @ more) \<and> next_token w \<le> next_token w'"

lemma grows_refl [simp, intro]: "grows w w"
  by (simp add: grows_def)

lemma grows_trans [trans]: "grows w w' \<Longrightarrow> grows w' w'' \<Longrightarrow> grows w w''"
  by (auto simp: grows_def)

locale transport =
  fixes nxt :: "'x round_tripper"
  assumes grows_nxt: "grows w (fst (nxt w req))"

text \<open>A transport that sends exactly one request per call.\<close>

locale single_send = transport +
  assumes one_request: "length (sent (fst (nxt w req))) = Suc (length (sent w))"

text \<open>
  The network at the bottom of a chain, whatever it answers: it leaves the logs to \<open>observed\<close>, hands
  every response an open body that belongs to no earlier answer, and does not touch the bodies it
  has handed out.
\<close>

fun answer_handle :: "rt_result outcome \<Rightarrow> nat option" where
  "answer_handle (Ret (Some r, e)) =
     (case rs_body r of None \<Rightarrow> None | Some b \<Rightarrow> body_handle b)"
| "answer_handle _ = None"

definition handles :: "'x world_scheme \<Rightarrow> nat set" where
  "handles w = set (somes (map answer_handle (answers w)))"

lemma handles_iff: "i \<in> handles w \<longleftrightarrow> (\<exists>a \<in> set (answers w). answer_handle a = Some i)"
  by (force simp: handles_def)

text \<open>The network boundary: a transport with what crosses it recorded.\<close>

definition observed :: "'x round_tripper \<Rightarrow> 'x round_tripper" where
  "observed nxt w req =
     (case nxt (w\<lparr>sent := sent w @ [(clock w, req)]\<rparr>) req of
        (w', out) \<Rightarrow> (w'\<lparr>answers := answers w' @ [out]\<rparr>, out))"

locale network =
  fixes nxt :: "'x round_tripper"
  assumes net_clock: "clock w \<le> clock (fst (nxt w req))"
    and net_sent: "sent (fst (nxt w req)) = sent w"
    and net_answers: "answers (fst (nxt w req)) = answers w"
    and net_tokens: "next_token w \<le> next_token (fst (nxt w req))"
    and net_fresh: "answer_handle (snd (nxt w req)) = Some i \<Longrightarrow>
          i \<notin> handles w \<and> \<not> closed (bodies (fst (nxt w req)) i)"
    and net_bodies: "i \<in> handles w \<Longrightarrow> bodies (fst (nxt w req)) i = bodies w i"
begin

lemma observed_cases:
  obtains w' out where "observed nxt w req = (w', out)"
    "sent w' = sent w @ [(clock w, req)]" "answers w' = answers w @ [out]"
    "clock w \<le> clock w'" "next_token w \<le> next_token w'"
    "\<And>i. i \<in> handles w \<Longrightarrow> bodies w' i = bodies w i"
    "\<And>i. answer_handle out = Some i \<Longrightarrow> i \<notin> handles w \<and> \<not> closed (bodies w' i)"
proof -
  let ?w = "w\<lparr>sent := sent w @ [(clock w, req)]\<rparr>"
  have "handles ?w = handles w" by (simp add: handles_def)
  moreover obtain w' out where nxt: "nxt ?w req = (w', out)" by fastforce
  ultimately show ?thesis
    using that [of "w'\<lparr>answers := answers w' @ [out]\<rparr>" out]
      net_clock [of ?w req] net_sent [of ?w req] net_answers [of ?w req] net_tokens [of ?w req]
      net_fresh [of ?w req] net_bodies [of _ ?w req]
    by (simp add: observed_def)
qed

sublocale observed: single_send "observed nxt"
proof
  fix w req
  show "grows w (fst (observed nxt w req))"
    by (rule observed_cases [of w req]) (simp add: grows_def)
  show "length (sent (fst (observed nxt w req))) = Suc (length (sent w))"
    by (rule observed_cases [of w req]) simp
qed

lemma observed_single_send: "single_send (observed nxt)"
  by unfold_locales

lemma observed_transport: "transport (observed nxt)"
  by unfold_locales

end

end
