(* ===== verification/Go_Strings.thy ===== *)
theory Go_Strings
  imports Prelude
begin

text \<open>
  What the program uses of packages \<open>strings\<close> and \<open>strconv\<close>, on strings as lists of bytes: decimal
  rendering and parsing.
\<close>

section \<open>Decimal numbers\<close>

definition is_digit :: "char \<Rightarrow> bool" where
  "is_digit c \<longleftrightarrow> 48 \<le> (of_char c :: nat) \<and> (of_char c :: nat) \<le> 57"

definition digit_char :: "nat \<Rightarrow> char" where
  "digit_char d = char_of (48 + d)"

definition digit_val :: "char \<Rightarrow> int" where
  "digit_val c = int (of_char c) - 48"

text \<open>\<open>strconv.Itoa\<close> of a non-negative number.\<close>

fun decimal :: "nat \<Rightarrow> string" where
  "decimal n = (if n < 10 then [digit_char n] else decimal (n div 10) @ [digit_char (n mod 10)])"

declare decimal.simps [simp del]

definition itoa :: "int \<Rightarrow> string" where
  "itoa n = (if n < 0 then CHR ''-'' # decimal (nat (- n)) else decimal (nat n))"

fun digits_value :: "int \<Rightarrow> string \<Rightarrow> int option" where
  "digits_value acc [] = Some acc"
| "digits_value acc (c # cs) =
     (if is_digit c then digits_value (acc * 10 + digit_val c) cs else None)"

text \<open>The sign of a number and what follows it.\<close>

definition split_sign :: "string \<Rightarrow> int \<times> string" where
  "split_sign s = (case s of [] \<Rightarrow> (1, [])
     | c # cs \<Rightarrow> if c = CHR ''-'' then (- 1, cs) else if c = CHR ''+'' then (1, cs) else (1, s))"

text \<open>\<open>strconv.Atoi\<close>: an optional sign, decimal digits, and a value in the range of \<open>int\<close>.\<close>

definition atoi :: "string \<Rightarrow> int option" where
  "atoi s =
     (let (sign, ds) = split_sign s in
      if ds = [] then None
      else case digits_value 0 ds of None \<Rightarrow> None
        | Some n \<Rightarrow> if in_int64 (sign * n) then Some (sign * n) else None)"

lemma of_digit_char [simp]: "d < 10 \<Longrightarrow> (of_char (digit_char d) :: nat) = 48 + d"
  by (simp add: digit_char_def)

lemma digit_char_simps [simp]:
  assumes "d < 10"
  shows "is_digit (digit_char d)" "digit_val (digit_char d) = int d"
    "digit_char d \<noteq> CHR ''-''" "digit_char d \<noteq> CHR ''+''"
proof -
  have of: "(of_char (digit_char d) :: nat) = 48 + d" using assms by simp
  show "is_digit (digit_char d)" "digit_val (digit_char d) = int d"
    using assms of by (simp_all add: is_digit_def digit_val_def)
  show "digit_char d \<noteq> CHR ''-''" "digit_char d \<noteq> CHR ''+''"
    using of by auto
qed

lemma digits_value_append:
  "digits_value acc (xs @ ys) =
     (case digits_value acc xs of None \<Rightarrow> None | Some a \<Rightarrow> digits_value a ys)"
  by (induction acc xs rule: digits_value.induct) auto

lemma digits_value_decimal: "digits_value 0 (decimal n) = Some (int n)"
proof (induction n rule: decimal.induct)
  case (1 n)
  show ?case
  proof (cases "n < 10")
    case False
    have "int (n div 10) * 10 + int (n mod 10) = int n" by presburger
    with 1 [OF False] False show ?thesis
      by (subst decimal.simps) (simp add: digits_value_append)
  qed (subst decimal.simps, simp)
qed

lemma decimal_hd: "\<exists>d cs. d < 10 \<and> decimal n = digit_char d # cs"
proof (induction n rule: decimal.induct)
  case (1 n)
  show ?case
  proof (cases "n < 10")
    case False
    with 1 obtain d cs where "d < 10" "decimal (n div 10) = digit_char d # cs" by blast
    with False show ?thesis by (subst decimal.simps) auto
  qed (subst decimal.simps, auto)
qed

lemma decimal_not_Nil [simp]: "decimal n \<noteq> []"
  using decimal_hd [of n] by auto

lemma split_sign_decimal [simp]: "split_sign (decimal n) = (1, decimal n)"
  using decimal_hd [of n] by (auto simp: split_sign_def)

lemma split_sign_minus [simp]: "split_sign (CHR ''-'' # s) = (- 1, s)"
  by (simp add: split_sign_def)

lemma atoi_decimal: "int n \<le> max_int64 \<Longrightarrow> atoi (decimal n) = Some (int n)"
  by (simp add: atoi_def digits_value_decimal in_int64_def min_int64_def)

lemma atoi_itoa: "in_int64 n \<Longrightarrow> atoi (itoa n) = Some n"
  by (auto simp: itoa_def atoi_decimal in_int64_def)
     (simp add: atoi_def digits_value_decimal in_int64_def)

lemma all_digits_decimal: "list_all is_digit (decimal n)"
proof (induction n rule: decimal.induct)
  case (1 n)
  then show ?case by (cases "n < 10") (subst decimal.simps, simp)+
qed

section \<open>Splitting and trimming\<close>

text \<open>\<open>strings.Split\<close> on one byte.\<close>

fun split_on :: "char \<Rightarrow> string \<Rightarrow> string list" where
  "split_on c [] = [[]]"
| "split_on c (x # xs) =
     (if x = c then [] # split_on c xs
      else case split_on c xs of [] \<Rightarrow> [[x]] | y # ys \<Rightarrow> (x # y) # ys)"

fun join_on :: "char \<Rightarrow> string list \<Rightarrow> string" where
  "join_on c [] = []"
| "join_on c [x] = x"
| "join_on c (x # y # ys) = x @ c # join_on c (y # ys)"

lemma split_on_not_Nil [simp]: "split_on c s \<noteq> []"
  by (induction c s rule: split_on.induct) (auto split: list.split)

lemma split_on_no_sep: "c \<notin> set s \<Longrightarrow> split_on c s = [s]"
  by (induction c s rule: split_on.induct) auto

lemma split_on_append: "c \<notin> set x \<Longrightarrow> split_on c (x @ c # s) = x # split_on c s"
  by (induction x) auto

lemma split_join: "xs \<noteq> [] \<Longrightarrow> \<forall>x \<in> set xs. c \<notin> set x \<Longrightarrow> split_on c (join_on c xs) = xs"
  by (induction c xs rule: join_on.induct) (auto simp: split_on_no_sep split_on_append)

definition has_prefix :: "string \<Rightarrow> string \<Rightarrow> bool" where
  "has_prefix p s \<longleftrightarrow> take (length p) s = p"

lemma has_prefix_iff: "has_prefix p s \<longleftrightarrow> (\<exists>r. s = p @ r)"
proof
  assume "has_prefix p s"
  then have "s = p @ drop (length p) s" by (metis append_take_drop_id has_prefix_def)
  then show "\<exists>r. s = p @ r" ..
qed (auto simp: has_prefix_def)

lemma has_prefix_simps:
  "has_prefix [] s" "\<not> has_prefix (a # p) []" "has_prefix (a # p) (b # s) \<longleftrightarrow> a = b \<and> has_prefix p s"
  by (auto simp: has_prefix_def)

lemma has_prefix_refl [simp]: "has_prefix p p"
  by (simp add: has_prefix_def)

lemma has_prefix_append: "has_prefix p s \<Longrightarrow> has_prefix p (s @ t)"
  by (auto simp: has_prefix_iff)

lemma has_prefix_trans: "has_prefix p q \<Longrightarrow> has_prefix q s \<Longrightarrow> has_prefix p s"
  by (auto simp: has_prefix_iff)

definition trim_prefix :: "string \<Rightarrow> string \<Rightarrow> string" where
  "trim_prefix p s = (if has_prefix p s then drop (length p) s else s)"

text \<open>\<open>strings.Cut\<close> at the first occurrence of one byte.\<close>

definition cut :: "char \<Rightarrow> string \<Rightarrow> string \<times> string \<times> bool" where
  "cut c s = (case dropWhile (\<lambda>x. x \<noteq> c) s of
       [] \<Rightarrow> (s, [], False) | _ # rest \<Rightarrow> (takeWhile (\<lambda>x. x \<noteq> c) s, rest, True))"

lemma cut_append: "c \<notin> set k \<Longrightarrow> cut c (k @ c # v) = (k, v, True)"
  by (induction k) (auto simp: cut_def split: list.splits)

section \<open>UTF-8\<close>

text \<open>
  The runes of a string as \<open>unicode/utf8\<close> decodes them. \<open>first_byte\<close> is its table of leading bytes: how
  many bytes follow, and the range of the first of them; the others are between 128 and 191. A byte
  that starts no rune is a piece of its own.
\<close>

definition byte_between :: "nat \<Rightarrow> nat \<Rightarrow> char \<Rightarrow> bool" where
  "byte_between lo hi c \<longleftrightarrow> lo \<le> (of_char c :: nat) \<and> (of_char c :: nat) \<le> hi"

definition first_byte :: "char \<Rightarrow> (nat \<times> nat \<times> nat) option" where
  "first_byte c = (let b = (of_char c :: nat) in
     if b < 128 then Some (0, 0, 0) else if b < 194 then None
     else if b < 224 then Some (1, 128, 191)
     else if b = 224 then Some (2, 160, 191) else if b = 237 then Some (2, 128, 159)
     else if b < 240 then Some (2, 128, 191)
     else if b = 240 then Some (3, 144, 191) else if b < 244 then Some (3, 128, 191)
     else if b = 244 then Some (3, 128, 143) else None)"

text \<open>The length of the rune at the head, 0 when there is none.\<close>

definition rune_length :: "string \<Rightarrow> nat" where
  "rune_length s = (case s of [] \<Rightarrow> 0 | c # cs \<Rightarrow>
     (case first_byte c of None \<Rightarrow> 0
      | Some (k, lo, hi) \<Rightarrow>
          if k = 0 then 1
          else if k \<le> length cs \<and> byte_between lo hi (hd cs) \<and> list_all (byte_between 128 191) (take k cs)
          then Suc k else 0))"

function runes :: "string \<Rightarrow> string list" where
  "runes [] = []"
| "runes (c # cs) = (let k = rune_length (c # cs) - 1 in (c # take k cs) # runes (drop k cs))"
  by pat_completeness auto
termination
  by (relation "measure length") auto

lemma concat_runes: "concat (runes s) = s"
  by (induction s rule: runes.induct) (auto simp: Let_def)

lemma rune_length_ascii: "(of_char c :: nat) < 128 \<Longrightarrow> rune_length (c # cs) = 1"
  by (simp add: rune_length_def first_byte_def)

lemma runes_ascii: "list_all (\<lambda>c. (of_char c :: nat) < 128) s \<Longrightarrow> runes s = map (\<lambda>c. [c]) s"
  by (induction s) (simp_all add: rune_length_ascii)

section \<open>White space\<close>

text \<open>\<open>unicode.IsSpace\<close>: the encodings of the runes with the property \<open>White_Space\<close>.\<close>

definition spaces :: "string list" where
  "spaces =
    [[CHR 0x09], [CHR 0x0A], [CHR 0x0B], [CHR 0x0C], [CHR 0x0D], [CHR 0x20], [CHR 0xC2, CHR 0x85],
      [CHR 0xC2, CHR 0xA0], [CHR 0xE1, CHR 0x9A, CHR 0x80], [CHR 0xE2, CHR 0x80, CHR 0x80],
      [CHR 0xE2, CHR 0x80, CHR 0x81], [CHR 0xE2, CHR 0x80, CHR 0x82], [CHR 0xE2, CHR 0x80, CHR 0x83],
      [CHR 0xE2, CHR 0x80, CHR 0x84], [CHR 0xE2, CHR 0x80, CHR 0x85], [CHR 0xE2, CHR 0x80, CHR 0x86],
      [CHR 0xE2, CHR 0x80, CHR 0x87], [CHR 0xE2, CHR 0x80, CHR 0x88], [CHR 0xE2, CHR 0x80, CHR 0x89],
      [CHR 0xE2, CHR 0x80, CHR 0x8A], [CHR 0xE2, CHR 0x80, CHR 0xA8], [CHR 0xE2, CHR 0x80, CHR 0xA9],
      [CHR 0xE2, CHR 0x80, CHR 0xAF], [CHR 0xE2, CHR 0x81, CHR 0x9F], [CHR 0xE3, CHR 0x80, CHR 0x80]]"

text \<open>The space a string starts with, if any, and without all of them; no encoding is a prefix of another.\<close>

definition leading :: "string list \<Rightarrow> string \<Rightarrow> string option" where
  "leading ps s = List.find (\<lambda>p. p \<noteq> [] \<and> has_prefix p s) ps"

function trim_left :: "string list \<Rightarrow> string \<Rightarrow> string" where
  "trim_left ps s = (case leading ps s of None \<Rightarrow> s | Some p \<Rightarrow> trim_left ps (drop (length p) s))"
  by pat_completeness auto
termination
proof (relation "measure (length \<circ> snd)")
  fix ps s p
  assume "leading ps s = Some p"
  then have "p \<noteq> []" "has_prefix p s" by (auto simp: leading_def find_Some_iff)
  then have "0 < length p" "s \<noteq> []" by (auto simp: has_prefix_def)
  then show "((ps, drop (length p) s), ps, s) \<in> measure (length \<circ> snd)" by (cases s) auto
qed simp

declare trim_left.simps [simp del]

text \<open>\<open>strings.TrimSpace\<close>: white space is stripped from the left, and, read backwards, from the right.\<close>

definition trim_space :: "string \<Rightarrow> string" where
  "trim_space s = rev (trim_left (map rev spaces) (rev (trim_left spaces s)))"

definition starts_with_space :: "string \<Rightarrow> bool" where
  "starts_with_space s \<longleftrightarrow> list_ex (\<lambda>p. has_prefix p s) spaces"

definition ends_with_space :: "string \<Rightarrow> bool" where
  "ends_with_space s \<longleftrightarrow> list_ex (\<lambda>p. has_prefix (rev p) (rev s)) spaces"

lemma leading_None: "leading ps s = None \<longleftrightarrow> \<not> list_ex (\<lambda>p. p \<noteq> [] \<and> has_prefix p s) ps"
  by (auto simp: leading_def find_None_iff list_ex_iff)

lemma trim_left_id:
  assumes "\<not> list_ex (\<lambda>p. has_prefix p s) ps"
  shows "trim_left ps s = s"
proof -
  have "leading ps s = None" using assms by (auto simp: leading_None list_ex_iff)
  then show ?thesis by (simp add: trim_left.simps)
qed

lemma trim_space_id: "\<not> starts_with_space s \<Longrightarrow> \<not> ends_with_space s \<Longrightarrow> trim_space s = s"
  by (simp add: trim_space_def trim_left_id starts_with_space_def ends_with_space_def list_ex_iff)

text \<open>A byte of ASCII that is no white space is no part of an encoding of one.\<close>

definition solid :: "char \<Rightarrow> bool" where
  "solid c \<longleftrightarrow> list_all (\<lambda>p. c \<notin> set p) spaces"

lemma not_leading_solid: "solid c \<Longrightarrow> p \<in> set spaces \<Longrightarrow> has_prefix p (x @ c # y) \<Longrightarrow> has_prefix p x"
  by (auto simp: solid_def list_all_iff has_prefix_def take_Cons' split: if_splits)
     (metis append_eq_conv_conj in_set_conv_decomp)

lemma starts_with_space_append:
  assumes "solid c" "\<not> starts_with_space x"
  shows "\<not> starts_with_space (x @ c # y)"
  using assms not_leading_solid by (auto simp: starts_with_space_def list_ex_iff)

lemma ends_with_space_solid:
  assumes "solid c"
  shows "\<not> ends_with_space (x @ [c])"
proof
  assume "ends_with_space (x @ [c])"
  then obtain p where p: "p \<in> set spaces" "take (length p) (c # rev x) = rev p"
    by (auto simp: ends_with_space_def list_ex_iff has_prefix_def)
  have "[] \<notin> set spaces" by (simp add: spaces_def)
  with p(1) have "0 < length p" by fastforce
  with p(2) have "c # take (length p - 1) (rev x) = rev p" by (cases "length p") simp_all
  then have "c \<in> set (rev p)" by (metis list.set_intros(1))
  with assms p(1) show False by (auto simp: solid_def list_all_iff)
qed

section \<open>Unquoting\<close>

text \<open>
  \<open>strconv.Unquote\<close> of a double-quoted literal, between its quotes: the escapes of Go, no bare quote and no
  newline. A rune stands for itself, and a byte that starts none becomes U+FFFD.
\<close>

definition hex_val :: "char \<Rightarrow> nat option" where
  "hex_val c = (let n = of_char c in
     if 48 \<le> n \<and> n \<le> 57 then Some (n - 48)
     else if 97 \<le> n \<and> n \<le> 102 then Some (n - 87)
     else if 65 \<le> n \<and> n \<le> 70 then Some (n - 55) else None)"

text \<open>The value of exactly \<open>k\<close> digits of base \<open>b\<close>, and what follows them.\<close>

fun digits_of :: "nat \<Rightarrow> nat \<Rightarrow> nat \<Rightarrow> string \<Rightarrow> (nat \<times> string) option" where
  "digits_of b 0 acc s = Some (acc, s)"
| "digits_of b (Suc k) acc [] = None"
| "digits_of b (Suc k) acc (c # cs) =
     (case hex_val c of None \<Rightarrow> None
      | Some d \<Rightarrow> if d < b then digits_of b k (acc * b + d) cs else None)"

definition utf8 :: "nat \<Rightarrow> string" where
  "utf8 v = map char_of
     (if v < 128 then [v]
      else if v < 2048 then [192 + v div 64, 128 + v mod 64]
      else if v < 65536 then [224 + v div 4096, 128 + v div 64 mod 64, 128 + v mod 64]
      else [240 + v div 262144, 128 + v div 4096 mod 64, 128 + v div 64 mod 64, 128 + v mod 64])"

definition valid_rune :: "nat \<Rightarrow> bool" where
  "valid_rune v \<longleftrightarrow> v < 55296 \<or> (57343 < v \<and> v \<le> 1114111)"

definition rune_escape :: "(nat \<times> string) option \<Rightarrow> (string \<times> string) option" where
  "rune_escape r = (case r of None \<Rightarrow> None
     | Some (v, rest) \<Rightarrow> if valid_rune v then Some (utf8 v, rest) else None)"

definition byte_escape :: "(nat \<times> string) option \<Rightarrow> (string \<times> string) option" where
  "byte_escape r = (case r of None \<Rightarrow> None
     | Some (v, rest) \<Rightarrow> if v \<le> 255 then Some ([char_of v], rest) else None)"

text \<open>What follows a backslash.\<close>

definition escape :: "string \<Rightarrow> (string \<times> string) option" where
  "escape s = (case s of [] \<Rightarrow> None
     | e # r \<Rightarrow>
         if e = CHR ''a'' then Some ([CHR 0x07], r) else if e = CHR ''b'' then Some ([CHR 0x08], r)
         else if e = CHR ''f'' then Some ([CHR 0x0C], r) else if e = CHR ''n'' then Some ([CHR 0x0A], r)
         else if e = CHR ''r'' then Some ([CHR 0x0D], r) else if e = CHR ''t'' then Some ([CHR 0x09], r)
         else if e = CHR ''v'' then Some ([CHR 0x0B], r)
         else if e = CHR 0x5C \<or> e = CHR 0x22 then Some ([e], r)
         else if e = CHR ''x'' then byte_escape (digits_of 16 2 0 r)
         else if e = CHR ''u'' then rune_escape (digits_of 16 4 0 r)
         else if e = CHR ''U'' then rune_escape (digits_of 16 8 0 r)
         else byte_escape (digits_of 8 3 0 s))"

lemma digits_of_length: "digits_of b k acc s = Some (v, rest) \<Longrightarrow> length rest \<le> length s"
  by (induction b k acc s rule: digits_of.induct) (auto split: option.splits if_splits)

lemma escape_length: "escape s = Some (bs, rest) \<Longrightarrow> length rest \<le> length s"
  by (auto simp: escape_def byte_escape_def rune_escape_def split: list.splits if_splits option.splits
      dest!: digits_of_length)

function unquote_chars :: "string \<Rightarrow> string option" where
  "unquote_chars [] = Some []"
| "unquote_chars (c # cs) =
     (if c = CHR 0x22 \<or> c = CHR 0x0A then None
      else if c \<noteq> CHR 0x5C then
        (case rune_length (c # cs) of 0 \<Rightarrow> map_option ((@) (utf8 65533)) (unquote_chars cs)
         | Suc k \<Rightarrow> map_option ((@) (c # take k cs)) (unquote_chars (drop k cs)))
      else case escape cs of None \<Rightarrow> None
        | Some (bs, rest) \<Rightarrow> map_option ((@) bs) (unquote_chars rest))"
  by pat_completeness auto
termination
  by (relation "measure length") (auto dest: escape_length)

section \<open>Quoting\<close>

text \<open>
  \<open>%q\<close> of a string. A byte that starts no rune is written in hexadecimal; a rune beyond ASCII stands for
  itself (\<open>strconv\<close> escapes those that are not printable, by the tables of Unicode).
\<close>

definition hex_digit :: "nat \<Rightarrow> char" where
  "hex_digit d = char_of (if d < 10 then 48 + d else 87 + d)"

definition quote_char :: "char \<Rightarrow> string" where
  "quote_char c =
     (if c = CHR 0x22 \<or> c = CHR 0x5C then [CHR 0x5C, c]
      else if c = CHR 0x07 then [CHR 0x5C, CHR ''a''] else if c = CHR 0x08 then [CHR 0x5C, CHR ''b'']
      else if c = CHR 0x0C then [CHR 0x5C, CHR ''f''] else if c = CHR 0x0A then [CHR 0x5C, CHR ''n'']
      else if c = CHR 0x0D then [CHR 0x5C, CHR ''r''] else if c = CHR 0x09 then [CHR 0x5C, CHR ''t'']
      else if c = CHR 0x0B then [CHR 0x5C, CHR ''v'']
      else let n = (of_char c :: nat) in
        if n < 32 \<or> 127 \<le> n then [CHR 0x5C, CHR ''x'', hex_digit (n div 16), hex_digit (n mod 16)]
        else [c])"

definition quote_rune :: "string \<Rightarrow> string" where
  "quote_rune p = (case p of [c] \<Rightarrow> quote_char c | _ \<Rightarrow> p)"

definition go_quote :: "string \<Rightarrow> string" where
  "go_quote s = CHR 0x22 # concat (map quote_rune (runes s)) @ [CHR 0x22]"

section \<open>Integers and booleans from text\<close>

definition ErrSyntax :: goerr where "ErrSyntax = Err ''invalid syntax''"
definition ErrRange :: goerr where "ErrRange = Err ''value out of range''"

text \<open>
  \<open>strconv.ParseUint\<close> and \<open>ParseInt\<close> in base 10. The scan gives up as soon as the digits read so far
  exceed the largest unsigned number of that size, whatever follows them.
\<close>

fun scan_digits :: "int \<Rightarrow> int \<Rightarrow> string \<Rightarrow> goerr + int" where
  "scan_digits largest acc [] = Inr acc"
| "scan_digits largest acc (c # cs) =
     (if \<not> is_digit c then Inl ErrSyntax
      else let n = acc * 10 + digit_val c in
        if largest < n then Inl ErrRange else scan_digits largest n cs)"

definition scan_uint :: "int \<Rightarrow> string \<Rightarrow> goerr + int" where
  "scan_uint largest s = (if s = [] then Inl ErrSyntax else scan_digits largest 0 s)"

definition parse_uint :: "nat \<Rightarrow> string \<Rightarrow> goerr + int" where
  "parse_uint bits s = scan_uint (2 ^ bits - 1) s"

definition parse_int :: "nat \<Rightarrow> string \<Rightarrow> goerr + int" where
  "parse_int bits s =
     (let (sign, ds) = split_sign s in
      case scan_uint (2 * 2 ^ (bits - 1) - 1) ds of Inl e \<Rightarrow> Inl e
      | Inr n \<Rightarrow> if - (2 ^ (bits - 1)) \<le> sign * n \<and> sign * n < 2 ^ (bits - 1) then Inr (sign * n)
                else Inl ErrRange)"

definition parse_bool :: "string \<Rightarrow> goerr + bool" where
  "parse_bool s =
     (if s \<in> {''1'', ''t'', ''T'', ''TRUE'', ''true'', ''True''} then Inr True
      else if s \<in> {''0'', ''f'', ''F'', ''FALSE'', ''false'', ''False''} then Inr False
      else Inl ErrSyntax)"

lemma itoa_not_Nil [simp]: "itoa n \<noteq> []"
  by (simp add: itoa_def)

lemma digit_val_nonneg: "is_digit c \<Longrightarrow> 0 \<le> digit_val c"
  by (simp add: is_digit_def digit_val_def del: of_nat_of_char flip: of_nat_of_char [of c, where 'a = int])

lemma digits_value_ge: "digits_value acc s = Some n \<Longrightarrow> 0 \<le> acc \<Longrightarrow> acc \<le> n"
proof (induction acc s arbitrary: n rule: digits_value.induct)
  case (2 acc c cs)
  then have "0 \<le> digit_val c" "acc * 10 + digit_val c \<le> n"
    by (auto simp: digit_val_nonneg split: if_splits)
  with 2 show ?case by linarith
qed simp

lemma scan_digits_value:
  "digits_value acc s = Some n \<Longrightarrow> 0 \<le> acc \<Longrightarrow> acc \<le> largest \<Longrightarrow>
     scan_digits largest acc s = (if n \<le> largest then Inr n else Inl ErrRange)"
proof (induction largest acc s rule: scan_digits.induct)
  case (2 largest acc c cs)
  let ?n = "acc * 10 + digit_val c"
  from 2 have c: "is_digit c" "digits_value ?n cs = Some n" by (auto split: if_splits)
  then have "0 \<le> ?n" "?n \<le> n" using 2 digit_val_nonneg [OF c(1)] digits_value_ge [OF c(2)] by simp_all
  with 2 c show ?case by (auto simp: Let_def)
qed simp

lemma scan_digits_range: "scan_digits largest acc s = Inr n \<Longrightarrow> 0 \<le> acc \<Longrightarrow> acc \<le> largest \<Longrightarrow> 0 \<le> n \<and> n \<le> largest"
  by (induction largest acc s rule: scan_digits.induct) (auto simp: Let_def digit_val_nonneg split: if_splits)

lemma parse_uint_range: "parse_uint bits s = Inr n \<Longrightarrow> 0 \<le> n \<and> n < 2 ^ bits"
  using scan_digits_range [of "2 ^ bits - 1" 0 s n] by (auto simp: parse_uint_def scan_uint_def split: if_splits)

lemma parse_int_range: "parse_int bits s = Inr n \<Longrightarrow> - (2 ^ (bits - 1)) \<le> n \<and> n < 2 ^ (bits - 1)"
  by (auto simp: parse_int_def split: prod.splits if_splits sum.splits)

lemma scan_uint_decimal:
  "0 \<le> largest \<Longrightarrow> scan_uint largest (decimal n) = (if int n \<le> largest then Inr (int n) else Inl ErrRange)"
  by (simp add: scan_uint_def scan_digits_value [OF digits_value_decimal])

lemma parse_uint_decimal:
  "parse_uint bits (decimal n) = (if int n < 2 ^ bits then Inr (int n) else Inl ErrRange)"
  by (simp add: parse_uint_def scan_uint_decimal)

lemma parse_int_itoa:
  "parse_int bits (itoa n) = (if - (2 ^ (bits - 1)) \<le> n \<and> n < 2 ^ (bits - 1) then Inr n else Inl ErrRange)"
proof -
  have "(1 :: int) \<le> 2 ^ (bits - 1)" by simp
  moreover from this have "(0 :: int) \<le> 2 * 2 ^ (bits - 1) - 1" by linarith
  ultimately show ?thesis
    by (cases "n < 0") (auto simp: parse_int_def itoa_def scan_uint_decimal simp del: One_nat_def)
qed

lemma comma_not_in_itoa: "CHR '','' \<notin> set (itoa n)"
proof -
  have "CHR '','' \<notin> set (decimal k)" for k
    using all_digits_decimal [of k] by (auto simp: list_all_iff is_digit_def)
  then show ?thesis by (simp add: itoa_def)
qed

end
