(* ===== verification/Retry.thy ===== *)
theory Retry
  imports World Go_Strings
begin

text \<open>
  Package \<open>resilience\<close>, \<open>retry.go\<close> and \<open>retryafter.go\<close>: the retry policy and its loop over a
  transport, the draining of discarded responses, the deadline check and the wait, and the reading of
  \<open>Retry-After\<close>. Of the standard library, \<open>strconv.Atoi\<close> is in \<open>Go_Strings\<close> and \<open>http.ParseTime\<close> is the
  argument \<open>parse_time\<close> (the date grammar of HTTP is not part of this program).
\<close>

section \<open>Policy\<close>

definition maxDrain :: nat where "maxDrain = 65536"
definition maxRetryAfter :: duration where "maxRetryAfter = 30 * second"
definition defaultMaxAttempts :: int where "defaultMaxAttempts = 3"

definition defaultRetryMethods :: "string list" where
  "defaultRetryMethods =
     [MethodGet, MethodHead, MethodPut, MethodDelete, MethodOptions, MethodTrace]"

record policy =
  max_attempts :: int
  pol_backoff :: "backoff option"
  retry_methods :: "string list option"
  retry_if :: "predicate option"

definition defaultRetryIf :: predicate where
  "defaultRetryIf = (\<lambda>(resp, err).
     if err \<noteq> None then Ret True
     else case resp of None \<Rightarrow> Panic nil_dereference
       | Some r \<Rightarrow> Ret (rs_status r = 429 \<or> rs_status r = 502 \<or> rs_status r = 503 \<or> rs_status r = 504))"

definition policy_with_defaults :: "policy \<Rightarrow> policy" where
  "policy_with_defaults p =
     (let p1 = (if max_attempts p \<le> 0 then p\<lparr>max_attempts := defaultMaxAttempts\<rparr> else p);
          p2 = (if pol_backoff p1 = None
                then p1\<lparr>pol_backoff := Some (Jitter (Exponential (100 * millisecond) (2 * second)))\<rparr>
                else p1);
          p3 = (if retry_methods p2 = None
                then p2\<lparr>retry_methods := Some defaultRetryMethods\<rparr> else p2);
          p4 = (if retry_if p3 = None then p3\<lparr>retry_if := Some defaultRetryIf\<rparr> else p3)
      in p4)"

lemma policy_with_defaults_fields [simp]:
  "max_attempts (policy_with_defaults p) =
     (if max_attempts p \<le> 0 then defaultMaxAttempts else max_attempts p)"
  "pol_backoff (policy_with_defaults p) =
     Some (case pol_backoff p of None \<Rightarrow> Jitter (Exponential (100 * millisecond) (2 * second))
       | Some b \<Rightarrow> b)"
  "retry_methods (policy_with_defaults p) =
     Some (case retry_methods p of None \<Rightarrow> defaultRetryMethods | Some ms \<Rightarrow> ms)"
  "retry_if (policy_with_defaults p) =
     Some (case retry_if p of None \<Rightarrow> defaultRetryIf | Some f \<Rightarrow> f)"
  by (simp_all add: policy_with_defaults_def Let_def split: option.split)

section \<open>Eligibility and the request of an attempt\<close>

definition eligible :: "policy \<Rightarrow> request \<Rightarrow> bool" where
  "eligible p req =
     (if rq_body req \<noteq> None \<and> rq_get_body req = None then False
      else let m = (if rq_method req = '''' then MethodGet else rq_method req)
        in (case retry_methods p of None \<Rightarrow> False | Some ms \<Rightarrow> m \<in> set ms))"

definition attemptRequest :: "request \<Rightarrow> int \<Rightarrow> goerr + request" where
  "attemptRequest req attempt =
     (case rq_get_body req of
        None \<Rightarrow> Inr req
      | Some get \<Rightarrow>
          if attempt = 1 then Inr req
          else (case get attempt of Inl e \<Rightarrow> Inl e | Inr b \<Rightarrow> Inr (req\<lparr>rq_body := Some b\<rparr>)))"

section \<open>Draining\<close>

definition drain_body :: "body \<Rightarrow> 'x world_scheme \<Rightarrow> 'x world_scheme" where
  "drain_body b w = body_close b (body_read maxDrain b w)"

definition drain :: "response option \<Rightarrow> 'x world_scheme \<Rightarrow> 'x world_scheme" where
  "drain resp w =
     (case resp of None \<Rightarrow> w
      | Some r \<Rightarrow> (case rs_body r of None \<Rightarrow> w | Some b \<Rightarrow> drain_body b w))"

definition retryable :: "policy \<Rightarrow> rt_result \<Rightarrow> 'x world_scheme \<Rightarrow> 'x world_scheme \<times> bool outcome" where
  "retryable p res w =
     (case retry_if p of
        None \<Rightarrow> (drain (fst res) w, Panic nil_dereference)
      | Some f \<Rightarrow> (case f res of Ret b \<Rightarrow> (w, Ret b) | Panic v \<Rightarrow> (drain (fst res) w, Panic v)))"

section \<open>Retry-After\<close>

definition retryAfter :: "(string \<Rightarrow> time option) \<Rightarrow> response option \<Rightarrow> time \<Rightarrow> duration option" where
  "retryAfter parse_time resp now =
     (case resp of None \<Rightarrow> None
      | Some r \<Rightarrow>
          if \<not> (rs_status r = 429 \<or> rs_status r = 503) then None
          else let v = rs_header r ''Retry-After'' in
            if v = [] then None
            else case atoi v of
                Some secs \<Rightarrow> if secs < 0 then None else Some (word_of_int secs * second)
              | None \<Rightarrow> (case parse_time v of
                    Some t \<Rightarrow> let d = time_sub t now in Some (if sint d < 0 then 0 else d)
                  | None \<Rightarrow> None))"

section \<open>Deadlines and waiting\<close>

definition canWait :: "ctx \<Rightarrow> duration \<Rightarrow> time \<Rightarrow> bool" where
  "canWait c d now =
     (case ctx_deadline c of None \<Rightarrow> True | Some dl \<Rightarrow> sint d < sint (time_sub dl now))"

text \<open>
  The sleep races a timer of \<open>d\<close> against the end of the context. Where both fall on the same instant
  the runtime picks either; the world's \<open>tie\<close> is its choice.
\<close>

definition wait :: "ctx \<Rightarrow> duration \<Rightarrow> 'x world_scheme \<Rightarrow> 'x world_scheme \<times> goerr option" where
  "wait c d w =
     (if sint d \<le> 0 then (w, ctx_err c w)
      else case ctx_err c w of
          Some e \<Rightarrow> (w, Some e)
        | None \<Rightarrow>
            let fires = clock w + sint d in
            (case ctx_done_at c of
               None \<Rightarrow> (w\<lparr>clock := fires\<rparr>, None)
             | Some (t, e) \<Rightarrow>
                 if fires < t \<or> (fires = t \<and> tie w) then (w\<lparr>clock := fires\<rparr>, None)
                 else (w\<lparr>clock := t\<rparr>, Some e)))"

section \<open>The loop\<close>

text \<open>
  The delay of one retry: the policy's backoff, then the server's \<open>Retry-After\<close> when it is usable and
  within the cap.
\<close>

definition retry_delay ::
  "(string \<Rightarrow> time option) \<Rightarrow> policy \<Rightarrow> int \<Rightarrow> rt_result \<Rightarrow> 'x world_scheme \<Rightarrow> 'x world_scheme \<times> duration outcome"
where
  "retry_delay parse_time p attempt res w =
     (case pol_backoff p of
        None \<Rightarrow> (w, Panic nil_dereference)
      | Some b \<Rightarrow>
          (case b attempt (rand w) of
             (Panic v, r) \<Rightarrow> (w\<lparr>rand := r\<rparr>, Panic v)
           | (Ret delay, r) \<Rightarrow>
               (w\<lparr>rand := r\<rparr>,
                Ret (case retryAfter parse_time (fst res) (clock w) of
                       Some d \<Rightarrow> if sint d \<le> sint maxRetryAfter then d else delay
                     | None \<Rightarrow> delay))))"

text \<open>The body of the \<open>for\<close>: it returns (\<open>Inl\<close>) or goes on to the next attempt (\<open>Inr\<close>).\<close>

definition retry_iteration ::
  "(string \<Rightarrow> time option) \<Rightarrow> policy \<Rightarrow> 'x round_tripper \<Rightarrow> request \<Rightarrow> int \<Rightarrow> 'x world_scheme
     \<Rightarrow> ('x world_scheme \<times> rt_result outcome) + 'x world_scheme"
where
  "retry_iteration parse_time p nxt req attempt w =
     (case attemptRequest req attempt of
        Inl e \<Rightarrow> Inl (w, Ret (None, Some e))
      | Inr attemptReq \<Rightarrow>
          (case nxt w attemptReq of
             (w1, Panic v) \<Rightarrow> Inl (w1, Panic v)
           | (w1, Ret res) \<Rightarrow>
               if max_attempts p \<le> attempt then Inl (w1, Ret res)
               else (case retryable p res w1 of
                   (w2, Panic v) \<Rightarrow> Inl (w2, Panic v)
                 | (w2, Ret False) \<Rightarrow> Inl (w2, Ret res)
                 | (w2, Ret True) \<Rightarrow>
                     (case retry_delay parse_time p attempt res w2 of
                        (w3, Panic v) \<Rightarrow> Inl (w3, Panic v)
                      | (w3, Ret delay) \<Rightarrow>
                          if \<not> canWait (rq_ctx req) delay (clock w3) then Inl (w3, Ret res)
                          else (case wait (rq_ctx req) delay (drain (fst res) w3) of
                              (w4, Some e) \<Rightarrow> Inl (w4, Ret (None, Some e))
                            | (w4, None) \<Rightarrow> Inr w4)))))"

text \<open>
  The ways an iteration ends. \<open>w1\<close> is the world after the transport; the backoff may have advanced
  the random source to \<open>r\<close>.
\<close>

lemma retryable_cases:
  obtains b where "retryable p res w = (w, Ret b)"
  | v where "retryable p res w = (drain (fst res) w, Panic v)"
  by (cases "retry_if p"; cases "the (retry_if p) res") (auto simp: retryable_def)

lemma retry_delay_cases:
  obtains r d where "retry_delay pt p attempt res w = (w\<lparr>rand := r\<rparr>, Ret d)"
  | r v where "retry_delay pt p attempt res w = (w\<lparr>rand := r\<rparr>, Panic v)"
      "\<And>b. pol_backoff p = Some b \<Longrightarrow> b attempt (rand w) = (Panic v, r)"
proof (cases "pol_backoff p")
  case None
  then show ?thesis using that(2) [of "rand w" nil_dereference] by (simp add: retry_delay_def)
next
  case (Some b)
  obtain o' r where "b attempt (rand w) = (o', r)" by fastforce
  with Some show ?thesis using that by (cases o') (auto simp: retry_delay_def)
qed

lemma retry_answer_cases:
  assumes "attemptRequest req attempt = Inr areq" "nxt w areq = (w1, Ret res)"
  obtains
    (returned) "retry_iteration pt p nxt req attempt w = Inl (w1, Ret res)"
  | (retry_if_panicked) v where "retry_iteration pt p nxt req attempt w = Inl (drain (fst res) w1, Panic v)"
  | (backoff_panicked) r v where "\<And>b. pol_backoff p = Some b \<Longrightarrow> b attempt (rand w1) = (Panic v, r)"
      "retry_iteration pt p nxt req attempt w = Inl (w1\<lparr>rand := r\<rparr>, Panic v)"
  | (no_time) r where "retry_iteration pt p nxt req attempt w = Inl (w1\<lparr>rand := r\<rparr>, Ret res)"
  | (interrupted) r delay w4 e where "canWait (rq_ctx req) delay (clock w1)"
      "wait (rq_ctx req) delay (drain (fst res) (w1\<lparr>rand := r\<rparr>)) = (w4, Some e)"
      "retry_iteration pt p nxt req attempt w = Inl (w4, Ret (None, Some e))"
  | (again) r delay w4 where "attempt < max_attempts p" "canWait (rq_ctx req) delay (clock w1)"
      "wait (rq_ctx req) delay (drain (fst res) (w1\<lparr>rand := r\<rparr>)) = (w4, None)"
      "retry_iteration pt p nxt req attempt w = Inr w4"
proof (cases "max_attempts p \<le> attempt \<or> (\<exists>w2. retryable p res w1 = (w2, Ret False))")
  case True
  then show ?thesis
    by (intro returned) (use assms in \<open>auto simp: retry_iteration_def retryable_def split: option.splits outcome.splits\<close>)
next
  case False
  then have more: "\<not> max_attempts p \<le> attempt" by simp
  note unfold = retry_iteration_def assms more
  show ?thesis
  proof (cases rule: retryable_cases [of p res w1])
    case (2 v)
    then show ?thesis by (intro retry_if_panicked) (simp add: unfold)
  next
    case (1 b)
    with False have "b" by (cases b) auto
    note go = unfold 1 this
    show ?thesis
    proof (cases rule: retry_delay_cases [of pt p attempt res w1])
      case (2 r v)
      then show ?thesis by (intro backoff_panicked) (simp_all add: go)
    next
      case (1 r d)
      obtain w4 oe where "wait (rq_ctx req) d (drain (fst res) (w1\<lparr>rand := r\<rparr>)) = (w4, oe)" by fastforce
      moreover have "attempt < max_attempts p" using more by simp
      ultimately show ?thesis
        using no_time [of r] interrupted [of d r w4] again [of d r w4]
        by (cases "canWait (rq_ctx req) d (clock w1)"; cases oe) (simp_all add: go 1)
    qed
  qed
qed

lemma retry_iteration_cases:
  obtains
    (build_error) e where "attemptRequest req attempt = Inl e"
      "retry_iteration pt p nxt req attempt w = Inl (w, Ret (None, Some e))"
  | (panicked) areq w1 v where "attemptRequest req attempt = Inr areq" "nxt w areq = (w1, Panic v)"
      "retry_iteration pt p nxt req attempt w = Inl (w1, Panic v)"
  | (returned) areq w1 res where "attemptRequest req attempt = Inr areq" "nxt w areq = (w1, Ret res)"
      "retry_iteration pt p nxt req attempt w = Inl (w1, Ret res)"
  | (retry_if_panicked) areq w1 res v where "attemptRequest req attempt = Inr areq"
      "nxt w areq = (w1, Ret res)"
      "retry_iteration pt p nxt req attempt w = Inl (drain (fst res) w1, Panic v)"
  | (backoff_panicked) areq w1 res r v where "attemptRequest req attempt = Inr areq"
      "nxt w areq = (w1, Ret res)"
      "\<And>b. pol_backoff p = Some b \<Longrightarrow> b attempt (rand w1) = (Panic v, r)"
      "retry_iteration pt p nxt req attempt w = Inl (w1\<lparr>rand := r\<rparr>, Panic v)"
  | (no_time) areq w1 res r where "attemptRequest req attempt = Inr areq"
      "nxt w areq = (w1, Ret res)"
      "retry_iteration pt p nxt req attempt w = Inl (w1\<lparr>rand := r\<rparr>, Ret res)"
  | (interrupted) areq w1 res r delay w4 e where "attemptRequest req attempt = Inr areq"
      "nxt w areq = (w1, Ret res)" "canWait (rq_ctx req) delay (clock w1)"
      "wait (rq_ctx req) delay (drain (fst res) (w1\<lparr>rand := r\<rparr>)) = (w4, Some e)"
      "retry_iteration pt p nxt req attempt w = Inl (w4, Ret (None, Some e))"
  | (again) areq w1 res r delay w4 where "attempt < max_attempts p"
      "attemptRequest req attempt = Inr areq"
      "nxt w areq = (w1, Ret res)" "canWait (rq_ctx req) delay (clock w1)"
      "wait (rq_ctx req) delay (drain (fst res) (w1\<lparr>rand := r\<rparr>)) = (w4, None)"
      "retry_iteration pt p nxt req attempt w = Inr w4"
proof (cases "attemptRequest req attempt")
  case (Inl e)
  then show ?thesis by (intro build_error) (simp_all add: retry_iteration_def)
next
  case (Inr areq)
  obtain w1 out where nxt: "nxt w areq = (w1, out)" by fastforce
  show ?thesis
  proof (cases out)
    case (Panic v)
    with nxt show ?thesis by (intro panicked [OF Inr]) (simp_all add: retry_iteration_def Inr)
  next
    case (Ret res)
    with nxt have answer: "nxt w areq = (w1, Ret res)" by simp
    from Inr answer show ?thesis
      by (cases rule: retry_answer_cases [where pt = pt and p = p])
         (blast intro: returned [OF Inr answer] retry_if_panicked [OF Inr answer] backoff_panicked [OF Inr answer]
            no_time [OF Inr answer] interrupted [OF Inr answer] again [OF _ Inr answer])+
  qed
qed

function retry_loop ::
  "(string \<Rightarrow> time option) \<Rightarrow> policy \<Rightarrow> 'x round_tripper \<Rightarrow> request \<Rightarrow> int \<Rightarrow> 'x world_scheme
     \<Rightarrow> 'x world_scheme \<times> rt_result outcome"
where
  "retry_loop parse_time p nxt req attempt w =
     (case retry_iteration parse_time p nxt req attempt w of
        Inl result \<Rightarrow> result
      | Inr w' \<Rightarrow> retry_loop parse_time p nxt req (attempt + 1) w')"
  by pat_completeness auto
termination
proof (relation "measure (\<lambda>(pt, p, nxt, req, attempt, w). nat (max_attempts p - attempt))")
  fix pt p req attempt w' and nxt :: "'x round_tripper" and w :: "'x world_scheme"
  assume "retry_iteration pt p nxt req attempt w = Inr w'"
  then show "((pt, p, nxt, req, attempt + 1, w'), (pt, p, nxt, req, attempt, w))
      \<in> measure (\<lambda>(pt, p, nxt, req, attempt, w). nat (max_attempts p - attempt))"
    by (cases rule: retry_iteration_cases [of req attempt pt p nxt w]) auto
qed auto

declare retry_loop.simps [simp del]

text \<open>Induction along the attempts of one call.\<close>

lemma retry_loop_induct [case_names iteration]:
  assumes "\<And>attempt w. (\<And>w'. attempt < max_attempts p \<Longrightarrow>
      retry_iteration pt p nxt req attempt w = Inr w' \<Longrightarrow> P (attempt + 1) w') \<Longrightarrow> P attempt w"
  shows "P attempt w"
proof (induction "nat (max_attempts p - attempt)" arbitrary: attempt w rule: less_induct)
  case less
  show ?case by (rule assms) (rule less, simp)
qed

lemma retry_iteration_Inr:
  "retry_iteration pt p nxt req attempt w = Inr w' \<Longrightarrow> attempt < max_attempts p"
  by (cases rule: retry_iteration_cases [of req attempt pt p nxt w]) auto

lemma retry_loop_Inl:
  "retry_iteration pt p nxt req attempt w = Inl r \<Longrightarrow> retry_loop pt p nxt req attempt w = r"
  by (simp add: retry_loop.simps [of pt p nxt req attempt w])

lemma retry_loop_Inr:
  "retry_iteration pt p nxt req attempt w = Inr w' \<Longrightarrow>
     retry_loop pt p nxt req attempt w = retry_loop pt p nxt req (attempt + 1) w'"
  by (simp add: retry_loop.simps [of pt p nxt req attempt w])

definition retry_do ::
  "(string \<Rightarrow> time option) \<Rightarrow> policy \<Rightarrow> 'x round_tripper \<Rightarrow> 'x round_tripper"
where
  "retry_do parse_time p nxt w req =
     (if \<not> eligible p req then nxt w req else retry_loop parse_time p nxt req 1 w)"

definition Retry :: "(string \<Rightarrow> time option) \<Rightarrow> policy \<Rightarrow> 'x middleware" where
  "Retry parse_time p = retry_do parse_time (policy_with_defaults p)"

end
