(* ===== verification/Retry_Facts.thy ===== *)
theory Retry_Facts
  imports Retry
begin

text \<open>
  What \<open>resilience.Retry\<close> does over any transport that keeps its contract: it keeps the contract
  itself, sends at most \<open>MaxAttempts\<close> requests, each the request of its attempt and each retry before
  the deadline, and owns every response it does not return.
\<close>

section \<open>What drain and wait change\<close>

lemma drain_frame [world_frame, simp]:
  "clock (drain r w) = clock w" "rand (drain r w) = rand w" "tie (drain r w) = tie w"
  "next_token (drain r w) = next_token w" "breakers (drain r w) = breakers w"
  "otel (drain r w) = otel w" "sent (drain r w) = sent w" "answers (drain r w) = answers w"
  by (simp_all add: drain_def drain_body_def split: option.split)

lemma drain_closes: "answer_handle (Ret res) = Some i \<Longrightarrow> closed (bodies (drain (fst res) w) i)"
  by (cases res) (auto simp: drain_def drain_body_def bodies_read bodies_close split: option.splits)

lemma drain_reads: "answer_handle (Ret res) = Some i \<Longrightarrow>
    unread (bodies (drain (fst res) w) i) = unread (bodies w i) - maxDrain"
  by (cases res) (auto simp: drain_def drain_body_def bodies_read bodies_close split: option.splits)

lemma drain_other: "answer_handle (Ret res) \<noteq> Some i \<Longrightarrow> bodies (drain (fst res) w) i = bodies w i"
  by (cases res; cases "fst res") (auto simp: drain_def drain_body_def bodies_read bodies_close split: option.splits)

lemma wait_frame:
  assumes "wait c d w = (w', r)"
  shows "\<exists>t. w' = w\<lparr>clock := t\<rparr> \<and> clock w \<le> t"
proof -
  have "\<And>t e. ctx_err c w = None \<Longrightarrow> ctx_done_at c = Some (t, e) \<Longrightarrow> clock w \<le> t"
    by (auto simp: ctx_err_def split: if_splits)
  with assms show ?thesis
    by (auto simp: wait_def Let_def split: if_splits option.splits prod.splits)
       (rule exI [of _ "clock w"], simp)+
qed

lemma wait_bodies: "wait c d w = (w', out) \<Longrightarrow> bodies w' = bodies w"
  using wait_frame by fastforce

text \<open>A retry that goes ahead does so before the deadline.\<close>

lemma wait_before_deadline:
  assumes "canWait c d (clock w)" "wait c d w = (w', None)" "wf_ctx c" "ctx_deadline c = Some dl"
  shows "clock w' < dl"
proof -
  obtain t e where ends: "ctx_done_at c = Some (t, e)" "t \<le> dl"
    using assms(3,4) by (auto simp: wf_ctx_def split: option.splits)
  have "sint d < dl - clock w"
    using assms(1,4) by (simp add: canWait_def duration_less_time_sub)
  with assms(2) ends show ?thesis
    by (auto simp: wait_def ctx_err_def Let_def split: if_splits)
qed

section \<open>Over any transport\<close>

lemma drain_wait_grows:
  assumes "wait c d (drain r (w\<lparr>rand := x\<rparr>)) = (w', out)"
  shows "grows w w' \<and> sent w' = sent w \<and> answers w' = answers w"
  using wait_frame [OF assms] by (auto simp: grows_def)

lemma drain_wait_logs:
  assumes "wait c d (drain r (w\<lparr>rand := x\<rparr>)) = (w', out)"
  shows "sent w' = sent w" "answers w' = answers w"
  using drain_wait_grows [OF assms] by simp_all

context transport begin

lemma nxt_grows: "nxt w req = (w', out) \<Longrightarrow> grows w w'"
  using grows_nxt [of w req] by simp

lemma retry_iteration_grows:
  "retry_iteration pt p nxt req attempt w = Inl (w', out) \<Longrightarrow> grows w w'"
  "retry_iteration pt p nxt req attempt w = Inr w' \<Longrightarrow> grows w w'"
proof -
  have step: "grows w w4" if "nxt w areq = (w1, res)"
    "wait c d (drain r (w1\<lparr>rand := x\<rparr>)) = (w4, oe)" for areq w1 res c d r x w4 oe
    using grows_trans [OF nxt_grows [OF that(1)]] drain_wait_grows [OF that(2)] by blast
  have same: "grows w (w1\<lparr>rand := x\<rparr>)" "grows w (drain r w1)" "grows w w1"
    if "nxt w areq = (w1, res)" for areq w1 res x r
    using nxt_grows [OF that] by (simp_all add: grows_def)
  show "retry_iteration pt p nxt req attempt w = Inl (w', out) \<Longrightarrow> grows w w'"
    by (cases rule: retry_iteration_cases [of req attempt pt p nxt w])
       (auto dest: same step)
  show "retry_iteration pt p nxt req attempt w = Inr w' \<Longrightarrow> grows w w'"
    by (cases rule: retry_iteration_cases [of req attempt pt p nxt w]) (auto dest: step)
qed

lemma retry_loop_grows: "grows w (fst (retry_loop pt p nxt req attempt w))"
proof (induction attempt w rule: retry_loop_induct [where p = p and pt = pt and nxt = nxt and req = req])
  case (iteration attempt w)
  show ?case
  proof (cases "retry_iteration pt p nxt req attempt w")
    case (Inl r)
    then show ?thesis
      using retry_iteration_grows(1) [of pt p req attempt w "fst r" "snd r"]
      by (simp add: retry_loop_Inl)
  next
    case (Inr w')
    show ?thesis
      using grows_trans [OF retry_iteration_grows(2) [OF Inr]
          iteration [OF retry_iteration_Inr [OF Inr] Inr]] by (simp add: retry_loop_Inr [OF Inr])
  qed
qed

lemma retry_transport: "transport (Retry pt p nxt)"
  by unfold_locales (simp add: Retry_def retry_do_def grows_nxt retry_loop_grows)

end

context single_send begin

lemma nxt_sends: "nxt w req = (w', out) \<Longrightarrow> length (sent w') = Suc (length (sent w))"
  using one_request [of w req] by simp

lemma retry_iteration_sends:
  "retry_iteration pt p nxt req attempt w = Inl (w', out) \<Longrightarrow>
     length (sent w') \<le> Suc (length (sent w))"
  "retry_iteration pt p nxt req attempt w = Inr w' \<Longrightarrow> length (sent w') = Suc (length (sent w))"
proof -
  show "retry_iteration pt p nxt req attempt w = Inl (w', out) \<Longrightarrow>
     length (sent w') \<le> Suc (length (sent w))"
    by (cases rule: retry_iteration_cases [of req attempt pt p nxt w])
       (auto dest!: nxt_sends drain_wait_logs(1))
  show "retry_iteration pt p nxt req attempt w = Inr w' \<Longrightarrow> length (sent w') = Suc (length (sent w))"
    by (cases rule: retry_iteration_cases [of req attempt pt p nxt w])
       (auto dest!: nxt_sends drain_wait_logs(1))
qed

lemma retry_loop_sends:
  "attempt \<le> max_attempts p \<Longrightarrow>
     length (sent (fst (retry_loop pt p nxt req attempt w)))
       \<le> length (sent w) + nat (max_attempts p - attempt + 1)"
proof (induction attempt w rule: retry_loop_induct [where p = p and pt = pt and nxt = nxt and req = req])
  case (iteration attempt w)
  show ?case
  proof (cases "retry_iteration pt p nxt req attempt w")
    case (Inl r)
    then show ?thesis
      using retry_iteration_sends(1) [of pt p req attempt w "fst r" "snd r"] iteration(2)
      by (simp add: retry_loop_Inl)
  next
    case (Inr w')
    then have lt: "attempt < max_attempts p" by (rule retry_iteration_Inr)
    with iteration(1) [OF lt Inr] retry_iteration_sends(2) [OF Inr] show ?thesis
      by (simp add: retry_loop_Inr [OF Inr])
  qed
qed

lemma retry_sends:
  "length (sent (fst (Retry pt p nxt w req)))
     \<le> length (sent w) + nat (max_attempts (policy_with_defaults p))"
proof -
  have "1 \<le> max_attempts (policy_with_defaults p)" "1 \<le> nat (max_attempts (policy_with_defaults p))"
    by (auto simp: defaultMaxAttempts_def)
  then show ?thesis
    using retry_loop_sends [of 1 "policy_with_defaults p" pt req w] one_request [of w req]
    by (simp add: Retry_def retry_do_def del: policy_with_defaults_fields)
qed

end

section \<open>At the network boundary\<close>

definition before_deadline :: "ctx \<Rightarrow> time \<Rightarrow> bool" where
  "before_deadline c t \<longleftrightarrow> (case ctx_deadline c of None \<Rightarrow> True | Some dl \<Rightarrow> t < dl)"

text \<open>
  The log of one call: the \<open>k\<close>-th request is the request of attempt \<open>attempt + k\<close>, and every request
  after the first is sent before the deadline of the caller's context.
\<close>

definition attempts_log :: "request \<Rightarrow> int \<Rightarrow> (time \<times> request) list \<Rightarrow> bool" where
  "attempts_log req attempt log \<longleftrightarrow>
     (\<forall>k < length log. attemptRequest req (attempt + int k) = Inr (snd (log ! k))
        \<and> (0 < k \<longrightarrow> before_deadline (rq_ctx req) (fst (log ! k))))"

lemma attempts_log_Nil [simp]: "attempts_log req attempt []"
  by (simp add: attempts_log_def)

lemma attempts_log_Cons:
  assumes "attemptRequest req attempt = Inr areq" "attempts_log req (attempt + 1) log"
    "log \<noteq> [] \<Longrightarrow> before_deadline (rq_ctx req) (fst (hd log))"
  shows "attempts_log req attempt ((t, areq) # log)"
  unfolding attempts_log_def
proof (intro allI impI)
  fix k assume k: "k < length ((t, areq) # log)"
  show "attemptRequest req (attempt + int k) = Inr (snd (((t, areq) # log) ! k))
      \<and> (0 < k \<longrightarrow> before_deadline (rq_ctx req) (fst (((t, areq) # log) ! k)))"
  proof (cases k)
    case (Suc j)
    have "attempt + int k = attempt + 1 + int j" by (simp add: Suc)
    moreover have "before_deadline (rq_ctx req) (fst (log ! j))"
      using assms(2,3) k Suc by (cases j) (auto simp: attempts_log_def hd_conv_nth)
    ultimately show ?thesis
      using assms(2) k Suc by (simp add: attempts_log_def add.assoc)
  qed (simp add: assms(1))
qed

definition total_backoff :: "policy \<Rightarrow> bool" where
  "total_backoff p \<longleftrightarrow>
     (\<exists>b. pol_backoff p = Some b \<and> (\<forall>attempt r v r'. b attempt r \<noteq> (Panic v, r')))"

text \<open>
  Who owns the responses of a call that started in \<open>w\<close> and ended in \<open>w'\<close> with \<open>out\<close>: of the answers it
  received, the returned one is open and every other body is closed; older bodies are untouched.
\<close>

definition owns :: "'x world_scheme \<Rightarrow> 'x world_scheme \<Rightarrow> rt_result outcome \<Rightarrow> bool" where
  "owns w w' out \<longleftrightarrow>
     (\<exists>new. answers w' = answers w @ new
        \<and> (\<forall>a \<in> set new. \<forall>i. answer_handle a = Some i \<longrightarrow>
             i \<notin> handles w \<and> (closed (bodies w' i) \<longleftrightarrow> answer_handle out \<noteq> Some i))
        \<and> (answer_handle out \<noteq> None \<longrightarrow> out \<in> set new))
     \<and> (\<forall>i \<in> handles w. bodies w' i = bodies w i)"

text \<open>
  The other way a call may end: the policy's backoff panics, and the answer in hand, the last one
  received, is open although nobody gets it.
\<close>

definition owns_or_leaks :: "policy \<Rightarrow> 'x world_scheme \<Rightarrow> 'x world_scheme \<Rightarrow> rt_result outcome \<Rightarrow> bool" where
  "owns_or_leaks p w w' out \<longleftrightarrow> owns w w' out
     \<or> (\<exists>b attempt r r' v. pol_backoff p = Some b \<and> b attempt r = (Panic v, r') \<and> out = Panic v
          \<and> owns w w' (last (answers w')))"

context network begin

lemma observedD:
  assumes "observed nxt w req = (w', out)"
  shows "sent w' = sent w @ [(clock w, req)]" "answers w' = answers w @ [out]"
    "\<And>i. i \<in> handles w \<Longrightarrow> bodies w' i = bodies w i"
    "\<And>i. answer_handle out = Some i \<Longrightarrow> i \<notin> handles w \<and> \<not> closed (bodies w' i)"
  using assms by (rule_tac observed_cases [of w req], simp)+

lemma retry_log:
  assumes "wf_ctx (rq_ctx req)"
  shows "\<exists>log. sent (fst (retry_loop pt p (observed nxt) req attempt w)) = sent w @ log
    \<and> (log \<noteq> [] \<longrightarrow> fst (hd log) = clock w) \<and> attempts_log req attempt log"
proof (induction attempt w rule: retry_loop_induct
    [where p = p and pt = pt and nxt = "observed nxt" and req = req])
  case (iteration attempt w)
  have one: "attempts_log req attempt [(clock w, areq)]"
    if "attemptRequest req attempt = Inr areq" for areq
    using attempts_log_Cons [OF that, of "[]"] by simp
  show ?case
  proof (cases rule: retry_iteration_cases [of req attempt pt p "observed nxt" w])
    case (again areq w1 res r delay w4)
    obtain log where log: "sent (fst (retry_loop pt p (observed nxt) req (attempt + 1) w4)) = sent w4 @ log"
      "log \<noteq> [] \<Longrightarrow> fst (hd log) = clock w4" "attempts_log req (attempt + 1) log"
      using iteration [OF again(1,6)] by blast
    have "before_deadline (rq_ctx req) (clock w4)"
      using wait_before_deadline [OF _ again(5) assms] again(4)
      by (auto simp: before_deadline_def split: option.split)
    with log again show ?thesis
      using attempts_log_Cons [OF again(2) log(3)] drain_wait_logs(1) [OF again(5)]
        observedD(1) [OF again(3)]
      by (auto simp: retry_loop_Inr intro!: exI [of _ "(clock w, areq) # log"])
  next
    case (build_error e)
    then show ?thesis by (simp add: retry_loop_Inl)
  qed (auto simp: retry_loop_Inl observedD(1) drain_wait_logs(1) intro!: one
      exI [of _ "[(clock w, areq)]" for areq])
qed

text \<open>A call that returns or panics with the answer of its only request.\<close>

lemma owns_answer:
  assumes "observed nxt w req = (w1, out)" "answers w' = answers w1" "bodies w' = bodies w1"
  shows "owns w w' out"
  using observedD [OF assms(1)] assms(2,3) by (auto simp: owns_def)

text \<open>A discarded answer: closed by the drain, whatever follows.\<close>

lemma discarded:
  assumes "observed nxt w areq = (w1, Ret res)"
    and "answers w4 = answers w1" "bodies w4 = bodies (drain (fst res) wd)" "bodies wd = bodies w1"
  shows "answers w4 = answers w @ [Ret res]"
    and "\<And>i. i \<in> handles w \<Longrightarrow> bodies w4 i = bodies w i"
    and "\<And>i. answer_handle (Ret res) = Some i \<Longrightarrow> i \<notin> handles w \<and> closed (bodies w4 i)"
proof -
  note obs = observedD [OF assms(1)]
  show "answers w4 = answers w @ [Ret res]" by (simp add: assms(2) obs)
  show "bodies w4 i = bodies w i" if "i \<in> handles w" for i
  proof -
    have "answer_handle (Ret res) \<noteq> Some i" using obs(4) that by blast
    then show ?thesis using obs(3) [OF that] by (simp add: assms(3,4) drain_other)
  qed
  show "i \<notin> handles w \<and> closed (bodies w4 i)" if "answer_handle (Ret res) = Some i" for i
    using that obs(4) by (simp add: assms(3) drain_closes)
qed

lemma owns_discarded:
  assumes "observed nxt w areq = (w1, Ret res)"
    and "answers w4 = answers w1" "bodies w4 = bodies (drain (fst res) wd)" "bodies wd = bodies w1"
    and "owns w4 w' out"
  shows "owns w w' out"
proof -
  note d = discarded [OF assms(1-4)]
  obtain new where new: "answers w' = answers w4 @ new"
    "\<And>a i. a \<in> set new \<Longrightarrow> answer_handle a = Some i \<Longrightarrow>
       i \<notin> handles w4 \<and> (closed (bodies w' i) \<longleftrightarrow> answer_handle out \<noteq> Some i)"
    "answer_handle out \<noteq> None \<Longrightarrow> out \<in> set new"
    "\<And>i. i \<in> handles w4 \<Longrightarrow> bodies w' i = bodies w4 i"
    using assms(5) by (auto simp: owns_def)
  have handles: "i \<in> handles w4 \<longleftrightarrow> i \<in> handles w \<or> answer_handle (Ret res) = Some i" for i
    by (auto simp: handles_iff d(1))
  have first: "closed (bodies w' i) \<and> answer_handle out \<noteq> Some i"
    if "answer_handle (Ret res) = Some i" for i
    using that d(3) new(2-4) handles by (metis option.discI)
  show ?thesis
    unfolding owns_def
    using d new handles first by (auto intro!: exI [of _ "Ret res # new"])
qed

lemma owns_nothing: "answer_handle out = None \<Longrightarrow> owns w w out"
  by (simp add: owns_def)

lemma owns_or_leaks_discarded:
  assumes "observed nxt w areq = (w1, Ret res)"
    and "answers w4 = answers w1" "bodies w4 = bodies (drain (fst res) wd)" "bodies wd = bodies w1"
    and "owns_or_leaks p w4 w' out"
  shows "owns_or_leaks p w w' out"
  using assms(5) owns_discarded [OF assms(1-4)] unfolding owns_or_leaks_def by blast

lemma owns_or_leaks: "owns w w' out \<Longrightarrow> owns_or_leaks p w w' out"
  by (simp add: owns_or_leaks_def)

lemma retry_owns:
  assumes "pol_backoff p = Some b"
  shows "owns_or_leaks p w (fst (retry_loop pt p (observed nxt) req attempt w))
    (snd (retry_loop pt p (observed nxt) req attempt w))"
proof (induction attempt w rule: retry_loop_induct
    [where p = p and pt = pt and nxt = "observed nxt" and req = req])
  case (iteration attempt w)
  show ?case
  proof (cases rule: retry_iteration_cases [of req attempt pt p "observed nxt" w])
    case (build_error e)
    then show ?thesis by (simp add: retry_loop_Inl owns_nothing owns_or_leaks)
  next
    case (retry_if_panicked areq w1 res v)
    have "owns w (drain (fst res) w1) (Panic v)"
      by (rule owns_discarded [OF retry_if_panicked(2) _ _ _ owns_nothing, of _ w1]) simp_all
    then show ?thesis by (simp add: retry_loop_Inl retry_if_panicked owns_or_leaks)
  next
    case (backoff_panicked areq w1 res r v)
    have "owns w (w1\<lparr>rand := r\<rparr>) (Ret res)" by (rule owns_answer [OF backoff_panicked(2)]) simp_all
    moreover have "last (answers w1) = Ret res" using observedD(2) [OF backoff_panicked(2)] by simp
    ultimately show ?thesis
      using assms backoff_panicked(3) [OF assms]
      by (auto simp: retry_loop_Inl backoff_panicked(4) owns_or_leaks_def)
  next
    case (interrupted areq w1 res r delay w4 e)
    then show ?thesis
      using owns_discarded [OF interrupted(2) _ wait_bodies [OF interrupted(4)] _ owns_nothing]
        drain_wait_logs(2) [OF interrupted(4)] by (simp add: retry_loop_Inl owns_or_leaks)
  next
    case (again areq w1 res r delay w4)
    then show ?thesis
      using owns_or_leaks_discarded [OF again(3) _ wait_bodies [OF again(5)] _ iteration [OF again(1,6)]]
        drain_wait_logs(2) [OF again(5)] by (simp add: retry_loop_Inr)
  qed (auto simp: retry_loop_Inl intro: owns_or_leaks [OF owns_answer])
qed

end

end
