(* ===== verification/Upstream.thy ===== *)
theory Upstream
  imports World
begin

text \<open>
  Package \<open>testkit\<close>, \<open>upstream.go\<close>: the scripted stub server, and a client's view of it. \<open>Server\<close> is
  the extension of the world: the script and the number of requests served. The connection between
  \<open>http.Client\<close> and \<open>httptest.Server\<close> is the standard library's; \<open>upstream_transport\<close> states what
  reaches the caller: a finished context never sends, a status the server may not write breaks the
  connection, informational codes are followed by 200, and an empty or forbidden body is \<open>NoBody\<close>.
\<close>

section \<open>Scripts\<close>

record scripted =
  sr_status :: int
  sr_body :: string
  sr_header :: "(string \<times> string list) list"

definition Status :: "int \<Rightarrow> scripted" where
  "Status code = \<lparr>sr_status = code, sr_body = [], sr_header = []\<rparr>"

definition JSON :: "int \<Rightarrow> string \<Rightarrow> scripted" where
  "JSON code b =
     \<lparr>sr_status = code, sr_body = b, sr_header = [(''Content-Type'', [''application/json''])]\<rparr>"

record upstream_world = world +
  up_script :: "scripted list"
  up_n :: nat

text \<open>\<open>Upstream(tb, script...)\<close>, in a world where nothing has happened yet.\<close>

definition start_upstream :: "scripted list \<Rightarrow> upstream_world" where
  "start_upstream script =
     \<lparr>clock = 0, rand = (\<lambda>_. 0), tie = True, next_token = 0, cancelled = [],
      bodies = (\<lambda>_. \<lparr>unread = 0, closed = True\<rparr>),
      breakers = (\<lambda>_. new_breaker \<lparr>failure_threshold = 0, cooldown = 0, trip_if = None\<rparr>),
      otel = [], sent = [], answers = [], up_script = script, up_n = 0\<rparr>"

definition upstream_next :: "upstream_world \<Rightarrow> upstream_world \<times> scripted" where
  "upstream_next w =
     (let i = up_n w;
          w' = w\<lparr>up_n := up_n w + 1\<rparr>
      in if up_script w = [] then (w', Status 200)
         else let j = (if length (up_script w) \<le> i then length (up_script w) - 1 else i)
           in (w', up_script w ! j))"

definition Requests :: "upstream_world \<Rightarrow> nat" where
  "Requests w = up_n w"

text \<open>What the handler writes: the header, the status (0 is 200) and the body.\<close>

record written =
  wr_header :: "(string \<times> string) list"
  wr_status :: int
  wr_body :: string

definition upstream_handler :: "upstream_world \<Rightarrow> upstream_world \<times> written" where
  "upstream_handler w =
     (case upstream_next w of (w', resp) \<Rightarrow>
        (w', \<lparr>wr_header = concat (map (\<lambda>(k, vs). map (Pair k) vs) (sr_header resp)),
              wr_status = (if sr_status resp = 0 then 200 else sr_status resp),
              wr_body = sr_body resp\<rparr>))"

section \<open>As a transport\<close>

definition header_get :: "(string \<times> string) list \<Rightarrow> string \<Rightarrow> string" where
  "header_get h k = (case List.find (\<lambda>(k', v). k' = k) h of None \<Rightarrow> [] | Some (_, v) \<Rightarrow> v)"

definition fresh_handle :: "'x world_scheme \<Rightarrow> nat" where
  "fresh_handle w = Suc (foldr max (somes (map answer_handle (answers w))) 0)"

definition final_status :: "int \<Rightarrow> int" where
  "final_status code = (if 100 \<le> code \<and> code \<le> 199 \<and> code \<noteq> 101 then 200 else code)"

definition upstream_transport :: "unit upstream_world_ext round_tripper" where
  "upstream_transport w req =
     (case ctx_err (rq_ctx req) w of
        Some e \<Rightarrow> (w, Ret (None, Some e))
      | None \<Rightarrow>
          (case upstream_handler w of (w', wr) \<Rightarrow>
             if wr_status wr < 100 \<or> 999 < wr_status wr then (w', Ret (None, Some (Err ''EOF'')))
             else
               let i = fresh_handle w;
                   code = final_status (wr_status wr);
                   empty = wr_body wr = [] \<or> code = 204 \<or> code = 304 \<or> rq_method req = MethodHead;
                   resp = \<lparr>rs_status = code, rs_header = header_get (wr_header wr),
                           rs_body = Some (if empty then NoBody else Raw i)\<rparr>
               in (if empty then w'
                   else w'\<lparr>bodies := (bodies w')(i := \<lparr>unread = length (wr_body wr), closed = False\<rparr>)\<rparr>,
                   Ret (Some resp, None))))"

section \<open>The contract of the network boundary\<close>

lemma upstream_next_frame:
  "world.truncate (fst (upstream_next w)) = world.truncate w"
  "up_n (fst (upstream_next w)) = Suc (up_n w)"
  by (simp_all add: upstream_next_def world.truncate_def Let_def)

lemma upstream_handler_fst: "fst (upstream_handler w) = w\<lparr>up_n := up_n w + 1\<rparr>"
  by (simp add: upstream_handler_def upstream_next_def Let_def split: prod.split)

lemma foldr_max_le: "x \<in> set xs \<Longrightarrow> (x :: nat) \<le> foldr max xs 0"
  by (induction xs) auto

lemma fresh_handle_new: "fresh_handle w \<notin> handles w"
  using foldr_max_le [of "fresh_handle w" "somes (map answer_handle (answers w))"]
  by (auto simp: handles_def fresh_handle_def)

text \<open>Its shape: nothing but bodies and the served count changes, and a body is a fresh one.\<close>

lemma upstream_transport_cases:
  obtains (silent) d res where "upstream_transport w req = (w\<lparr>up_n := d\<rparr>, Ret res)"
      "answer_handle (Ret res) = None"
  | (answered) n res d where "answer_handle (Ret res) = Some (fresh_handle w)"
      "upstream_transport w req =
         (w\<lparr>up_n := d, bodies := (bodies w)(fresh_handle w := \<lparr>unread = n, closed = False\<rparr>)\<rparr>, Ret res)"
proof (cases "ctx_err (rq_ctx req) w")
  case (Some e)
  then show ?thesis by (intro silent [of "up_n w" "(None, Some e)"]) (simp_all add: upstream_transport_def)
next
  case None
  obtain wr where wr: "upstream_handler w = (w\<lparr>up_n := Suc (up_n w)\<rparr>, wr)"
    using upstream_handler_fst [of w] by (cases "upstream_handler w") auto
  have fresh: "fresh_handle (w\<lparr>up_n := d\<rparr>) = fresh_handle w" for d
    by (simp add: fresh_handle_def)
  define empty where "empty \<longleftrightarrow> wr_body wr = [] \<or> final_status (wr_status wr) = 204
    \<or> final_status (wr_status wr) = 304 \<or> rq_method req = MethodHead"
  note unfold = upstream_transport_def None wr Let_def fresh
  show ?thesis
  proof (cases "wr_status wr < 100 \<or> 999 < wr_status wr")
    case True
    then show ?thesis by (intro silent [of "Suc (up_n w)" "(None, Some (Err ''EOF''))"]) (auto simp: unfold)
  next
    case False
    let ?r = "\<lambda>b. (Some \<lparr>rs_status = final_status (wr_status wr), rs_header = header_get (wr_header wr),
                 rs_body = Some b\<rparr>, None)"
    show ?thesis
    proof (cases empty)
      case True
      with False show ?thesis
        by (intro silent [of "Suc (up_n w)" "?r NoBody"]) (auto simp: unfold empty_def)
    next
      case nonempty: False
      with False show ?thesis
        by (intro answered [of "?r (Raw (fresh_handle w))" "length (wr_body wr)" "Suc (up_n w)"])
           (auto simp: unfold empty_def)
    qed
  qed
qed

interpretation upstream: network upstream_transport
proof
  fix w :: upstream_world and req i
  show "clock w \<le> clock (fst (upstream_transport w req))"
    and "sent (fst (upstream_transport w req)) = sent w"
    and "answers (fst (upstream_transport w req)) = answers w"
    and "next_token w \<le> next_token (fst (upstream_transport w req))"
    by (cases rule: upstream_transport_cases [of w req]; simp)+
  show "i \<in> handles w \<Longrightarrow> bodies (fst (upstream_transport w req)) i = bodies w i"
    using fresh_handle_new [of w] by (cases rule: upstream_transport_cases [of w req]) auto
  show "answer_handle (snd (upstream_transport w req)) = Some i \<Longrightarrow>
          i \<notin> handles w \<and> \<not> closed (bodies (fst (upstream_transport w req)) i)"
    using fresh_handle_new [of w] by (cases rule: upstream_transport_cases [of w req]) auto
qed

end
