(* ===== verification/Retry_Props.thy ===== *)
theory Retry_Props
  imports Retry_Facts Upstream
begin

text \<open>
  The properties of \<open>resilience.Retry\<close>: what it sends and when, who owns the responses, how long it
  waits, and a whole call against the scripted upstream of \<open>testkit\<close>.
\<close>

section \<open>The default backoff\<close>

lemma jitter_exponential_total:
  assumes "sint mx < max_int64" "0 \<le> sint base" "0 \<le> sint mx"
  shows "\<exists>x r'. Jitter (Exponential base mx) attempt r = (Ret x, r') \<and> 0 \<le> sint x \<and> sint x \<le> sint mx"
proof -
  let ?d = "exponential_loop (nat (attempt - 1)) base mx"
  have le: "sint ?d \<le> sint mx" by (rule exponential_loop_le)
  then have lt: "sint ?d < max_int64" using assms(1) by simp
  show ?thesis
  proof (cases "sint ?d \<le> 0")
    case True
    then show ?thesis using assms(3) by (simp add: Jitter_def Exponential_def)
  next
    case False
    then obtain x r' where x: "rand_N (?d + 1) r = (Ret x, r')"
      using lt by (auto simp: rand_N_def sint_plus_one)
    then have "0 \<le> sint x \<and> sint x \<le> sint ?d"
      using rand_N_range [OF x] lt by (simp add: sint_plus_one)
    with False x le show ?thesis
      by (auto simp: Jitter_def Exponential_def)
  qed
qed

lemma default_backoff_range:
  "\<exists>x r'. Jitter (Exponential (100 * millisecond) (2 * second)) attempt r = (Ret x, r')
     \<and> 0 \<le> sint x \<and> sint x \<le> 2000000000"
  using jitter_exponential_total [of "2 * second" "100 * millisecond" attempt r]
  by (simp add: millisecond_def second_def max_int64_def)

lemma default_total_backoff:
  assumes "pol_backoff p = None"
  shows "total_backoff (policy_with_defaults p)"
proof -
  let ?b = "Jitter (Exponential (100 * millisecond) (2 * second))"
  have "?b attempt r \<noteq> (Panic v, r')" for attempt r v r'
    using default_backoff_range [of attempt r] by auto
  moreover have "pol_backoff (policy_with_defaults p) = Some ?b" by (simp add: assms)
  ultimately show ?thesis unfolding total_backoff_def by blast
qed

section \<open>A script of failures\<close>

text \<open>Against a background context and a request without a body, the loop never stops early.\<close>

lemma ctx_err_background [simp]: "ctx_err background w = None"
  by (simp add: ctx_err_def background_def)

lemma wait_background: "\<exists>t. wait background d w = (w\<lparr>clock := t\<rparr>, None)"
  by (auto simp: wait_def Let_def background_def ctx_err_def intro: exI [of _ "clock w"])

lemma upstream_status:
  assumes "up_script w \<noteq> []" "up_script w ! min (up_n w) (length (up_script w) - 1) = Status code"
    "code = 200 \<or> code = 503"
  shows "upstream_transport w (plain_request m background) =
    (w\<lparr>up_n := Suc (up_n w)\<rparr>, Ret (Some \<lparr>rs_status = code, rs_header = header_get [], rs_body = Some NoBody\<rparr>, None))"
proof -
  have "upstream_next w = (w\<lparr>up_n := Suc (up_n w)\<rparr>, Status code)"
    using assms(1,2)
    by (cases "up_n w < length (up_script w)") (simp_all add: upstream_next_def Let_def min_absorb1 min_absorb2)
  then show ?thesis
    using assms(3)
    by (auto simp: upstream_transport_def upstream_handler_def Status_def Let_def
        plain_request_def final_status_def)
qed

lemma eligible_plain_get:
  "retry_methods p = None \<Longrightarrow> eligible (policy_with_defaults p) (plain_request MethodGet background)"
  by (simp add: eligible_def plain_request_def defaultRetryMethods_def MethodGet_def)

definition failing_script :: "nat \<Rightarrow> scripted list" where
  "failing_script k = replicate k (Status 503) @ [Status 200]"

lemma failing_script_nth:
  "j \<le> k \<Longrightarrow> failing_script k ! min j (length (failing_script k) - 1) = Status (if j < k then 503 else 200)"
  by (auto simp: failing_script_def nth_append)

definition bare_response :: "int \<Rightarrow> response" where
  "bare_response code = \<lparr>rs_status = code, rs_header = header_get [], rs_body = Some NoBody\<rparr>"

lemma retry_upstream_iteration:
  assumes p: "total_backoff p" "retry_if p = Some defaultRetryIf"
    and w: "up_script w = failing_script k" "up_n w = j" "j \<le> k"
  defines "r \<equiv> bare_response (if j < k then 503 else 200)"
  shows "if k \<le> j \<or> max_attempts p \<le> attempt
       then retry_iteration pt p upstream_transport (plain_request m background) attempt w
              = Inl (w\<lparr>up_n := Suc j\<rparr>, Ret (Some r, None))
       else \<exists>w'. retry_iteration pt p upstream_transport (plain_request m background) attempt w
              = Inr w' \<and> up_script w' = failing_script k \<and> up_n w' = Suc j"
proof -
  let ?req = "plain_request m background"
  let ?w = "w\<lparr>up_n := Suc j\<rparr>"
  have send: "upstream_transport w ?req = (?w, Ret (Some r, None))"
    using upstream_status [of w "if j < k then 503 else 200" m] failing_script_nth [OF w(3)] w
    by (simp add: r_def bare_response_def) (simp add: failing_script_def)
  have att: "attemptRequest ?req attempt = Inr ?req"
    by (simp add: attemptRequest_def plain_request_def)
  have ctx: "rq_ctx ?req = background" by (simp add: plain_request_def)
  obtain b where b: "pol_backoff p = Some b" "\<And>a r v r'. b a r \<noteq> (Panic v, r')"
    using p(1) by (auto simp: total_backoff_def)
  obtain d r' where d: "b attempt (rand w) = (Ret d, r')"
    using b(2) by (cases "b attempt (rand w)"; cases "fst (b attempt (rand w))") auto
  have drain: "drain (Some r) u = u" for u :: upstream_world
    by (simp add: drain_def drain_body_def r_def bare_response_def)
  obtain t where t: "wait background d (?w\<lparr>rand := r'\<rparr>) = (?w\<lparr>rand := r', clock := t\<rparr>, None)"
    using wait_background [of d "?w\<lparr>rand := r'\<rparr>"] by auto
  have none: "retryAfter pt (Some r) c = None" for c
    by (simp add: retryAfter_def header_get_def r_def bare_response_def)
  have delay: "retry_delay pt p attempt (Some r, None) ?w = (?w\<lparr>rand := r'\<rparr>, Ret d)"
    using d by (simp add: retry_delay_def b(1) none)
  have can: "canWait background d c" for c by (simp add: canWait_def background_def)
  have retry: "retryable p (Some r, None) ?w = (?w, Ret (j < k))"
    by (simp add: retryable_def p(2) defaultRetryIf_def r_def bare_response_def)
  show ?thesis
    by (cases "j < k") (simp_all add: retry_iteration_def att send retry ctx delay can drain t w(1))
qed

lemma retry_upstream_loop:
  assumes p: "total_backoff p" "retry_if p = Some defaultRetryIf"
  shows "up_script w = failing_script k \<Longrightarrow> up_n w = j \<Longrightarrow> j \<le> k \<Longrightarrow> attempt \<le> max_attempts p \<Longrightarrow>
    \<exists>w'. retry_loop pt p upstream_transport (plain_request m background) attempt w
         = (w', Ret (Some (bare_response
             (if k < j + nat (max_attempts p - attempt + 1) then 200 else 503)), None))
      \<and> Requests w' = min (Suc k) (j + nat (max_attempts p - attempt + 1))"
proof (induction attempt w arbitrary: j rule: retry_loop_induct [where p = p and pt = pt
      and nxt = upstream_transport and req = "plain_request m background"])
  case (iteration attempt w)
  note step = retry_upstream_iteration [OF p iteration(2-4), where attempt = attempt and pt = pt]
  show ?case
  proof (cases "k \<le> j \<or> max_attempts p \<le> attempt")
    case True
    with step iteration(4,5) show ?thesis
      by (auto simp: retry_loop_Inl Requests_def)
  next
    case False
    then obtain w' where w': "retry_iteration pt p upstream_transport
        (plain_request m background) attempt w = Inr w'"
      "up_script w' = failing_script k" "up_n w' = Suc j"
      using step by auto
    have same: "Suc j + nat (max_attempts p - (attempt + 1) + 1) = j + nat (max_attempts p - attempt + 1)"
      using False by linarith
    have "attempt < max_attempts p" "Suc j \<le> k" "attempt + 1 \<le> max_attempts p" using False by auto
    from iteration(1) [OF this(1) w' this(2,3)] show ?thesis
      unfolding same retry_loop_Inr [OF w'(1)] .
  qed
qed

lemma wf_plain_request: "wf_ctx (rq_ctx (plain_request m background))"
  by (simp add: plain_request_def)

section \<open>Properties\<close>

text \<open>A parser of HTTP dates that accepts none, for concrete runs.\<close>

definition no_date :: "string \<Rightarrow> time option" where
  "no_date v = None"

definition zero_policy :: policy where
  "zero_policy = \<lparr>max_attempts = 0, pol_backoff = None, retry_methods = None, retry_if = None\<rparr>"

text \<open>C2: whatever the transport answers, \<open>Retry\<close> sends at most \<open>MaxAttempts\<close> requests; the \<open>k\<close>-th is
  the request of attempt \<open>k\<close> (the original, or the original with the body \<open>GetBody\<close> rebuilt for that
  attempt); the first goes out at once and each later one strictly before the deadline of the caller's
  context. A request that may not be retried goes out exactly once, as it is.\<close>

theorem retry_sends_within_budget_and_deadline:
  assumes "network nxt" and "wf_ctx (rq_ctx req)"
  shows "\<exists>log. sent (fst (Retry pt p (observed nxt) w req)) = sent w @ log
    \<and> length log \<le> nat (max_attempts (policy_with_defaults p))
    \<and> attempts_log req 1 log
    \<and> (log \<noteq> [] \<longrightarrow> fst (hd log) = clock w)
    \<and> (eligible (policy_with_defaults p) req \<or> log = [(clock w, req)])"
proof -
  let ?p = "policy_with_defaults p"
  have bound: "length (sent (fst (Retry pt p (observed nxt) w req))) \<le> length (sent w) + nat (max_attempts ?p)"
    by (rule single_send.retry_sends) (rule network.observed_single_send [OF assms(1)])
  show ?thesis
  proof (cases "eligible ?p req")
    case True
    with bound network.retry_log [OF assms, of pt ?p 1 w] show ?thesis
      by (auto simp: Retry_def retry_do_def simp del: policy_with_defaults_fields)
  next
    case False
    have "1 \<le> nat (max_attempts ?p)" by (auto simp: defaultMaxAttempts_def)
    moreover have "attempts_log req 1 [(clock w, req)]"
      using attempts_log_Cons [of req 1 req "[]" "clock w"]
      by (simp add: attemptRequest_def split: option.split)
    moreover have "sent (fst (Retry pt p (observed nxt) w req)) = sent w @ [(clock w, req)]"
      by (rule network.observed_cases [OF assms(1), of w req]) (simp add: Retry_def retry_do_def False)
    ultimately show ?thesis by (intro exI [of _ "[(clock w, req)]"]) simp
  qed
qed

theorem retry_sends_within_budget_and_deadline_witness:
  "\<exists>log. sent (fst (Retry no_date zero_policy (observed upstream_transport) (start_upstream []) (plain_request MethodGet background)))
      = sent (start_upstream []) @ log
    \<and> length log \<le> nat (max_attempts (policy_with_defaults zero_policy))
    \<and> attempts_log (plain_request MethodGet background) 1 log"
  using retry_sends_within_budget_and_deadline [OF upstream.network_axioms wf_plain_request,
      where pt = no_date and p = zero_policy and w = "start_upstream []"] by blast

text \<open>C1: the loop owns every response it does not return. When the call ends, whichever way it ends (a
  result, an ended context, a panicking \<open>RetryIf\<close>, a \<open>GetBody\<close> error), the body of the response it
  returns is open, that response is one the transport gave during this call, and the body of every
  other response received is closed; bodies of earlier calls are untouched. The one exception is a
  \<open>Backoff\<close> of the caller that panics: then the response in hand stays open and nobody gets it, and
  all the others are closed. The default backoff never panics (\<open>default_total_backoff\<close>), so that under
  it there is no exception.\<close>

theorem retry_owns_every_response:
  assumes "network nxt"
  shows "case Retry pt p (observed nxt) w req of (w', out) \<Rightarrow>
      (owns w w' out
        \<or> (\<exists>b attempt r r' v. pol_backoff p = Some b \<and> b attempt r = (Panic v, r') \<and> out = Panic v
             \<and> owns w w' (last (answers w'))))
    \<and> (total_backoff (policy_with_defaults p) \<longrightarrow> owns w w' out)"
proof -
  let ?p = "policy_with_defaults p"
  obtain w' out where run: "Retry pt p (observed nxt) w req = (w', out)" by fastforce
  have "owns_or_leaks ?p w w' out"
  proof (cases "eligible ?p req")
    case True
    with run network.retry_owns [OF assms, of ?p _ w pt req 1] show ?thesis
      by (simp add: Retry_def retry_do_def)
  next
    case False
    with run network.owns_answer [OF assms, of w req w' out w'] show ?thesis
      by (simp add: Retry_def retry_do_def owns_or_leaks_def)
  qed
  moreover have "pol_backoff p = Some b" if "pol_backoff ?p = Some b" "b attempt r = (Panic v, r')" for b attempt r r' v
    using that default_total_backoff [of p] by (cases "pol_backoff p") (auto simp: total_backoff_def)
  ultimately show ?thesis
    unfolding run owns_or_leaks_def total_backoff_def by fastforce
qed

theorem retry_owns_every_response_witness:
  "case Retry no_date zero_policy (observed upstream_transport) (start_upstream []) (plain_request MethodGet background) of
     (w', out) \<Rightarrow> owns (start_upstream []) w' out"
proof -
  have "total_backoff (policy_with_defaults zero_policy)" by (rule default_total_backoff) (simp add: zero_policy_def)
  then show ?thesis
    using retry_owns_every_response [OF upstream.network_axioms, where pt = no_date and p = zero_policy
        and w = "start_upstream []" and req = "plain_request MethodGet background"] by auto
qed

text \<open>A response is not always owned. \<open>retryable\<close> drains the response before a panicking
  \<open>RetryIf\<close> unwinds past it, but nothing does so for the policy's other caller-supplied function:
  when \<open>Backoff\<close> panics, the body of the response in hand stays open and nobody holds it.\<close>

lemma retry_panicking_backoff_leaks_the_response:
  "\<exists>w' r. Retry pt (zero_policy\<lparr>pol_backoff := Some (\<lambda>_ s. (Panic v, s))\<rparr>) (observed upstream_transport)
       (start_upstream [JSON 503 ''{}'']) (plain_request MethodGet background) = (w', Panic v)
    \<and> answers w' = [Ret (Some r, None)] \<and> rs_body r = Some (Raw 1) \<and> \<not> closed (bodies w' 1)"
proof -
  have eligible: "eligible (policy_with_defaults (zero_policy\<lparr>pol_backoff := b\<rparr>))
      (plain_request MethodGet background)" for b
    by (rule eligible_plain_get) (simp add: zero_policy_def)
  show ?thesis
    by (simp add: Retry_def retry_do_def eligible)
       (simp add: retry_loop.simps [where attempt = 1] retry_iteration_def attemptRequest_def plain_request_def
         observed_def upstream_transport_def upstream_handler_def upstream_next_def start_upstream_def
         JSON_def fresh_handle_def final_status_def MethodGet_def MethodHead_def zero_policy_def
         defaultMaxAttempts_def retryable_def defaultRetryIf_def retry_delay_def Let_def)
qed

text \<open>C21: a whole call against the stub upstream that fails \<open>k\<close> times with 503 and then recovers, for a
  request without a body and without a deadline, under a policy with the default \<open>RetryIf\<close> and a
  \<open>Backoff\<close> that does not panic. The budget is \<open>MaxAttempts\<close> when the method is one the policy retries
  (a missing method counts as GET) and one request otherwise. The caller sees the recovery exactly when
  the budget reaches it, otherwise the last 503, and the upstream serves \<open>k + 1\<close> requests or the
  budget, whichever is less.\<close>

theorem retry_recovers_within_budget:
  assumes "total_backoff (policy_with_defaults p)" and "retry_if p = None"
    and "up_script w = failing_script k" and "up_n w = 0"
    and "budget = (if (if m = [] then MethodGet else m)
            \<in> set (case retry_methods p of None \<Rightarrow> defaultRetryMethods | Some ms \<Rightarrow> ms)
          then nat (max_attempts (policy_with_defaults p)) else 1)"
  shows "\<exists>w' r. Retry pt p upstream_transport w (plain_request m background) = (w', Ret (Some r, None))
    \<and> rs_status r = (if k < budget then 200 else 503) \<and> Requests w' = min (Suc k) budget"
proof -
  let ?p = "policy_with_defaults p"
  let ?methods = "case retry_methods p of None \<Rightarrow> defaultRetryMethods | Some ms \<Rightarrow> ms"
  have eligible: "eligible ?p (plain_request m background) \<longleftrightarrow> (if m = [] then MethodGet else m) \<in> set ?methods"
    by (simp add: eligible_def plain_request_def)
  show ?thesis
  proof (cases "eligible ?p (plain_request m background)")
    case True
    have "retry_if ?p = Some defaultRetryIf" by (simp add: assms(2))
    moreover have "1 \<le> max_attempts ?p" by (auto simp: defaultMaxAttempts_def)
    ultimately have "\<exists>w'. retry_loop pt ?p upstream_transport (plain_request m background) 1 w
           = (w', Ret (Some (bare_response (if k < nat (max_attempts ?p) then 200 else 503)), None))
        \<and> Requests w' = min (Suc k) (nat (max_attempts ?p))"
      using retry_upstream_loop [OF assms(1) _ assms(3,4), where attempt = 1 and m = m and pt = pt] by simp
    with True show ?thesis
      by (auto simp: Retry_def retry_do_def bare_response_def assms(5) eligible simp del: policy_with_defaults_fields)
  next
    case False
    have "upstream_transport w (plain_request m background)
        = (w\<lparr>up_n := 1\<rparr>, Ret (Some (bare_response (if 0 < k then 503 else 200)), None))"
      using upstream_status [of w "if 0 < k then 503 else 200" m] failing_script_nth [of 0 k] assms(3,4)
      by (simp add: bare_response_def) (simp add: failing_script_def)
    with False show ?thesis
      by (auto simp: Retry_def retry_do_def Requests_def bare_response_def assms(5) eligible)
  qed
qed

theorem retry_recovers_within_budget_witness:
  "\<exists>w' r. Retry no_date zero_policy upstream_transport (start_upstream (failing_script 2))
       (plain_request MethodGet background) = (w', Ret (Some r, None))
    \<and> rs_status r = 200 \<and> Requests w' = 3"
  using retry_recovers_within_budget [OF default_total_backoff _ _ _ refl, where p = zero_policy
      and w = "start_upstream (failing_script 2)" and k = 2 and pt = no_date and m = MethodGet]
  by (simp add: zero_policy_def start_upstream_def defaultMaxAttempts_def defaultRetryMethods_def MethodGet_def)

text \<open>C22: the delay before a retry, for any response. It is the policy's backoff unless the response is a
  429 or a 503 with a \<open>Retry-After\<close>, and whenever the header replaces the backoff the delay is at most
  the 30 seconds of \<open>maxRetryAfter\<close>. A whole number of seconds whose nanoseconds fit 64 bits (292 years)
  replaces it exactly when it is at most 30; a negative number never does; anything else is read as a
  date, which replaces it exactly when it is at most 30 seconds ahead (a date in the past as no delay
  at all), and a value that is no date leaves the backoff in place. Larger numbers of seconds wrap
  around and may pass the cap: \<open>retry_after_overflow_defeats_the_cap\<close>.\<close>

theorem retry_after_is_capped:
  assumes "pol_backoff p = Some b" and "b attempt (rand w) = (Ret delay, s)"
    and "v = rs_header r ''Retry-After''"
  shows "\<exists>d. retry_delay parse_time p attempt (Some r, err) w = (w\<lparr>rand := s\<rparr>, Ret d)
    \<and> (d = delay \<or> rs_status r \<in> {429, 503} \<and> v \<noteq> [] \<and> sint d \<le> 30000000000)
    \<and> (\<forall>n. rs_status r \<in> {429, 503} \<and> v = decimal n \<and> int n * 1000000000 \<le> max_int64 \<longrightarrow>
          d = (if n \<le> 30 then word_of_int (int n * 1000000000) else delay))
    \<and> (\<forall>n < 0. atoi v = Some n \<longrightarrow> d = delay)
    \<and> (rs_status r \<in> {429, 503} \<and> v \<noteq> [] \<and> atoi v = None \<longrightarrow>
          d = (case parse_time v of None \<Rightarrow> delay
               | Some t \<Rightarrow> if t - clock w \<le> 30000000000 then word_of_int (max 0 (t - clock w)) else delay))"
proof -
  let ?d = "case retryAfter parse_time (Some r) (clock w) of
      Some d \<Rightarrow> if sint d \<le> sint maxRetryAfter then d else delay | None \<Rightarrow> delay"
  have cap: "sint maxRetryAfter = 30000000000" by (simp add: maxRetryAfter_def second_def)
  have run: "retry_delay parse_time p attempt (Some r, err) w = (w\<lparr>rand := s\<rparr>, Ret ?d)"
    using assms(1,2) by (simp add: retry_delay_def)
  have used: "?d = delay \<or> rs_status r \<in> {429, 503} \<and> v \<noteq> [] \<and> sint ?d \<le> 30000000000"
    by (auto simp: retryAfter_def cap assms(3) Let_def split: option.splits)
  have seconds: "?d = (if n \<le> 30 then word_of_int (int n * 1000000000) else delay)"
    if "rs_status r \<in> {429, 503}" "v = decimal n" "int n * 1000000000 \<le> max_int64" for n
  proof -
    have "sint (word_of_int (int n * 1000000000) :: duration) = int n * 1000000000"
      by (rule sint_word_of_int_in_range) (use that(3) in \<open>simp add: in_int64_def min_int64_def\<close>)
    moreover have "int n \<le> max_int64" using that(3) by (simp add: max_int64_def)
    ultimately show ?thesis
      using that(1,2) by (auto simp: retryAfter_def cap assms(3) [symmetric] atoi_decimal second_def)
  qed
  have negative: "?d = delay" if "n < 0" "atoi v = Some n" for n
    using that by (simp add: retryAfter_def assms(3) [symmetric] Let_def)
  have date: "?d = (case parse_time v of None \<Rightarrow> delay
      | Some t \<Rightarrow> if t - clock w \<le> 30000000000 then word_of_int (max 0 (t - clock w)) else delay)"
    if "rs_status r \<in> {429, 503}" "v \<noteq> []" "atoi v = None"
  proof (cases "parse_time v")
    case (Some t)
    have past: "sint (time_sub t (clock w)) < 0 \<longleftrightarrow> t - clock w < 0"
      by (rule time_sub_less_iff) (simp_all add: min_int64_def max_int64_def)
    have "sint (if sint (time_sub t (clock w)) < 0 then 0 else time_sub t (clock w)) \<le> 30000000000
        \<longleftrightarrow> t - clock w \<le> 30000000000"
      by (auto simp: sint_time_sub max_int64_def min_int64_def)
    moreover have "(if sint (time_sub t (clock w)) < 0 then 0 else time_sub t (clock w)) = word_of_int (max 0 (t - clock w))"
      if "t - clock w \<le> 30000000000"
      unfolding past using that by (auto simp: time_sub_def max_int64_def min_int64_def max_def)
    ultimately show ?thesis
      using that Some by (auto simp: retryAfter_def cap assms(3) [symmetric] Let_def)
  qed (use that in \<open>auto simp: retryAfter_def assms(3) [symmetric] Let_def\<close>)
  show ?thesis
    by (intro exI [of _ ?d] conjI allI impI) (rule run, rule used, rule seconds, blast+, rule negative, blast+, rule date, blast+)
qed

theorem retry_after_is_capped_witness:
  "retry_delay no_date (zero_policy\<lparr>pol_backoff := Some (Constant 5)\<rparr>) 1
     (Some ((bare_response 429)\<lparr>rs_header := (\<lambda>_. decimal 30)\<rparr>), None) (start_upstream []) =
   (start_upstream [], Ret 30000000000)"
proof -
  let ?p = "zero_policy\<lparr>pol_backoff := Some (Constant 5)\<rparr>"
  let ?r = "(bare_response 429)\<lparr>rs_header := (\<lambda>_. decimal 30)\<rparr>"
  have facts: "pol_backoff ?p = Some (Constant 5)"
    "Constant 5 1 (rand (start_upstream [])) = (Ret 5, rand (start_upstream []))"
    "decimal 30 = rs_header ?r ''Retry-After''" by (simp_all add: Constant_def)
  from retry_after_is_capped [OF facts, of no_date None]
  obtain d where d: "retry_delay no_date ?p 1 (Some ?r, None) (start_upstream []) = (start_upstream [], Ret d)"
    "\<forall>n. rs_status ?r \<in> {429, 503} \<and> decimal 30 = decimal n \<and> int n * 1000000000 \<le> max_int64 \<longrightarrow>
          d = (if n \<le> 30 then word_of_int (int n * 1000000000) else 5)"
    by auto
  have "d = 30000000000"
    using d(2) [rule_format, of 30] by (simp add: bare_response_def max_int64_def)
  with d(1) show ?thesis by simp
qed

text \<open>Beyond 64 bits the cap does not hold. \<open>time.Duration(secs) * time.Second\<close> wraps: a server
  that asks for 9223372037 seconds (292 years) yields a negative delay, which passes the cap, and the
  retry is sent at once; one that asks for 18446744074 seconds is retried after 0.29 seconds.\<close>

lemma retry_after_overflow_defeats_the_cap:
  assumes "pol_backoff p = Some b" and "b attempt (rand w) = (Ret delay, s)"
    and "rs_status r = 503"
  shows "(rs_header r ''Retry-After'' = ''9223372037'' \<longrightarrow>
      (\<exists>d. retry_delay parse_time p attempt (Some r, err) w = (w\<lparr>rand := s\<rparr>, Ret d) \<and> sint d < 0
         \<and> wait c d w = (w, ctx_err c w)))
    \<and> (rs_header r ''Retry-After'' = ''18446744074'' \<longrightarrow>
      retry_delay parse_time p attempt (Some r, err) w = (w\<lparr>rand := s\<rparr>, Ret 290448384))"
proof -
  have wrapped: "sint (9223372037 * second :: duration) = - 9223372036709551616"
    "(18446744074 * second :: duration) = 290448384"
    by (simp_all add: second_def)
  have read: "atoi ''9223372037'' = Some 9223372037" "atoi ''18446744074'' = Some 18446744074"
    by code_simp+
  have cap: "sint maxRetryAfter = 30000000000" by (simp add: maxRetryAfter_def second_def)
  show ?thesis
    by (auto simp: retry_delay_def retryAfter_def wait_def assms wrapped read cap)
qed

lemma retry_after_overflow_defeats_the_cap_witness:
  "retry_delay no_date (zero_policy\<lparr>pol_backoff := Some (Constant 5)\<rparr>) 1
     (Some ((bare_response 503)\<lparr>rs_header := (\<lambda>_. ''18446744074'')\<rparr>), None) (start_upstream []) =
   (start_upstream [], Ret 290448384)"
  using retry_after_overflow_defeats_the_cap [where p = "zero_policy\<lparr>pol_backoff := Some (Constant 5)\<rparr>" and
      b = "Constant 5" and delay = 5 and attempt = 1 and w = "start_upstream []"
      and s = "rand (start_upstream [])" and parse_time = no_date and err = None
      and r = "(bare_response 503)\<lparr>rs_header := (\<lambda>_. ''18446744074'')\<rparr>"]
  by (simp add: Constant_def bare_response_def)

end
