(* ===== verification/Resilience.thy ===== *)
theory Resilience
  imports Retry_Facts
begin

text \<open>
  Package \<open>resilience\<close>: the middlewares \<open>Timeout\<close> (\<open>timeout.go\<close>) and \<open>Breaker\<close> (\<open>breaker.go\<close>) over
  a transport. \<open>Breaker\<close> allocates one breaker when it is built; its place in the world's store of
  breakers is the argument \<open>k\<close>.
\<close>

section \<open>Timeout\<close>

definition Timeout :: "duration \<Rightarrow> 'x middleware" where
  "Timeout d nxt w req =
     (let k = next_token w;
          c = with_timeout (rq_ctx req) d (clock w) k
      in case nxt (w\<lparr>next_token := Suc k\<rparr>) (req\<lparr>rq_ctx := c\<rparr>) of
           (w1, Panic v) \<Rightarrow> (w1, Panic v)
         | (w1, Ret (resp, Some err)) \<Rightarrow> (cancel k w1, Ret (None, Some err))
         | (w1, Ret (None, None)) \<Rightarrow> (w1, Panic nil_dereference)
         | (w1, Ret (Some r, None)) \<Rightarrow>
             let b = (case rs_body r of None \<Rightarrow> NoBody | Some b \<Rightarrow> b)
             in (w1, Ret (Some (r\<lparr>rs_body := Some (CancelOnClose b k)\<rparr>), None)))"

section \<open>Breaker\<close>

definition set_breaker :: "nat \<Rightarrow> breaker \<Rightarrow> 'x world_scheme \<Rightarrow> 'x world_scheme" where
  "set_breaker k b w = w\<lparr>breakers := (breakers w)(k := b)\<rparr>"

text \<open>\<open>Breaker(p)\<close> evaluated: the breaker \<open>k\<close> is the zero one with the policy.\<close>

definition install_breaker :: "nat \<Rightarrow> breaker_policy \<Rightarrow> 'x world_scheme \<Rightarrow> 'x world_scheme" where
  "install_breaker k p = set_breaker k (new_breaker p)"

definition release :: "bool \<Rightarrow> nat \<Rightarrow> 'x world_scheme \<Rightarrow> 'x world_scheme" where
  "release probe k w = (if probe then set_breaker k (releaseProbe (breakers w k)) w else w)"

text \<open>
  The middleware's round trip. The deferred \<open>releaseProbe\<close> runs on every way out once the probe was
  admitted, panics of the transport and of \<open>TripIf\<close> included.
\<close>

definition Breaker :: "nat \<Rightarrow> 'x middleware" where
  "Breaker k nxt w req =
     (case allow (breakers w k) (clock w) of
        (b, Inl e) \<Rightarrow> (set_breaker k b w, Ret (None, Some e))
      | (b, Inr probe) \<Rightarrow>
          (case nxt (set_breaker k b w) req of
             (w1, Panic v) \<Rightarrow> (release probe k w1, Panic v)
           | (w1, Ret res) \<Rightarrow>
               (case trip_if (bk_policy (breakers w1 k)) of
                  None \<Rightarrow> (release probe k w1, Panic nil_dereference)
                | Some f \<Rightarrow>
                    (case f res of
                       Panic v \<Rightarrow> (release probe k w1, Panic v)
                     | Ret tripped \<Rightarrow>
                         (release probe k
                            (set_breaker k (record_result (breakers w1 k) tripped (clock w1)) w1),
                          Ret res)))))"

lemma set_breaker_frame [world_frame, simp]:
  "clock (set_breaker k b w) = clock w" "rand (set_breaker k b w) = rand w"
  "tie (set_breaker k b w) = tie w" "next_token (set_breaker k b w) = next_token w"
  "bodies (set_breaker k b w) = bodies w" "cancelled (set_breaker k b w) = cancelled w"
  "otel (set_breaker k b w) = otel w" "sent (set_breaker k b w) = sent w"
  "answers (set_breaker k b w) = answers w" "breakers (set_breaker k b w) = (breakers w)(k := b)"
  by (simp_all add: set_breaker_def)

lemma release_frame [world_frame, simp]:
  "clock (release probe k w) = clock w" "rand (release probe k w) = rand w"
  "tie (release probe k w) = tie w" "next_token (release probe k w) = next_token w"
  "bodies (release probe k w) = bodies w" "cancelled (release probe k w) = cancelled w"
  "otel (release probe k w) = otel w" "sent (release probe k w) = sent w"
  "answers (release probe k w) = answers w"
  by (simp_all add: release_def)

section \<open>Both keep the contract of a transport\<close>

context transport begin

lemma timeout_grows: "grows w (fst (Timeout d nxt w req))"
proof -
  let ?w = "w\<lparr>next_token := Suc (next_token w)\<rparr>"
  let ?r = "req\<lparr>rq_ctx := with_timeout (rq_ctx req) d (clock w) (next_token w)\<rparr>"
  obtain w1 out where nxt: "nxt ?w ?r = (w1, out)" by fastforce
  with nxt_grows [OF nxt] show ?thesis
    by (auto simp: Timeout_def Let_def grows_def split: outcome.split option.split)
qed

lemma breaker_grows: "grows w (fst (Breaker k nxt w req))"
proof -
  obtain b a where allow: "allow (breakers w k) (clock w) = (b, a)" by fastforce
  obtain w1 out where nxt: "nxt (set_breaker k b w) req = (w1, out)" by fastforce
  have "grows w w1" using nxt_grows [OF nxt] by (simp add: grows_def)
  with allow nxt show ?thesis
    by (auto simp: Breaker_def grows_def split: sum.split outcome.split option.split)
qed

lemma timeout_transport: "transport (Timeout d nxt)"
  by unfold_locales (rule timeout_grows)

lemma breaker_transport: "transport (Breaker k nxt)"
  by unfold_locales (rule breaker_grows)

end

end
