(* ===== verification/Telemetry_Client.thy ===== *)
theory Telemetry_Client
  imports Resilience
begin

text \<open>
  Package \<open>telemetry\<close>, \<open>telemetry.go\<close> and \<open>client.go\<close>: the options and the client middleware. The
  OpenTelemetry API is not part of this program: the tracer (what a new span puts into the context),
  the propagator and the meter are values the definitions take, and every call the code makes to
  the API is logged in the world in order. \<open>http.StatusText\<close> is the argument \<open>status_text\<close>.
\<close>

section \<open>Options\<close>

record propagator =
  prop_inject :: "ctx \<Rightarrow> (string \<Rightarrow> string) \<Rightarrow> string \<Rightarrow> string"
  prop_extract :: "ctx \<Rightarrow> (string \<Rightarrow> string) \<Rightarrow> ctx"

text \<open>A tracer: the context of the \<open>n\<close>-th span started from a context.\<close>

type_synonym tracer = "nat \<Rightarrow> ctx \<Rightarrow> ctx"

datatype histogram = Histogram string | NoopHistogram

type_synonym meter = "string \<Rightarrow> histogram option \<times> goerr option"

record otel_options =
  oo_propagator :: "propagator option"
  oo_tracer :: "tracer option"
  oo_meter :: "meter option"

text \<open>What the OpenTelemetry API provides: the global providers and the W3C composite propagator.\<close>

record otel_globals =
  og_w3c :: propagator
  og_global_propagator :: propagator
  og_tracer :: tracer
  og_meter :: meter

definition propagator_of :: "otel_globals \<Rightarrow> otel_options \<Rightarrow> propagator" where
  "propagator_of g o' = (case oo_propagator o' of Some p \<Rightarrow> p | None \<Rightarrow> og_w3c g)"

definition tracer_of :: "otel_globals \<Rightarrow> otel_options \<Rightarrow> tracer" where
  "tracer_of g o' = (case oo_tracer o' of Some t \<Rightarrow> t | None \<Rightarrow> og_tracer g)"

definition meter_of :: "otel_globals \<Rightarrow> otel_options \<Rightarrow> meter" where
  "meter_of g o' = (case oo_meter o' of Some m \<Rightarrow> m | None \<Rightarrow> og_meter g)"

definition durationHistogram :: "meter \<Rightarrow> string \<Rightarrow> histogram option" where
  "durationHistogram m name =
     (case m name of (h, Some e) \<Rightarrow> Some NoopHistogram | (h, None) \<Rightarrow> h)"

section \<open>The client middleware\<close>

definition emit :: "otel_call list \<Rightarrow> 'x world_scheme \<Rightarrow> 'x world_scheme" where
  "emit cs w = w\<lparr>otel := otel w @ cs\<rparr>"

definition hist_record :: "histogram option \<Rightarrow> duration \<Rightarrow> (string \<times> otel_value) list
    \<Rightarrow> otel_call list outcome" where
  "hist_record h d attrs =
     (case h of None \<Rightarrow> Panic nil_dereference
      | Some NoopHistogram \<Rightarrow> Ret []
      | Some (Histogram name) \<Rightarrow> Ret [HistRecord name d attrs])"

definition method_attr :: "string \<Rightarrow> string \<times> otel_value" where
  "method_attr m = (''http.request.method'', OStr m)"

definition address_attr :: "string \<Rightarrow> string \<times> otel_value" where
  "address_attr a = (''server.address'', OStr a)"

definition status_attr :: "int \<Rightarrow> string \<times> otel_value" where
  "status_attr c = (''http.response.status_code'', OInt c)"

definition client_histogram :: string where
  "client_histogram = ''http.client.request.duration''"

text \<open>The part of the round trip after the transport returned a result.\<close>

definition client_report ::
  "(int \<Rightarrow> string) \<Rightarrow> histogram option \<Rightarrow> request \<Rightarrow> time \<Rightarrow> rt_result \<Rightarrow> 'x world_scheme
     \<Rightarrow> 'x world_scheme \<times> rt_result outcome"
where
  "client_report status_text hist req start res w =
     (let base = [method_attr (rq_method req), address_attr (rq_host req)];
          finish = (\<lambda>attrs w'. case hist_record hist (time_sub (clock w) start) attrs of
                      Panic v \<Rightarrow> (emit [SpanEnd] w', Panic v)
                    | Ret cs \<Rightarrow> (emit (cs @ [SpanEnd]) w', Ret res))
      in case snd res of
           Some e \<Rightarrow> finish base (emit [SpanSetStatusError (err_text e)] w)
         | None \<Rightarrow>
             (case fst res of
                None \<Rightarrow> (emit [SpanEnd] w, Panic nil_dereference)
              | Some r \<Rightarrow>
                  finish (base @ [status_attr (rs_status r)])
                    (emit (SpanSetAttributes [status_attr (rs_status r)]
                       # (if 400 \<le> rs_status r then [SpanSetStatusError (status_text (rs_status r))]
                          else [])) w)))"

definition Client :: "(int \<Rightarrow> string) \<Rightarrow> otel_globals \<Rightarrow> otel_options \<Rightarrow> 'x middleware" where
  "Client status_text g o' nxt w req =
     (let w0 = emit [SpanStart (rq_method req) True
                 [method_attr (rq_method req), address_attr (rq_host req)]] w;
          c = tracer_of g o' (length (otel w)) (rq_ctx req);
          req' = req\<lparr>rq_ctx := c, rq_header := prop_inject (propagator_of g o') c (rq_header req)\<rparr>
      in case nxt w0 req' of
           (w1, Panic v) \<Rightarrow> (emit [SpanEnd] w1, Panic v)
         | (w1, Ret res) \<Rightarrow>
             client_report status_text (durationHistogram (meter_of g o') client_histogram)
               req' (clock w0) res w1)"

lemma emit_frame [world_frame, simp]:
  "clock (emit cs w) = clock w" "rand (emit cs w) = rand w" "tie (emit cs w) = tie w"
  "next_token (emit cs w) = next_token w" "bodies (emit cs w) = bodies w"
  "cancelled (emit cs w) = cancelled w" "breakers (emit cs w) = breakers w"
  "sent (emit cs w) = sent w" "answers (emit cs w) = answers w" "otel (emit cs w) = otel w @ cs"
  by (simp_all add: emit_def)

lemma emit_emit [simp]: "emit ds (emit cs w) = emit (cs @ ds) w"
  by (simp add: emit_def)

text \<open>What the report logs and returns.\<close>

fun is_start :: "otel_call \<Rightarrow> bool" where
  "is_start (SpanStart n k a) = True"
| "is_start _ = False"

lemma client_report_shape:
  "\<exists>cs. fst (client_report st h req t res w) = emit (cs @ [SpanEnd]) w
     \<and> \<not> list_ex is_start cs \<and> SpanEnd \<notin> set cs"
  unfolding client_report_def Let_def hist_record_def
  by (auto split: option.split outcome.split histogram.split
      intro: exI [of _ "[]"] exI [of _ "[x]" for x] exI [of _ "[x, y]" for x y]
        exI [of _ "[x, y, z]" for x y z])

text \<open>A call: the span's start, the transport, and a report that ends the span.\<close>

lemma Client_shape:
  obtains attrs req' cs where
    "fst (Client st g o' nxt w req) =
       emit (cs @ [SpanEnd]) (fst (nxt (emit [SpanStart (rq_method req) True attrs] w) req'))"
    "\<not> list_ex is_start cs" "SpanEnd \<notin> set cs"
proof -
  let ?attrs = "[method_attr (rq_method req), address_attr (rq_host req)]"
  let ?w0 = "emit [SpanStart (rq_method req) True ?attrs] w"
  let ?c = "tracer_of g o' (length (otel w)) (rq_ctx req)"
  let ?req = "req\<lparr>rq_ctx := ?c, rq_header := prop_inject (propagator_of g o') ?c (rq_header req)\<rparr>"
  obtain w1 out where nxt: "nxt ?w0 ?req = (w1, out)" by fastforce
  show thesis
  proof (cases out)
    case (Panic v)
    with nxt show thesis by (intro that [of "[]" ?attrs ?req]) (simp_all add: Client_def Let_def)
  next
    case (Ret res)
    obtain cs where "fst (client_report st (durationHistogram (meter_of g o') client_histogram) ?req
        (clock ?w0) res w1) = emit (cs @ [SpanEnd]) w1" "\<not> list_ex is_start cs" "SpanEnd \<notin> set cs"
      using client_report_shape by blast
    with nxt Ret show thesis by (intro that [of cs ?attrs ?req]) (simp_all add: Client_def Let_def)
  qed
qed

section \<open>Values for concrete runs\<close>

definition demo_globals :: otel_globals where
  "demo_globals = \<lparr>og_w3c = \<lparr>prop_inject = (\<lambda>c h. h), prop_extract = (\<lambda>c h. c)\<rparr>,
     og_global_propagator = \<lparr>prop_inject = (\<lambda>c h. h), prop_extract = (\<lambda>c h. c)\<rparr>,
     og_tracer = (\<lambda>n c. c\<lparr>ctx_span := Some n\<rparr>), og_meter = (\<lambda>name. (Some (Histogram name), None))\<rparr>"

definition zero_otel :: otel_options where
  "zero_otel = \<lparr>oo_propagator = None, oo_tracer = None, oo_meter = None\<rparr>"

definition no_text :: "int \<Rightarrow> string" where "no_text c = []"

end
