(* ===== verification/Middleware.thy ===== *)
theory Middleware
  imports Prelude
begin

text \<open>
  The fold that three packages define for their own middleware type: \<open>contract.Chain\<close>,
  \<open>httpserver.Chain\<close> and \<open>httpclient.Chain\<close>. All three run the same loop, from the last index down to
  the first. The interface \<open>middleware_chain\<close> is what the modules that build chains rely on.
\<close>

text \<open>\<open>for i := len(ms) - 1; i >= 0; i--\<close>, with \<open>Suc i\<close> entries left.\<close>

fun chain_from :: "('h \<Rightarrow> 'h) list \<Rightarrow> nat \<Rightarrow> 'h \<Rightarrow> 'h" where
  "chain_from ms 0 nxt = nxt"
| "chain_from ms (Suc i) nxt = chain_from ms i ((ms ! i) nxt)"

text \<open>A typed call: a handler takes the request to a response and an error, or panics.\<close>

type_synonym ('c, 'req, 'res) call_handler = "'c \<Rightarrow> 'req \<Rightarrow> ('res \<times> goerr option) outcome"

definition contract_Chain ::
  "(('c, 'req, 'res) call_handler \<Rightarrow> ('c, 'req, 'res) call_handler) list
     \<Rightarrow> ('c, 'req, 'res) call_handler \<Rightarrow> ('c, 'req, 'res) call_handler"
where
  "contract_Chain ms = (\<lambda>nxt. chain_from ms (length ms) nxt)"

definition httpserver_Chain :: "('h \<Rightarrow> 'h) list \<Rightarrow> 'h \<Rightarrow> 'h" where
  "httpserver_Chain ms = (\<lambda>nxt. chain_from ms (length ms) nxt)"

definition httpclient_Chain :: "('rt \<Rightarrow> 'rt) list \<Rightarrow> 'rt \<Rightarrow> 'rt" where
  "httpclient_Chain ms = (\<lambda>nxt. chain_from ms (length ms) nxt)"

lemma chain_from_append: "i \<le> length ms \<Longrightarrow> chain_from (ms @ ms') i h = chain_from ms i h"
  by (induction ms i h rule: chain_from.induct) (simp_all add: nth_append)

lemma chain_from_Cons: "chain_from (m # ms) (Suc i) h = m (chain_from ms i h)"
  if "i \<le> length ms"
  using that by (induction ms i h rule: chain_from.induct) simp_all

section \<open>The interface\<close>

locale middleware_chain =
  fixes chain :: "('h \<Rightarrow> 'h) list \<Rightarrow> 'h \<Rightarrow> 'h"
  assumes chain_Nil: "chain [] h = h"
    and chain_Cons: "chain (m # ms) h = m (chain ms h)"
begin

lemma chain_append: "chain (ms @ ms') h = chain ms (chain ms' h)"
  by (induction ms) (simp_all add: chain_Nil chain_Cons)

lemma chain_foldr: "chain ms h = foldr (\<lambda>m. m) ms h"
  by (induction ms) (simp_all add: chain_Nil chain_Cons)

text \<open>A chain is one middleware, so chains nest.\<close>

lemma chain_nested: "chain [chain ms, chain ms'] h = chain (ms @ ms') h"
  by (simp add: chain_append chain_Nil chain_Cons)

lemma chain_pair: "chain [a, b] h = a (b h)"
  by (simp add: chain_Nil chain_Cons)

lemma chain_preserves:
  "(\<And>m h. m \<in> set ms \<Longrightarrow> P h \<Longrightarrow> P (m h)) \<Longrightarrow> P h \<Longrightarrow> P (chain ms h)"
  by (induction ms) (auto simp: chain_Nil chain_Cons)

end

interpretation calls: middleware_chain contract_Chain
  by unfold_locales (simp_all add: contract_Chain_def chain_from_Cons del: chain_from.simps(2))

interpretation handlers: middleware_chain httpserver_Chain
  by unfold_locales (simp_all add: httpserver_Chain_def chain_from_Cons del: chain_from.simps(2))

interpretation clients: middleware_chain httpclient_Chain
  by unfold_locales (simp_all add: httpclient_Chain_def chain_from_Cons del: chain_from.simps(2))

section \<open>Properties\<close>

text \<open>The first middleware is outermost. In each of the three packages a chain applied to a
  handler is the middlewares nested in argument order around it, nothing is the identity, and a
  chain of chains is the chain of all their middlewares.\<close>

lemma chain_first_is_outermost:
  "contract_Chain ms h = foldr (\<lambda>m. m) ms h
    \<and> httpserver_Chain ss s = foldr (\<lambda>m. m) ss s
    \<and> httpclient_Chain cs c = foldr (\<lambda>m. m) cs c
    \<and> httpserver_Chain [httpserver_Chain ss, httpserver_Chain ss'] s = httpserver_Chain (ss @ ss') s"
  by (simp add: calls.chain_foldr handlers.chain_foldr clients.chain_foldr handlers.chain_nested)

end
