(* ===== verification/Httpclient.thy ===== *)
theory Httpclient
  imports World Middleware
begin

text \<open>
  Package \<open>httpclient\<close>: the defaults of a client and its construction. The transport of \<open>net/http\<close>
  itself is the argument \<open>make_transport\<close>, a function of the configuration \<open>New\<close> builds for it.
\<close>

section \<open>Options\<close>

record 'x client_options =
  co_dial_timeout :: duration
  co_tls_handshake_timeout :: duration
  co_response_header_timeout :: duration
  co_idle_conn_timeout :: duration
  co_expect_continue_timeout :: duration
  co_max_idle_conns :: int
  co_max_idle_conns_per_host :: int
  co_timeout :: duration
  co_tls_config :: "string option"
  co_middleware :: "'x middleware option"

definition defaultDialTimeout :: duration where "defaultDialTimeout = 5 * second"
definition defaultTLSHandshakeTimeout :: duration where "defaultTLSHandshakeTimeout = 10 * second"
definition defaultIdleConnTimeout :: duration where "defaultIdleConnTimeout = 90 * second"
definition defaultExpectContinueTimeout :: duration where "defaultExpectContinueTimeout = 1 * second"
definition defaultKeepAlive :: duration where "defaultKeepAlive = 30 * second"
definition defaultMaxIdleConns :: int where "defaultMaxIdleConns = 100"
definition defaultResponseHeaderTimeout :: duration where "defaultResponseHeaderTimeout = 10 * second"
definition defaultMaxIdleConnsPerHost :: int where "defaultMaxIdleConnsPerHost = 100"

lemmas client_defaults = defaultDialTimeout_def defaultTLSHandshakeTimeout_def
  defaultIdleConnTimeout_def defaultExpectContinueTimeout_def defaultKeepAlive_def
  defaultMaxIdleConns_def defaultResponseHeaderTimeout_def defaultMaxIdleConnsPerHost_def second_def

definition orDuration :: "duration \<Rightarrow> duration \<Rightarrow> duration" where
  "orDuration v d = (if sint v \<le> 0 then d else v)"

definition orInt :: "int \<Rightarrow> int \<Rightarrow> int" where
  "orInt v d = (if v \<le> 0 then d else v)"

section \<open>Construction\<close>

record dialer =
  dial_timeout :: duration
  keep_alive :: duration

definition newDialer :: "'x client_options \<Rightarrow> dialer" where
  "newDialer opts = \<lparr>dial_timeout = orDuration (co_dial_timeout opts) defaultDialTimeout,
     keep_alive = defaultKeepAlive\<rparr>"

record transport_config =
  tc_dialer :: dialer
  tc_force_http2 :: bool
  tc_proxy_from_environment :: bool
  tc_tls_handshake_timeout :: duration
  tc_response_header_timeout :: duration
  tc_idle_conn_timeout :: duration
  tc_expect_continue_timeout :: duration
  tc_max_idle_conns :: int
  tc_max_idle_conns_per_host :: int
  tc_tls_config :: "string option"

text \<open>
  A value of interface \<open>http.RoundTripper\<close> as \<open>New\<close> creates them: the transport, or the wrapper that
  keeps \<open>CloseIdleConnections\<close> reachable. \<open>WrappedFunc\<close> is what the wrapper replaces, a middleware's
  result used bare; it is here because \<open>http.Client\<close> tells the three apart.
\<close>

datatype 'x rt_value =
    PlainTransport transport_config
  | ForwardingRoundTripper "'x round_tripper" transport_config
  | WrappedFunc "'x round_tripper"

record 'x http_client =
  hc_transport :: "'x rt_value"
  hc_timeout :: duration

definition transport_for :: "'x client_options \<Rightarrow> transport_config" where
  "transport_for opts =
     \<lparr>tc_dialer = newDialer opts, tc_force_http2 = True, tc_proxy_from_environment = True,
      tc_tls_handshake_timeout = orDuration (co_tls_handshake_timeout opts) defaultTLSHandshakeTimeout,
      tc_response_header_timeout =
        orDuration (co_response_header_timeout opts) defaultResponseHeaderTimeout,
      tc_idle_conn_timeout = orDuration (co_idle_conn_timeout opts) defaultIdleConnTimeout,
      tc_expect_continue_timeout =
        orDuration (co_expect_continue_timeout opts) defaultExpectContinueTimeout,
      tc_max_idle_conns = orInt (co_max_idle_conns opts) defaultMaxIdleConns,
      tc_max_idle_conns_per_host = orInt (co_max_idle_conns_per_host opts) defaultMaxIdleConnsPerHost,
      tc_tls_config = co_tls_config opts\<rparr>"

definition httpclient_New ::
  "(transport_config \<Rightarrow> 'x round_tripper) \<Rightarrow> 'x client_options \<Rightarrow> 'x http_client"
where
  "httpclient_New make_transport opts =
     (let tr = transport_for opts;
          rt = (case co_middleware opts of
                  None \<Rightarrow> PlainTransport tr
                | Some m \<Rightarrow> ForwardingRoundTripper (m (make_transport tr)) tr)
      in \<lparr>hc_transport = rt, hc_timeout = co_timeout opts\<rparr>)"

text \<open>\<open>c.Transport.RoundTrip\<close>.\<close>

fun rt_round_trip :: "(transport_config \<Rightarrow> 'x round_tripper) \<Rightarrow> 'x rt_value \<Rightarrow> 'x round_tripper" where
  "rt_round_trip make_transport (PlainTransport tr) = make_transport tr"
| "rt_round_trip make_transport (ForwardingRoundTripper f tr) = f"
| "rt_round_trip make_transport (WrappedFunc f) = f"

text \<open>
  \<open>http.Client.CloseIdleConnections\<close> asserts the method on the transport and does nothing when it is
  missing: the configuration of the pool it closes, if it reaches one.
\<close>

fun closeIdleConnections :: "'x rt_value \<Rightarrow> transport_config option" where
  "closeIdleConnections (PlainTransport tr) = Some tr"
| "closeIdleConnections (ForwardingRoundTripper f tr) = Some tr"
| "closeIdleConnections (WrappedFunc f) = None"

lemma orDuration_positive: "0 < sint d \<Longrightarrow> 0 < sint (orDuration v d)"
  by (auto simp: orDuration_def)

lemma orInt_positive: "0 < d \<Longrightarrow> 0 < orInt v d"
  by (auto simp: orInt_def)

section \<open>Properties\<close>

text \<open>Whatever the options, zero or negative, no timeout or pool size of the transport is
  left unbounded: each is the caller's value if that is positive and the documented default
  otherwise; HTTP/2 and the proxy settings of the environment are kept; and the blanket timeout is
  passed through untouched.\<close>

lemma client_is_always_bounded:
  "(let tr = transport_for opts in
      0 < sint (dial_timeout (tc_dialer tr)) \<and> 0 < sint (keep_alive (tc_dialer tr))
    \<and> 0 < sint (tc_tls_handshake_timeout tr) \<and> 0 < sint (tc_response_header_timeout tr)
    \<and> 0 < sint (tc_idle_conn_timeout tr) \<and> 0 < sint (tc_expect_continue_timeout tr)
    \<and> 0 < tc_max_idle_conns tr \<and> 0 < tc_max_idle_conns_per_host tr
    \<and> tc_force_http2 tr \<and> tc_proxy_from_environment tr)
    \<and> dial_timeout (newDialer opts) =
        (if 0 < sint (co_dial_timeout opts) then co_dial_timeout opts else 5000000000)
    \<and> tc_max_idle_conns_per_host (transport_for opts) =
        (if 0 < co_max_idle_conns_per_host opts then co_max_idle_conns_per_host opts else 100)
    \<and> hc_timeout (httpclient_New mk opts) = co_timeout opts"
  by (simp add: transport_for_def newDialer_def Let_def orDuration_positive orInt_positive
      client_defaults httpclient_New_def) (simp add: orDuration_def orInt_def)

text \<open>Setting a middleware never severs shutdown from the pool. The client's round trip is the
  middleware around the transport \<open>New\<close> built, or that transport itself, and
  \<open>CloseIdleConnections\<close> reaches that same transport either way.\<close>

lemma client_close_reaches_the_transport:
  "rt_round_trip mk (hc_transport (httpclient_New mk opts)) =
      (case co_middleware opts of None \<Rightarrow> mk (transport_for opts) | Some m \<Rightarrow> m (mk (transport_for opts)))
    \<and> closeIdleConnections (hc_transport (httpclient_New mk opts)) = Some (transport_for opts)"
  by (simp add: httpclient_New_def Let_def split: option.split)

end
