(* ===== verification/Kit.thy ===== *)
theory Kit
  imports Retry_Props Telemetry_Client Httpclient
begin

text \<open>
  Package \<open>kit\<close>, \<open>client.go\<close>: the client stack. \<open>Breaker(o.Breaker)\<close> allocates the breaker \<open>k\<close>, so
  building the client also installs it in the world.
\<close>

section \<open>Construction\<close>

record 'x kit_options =
  ko_http :: "'x client_options"
  ko_retry :: policy
  ko_telemetry :: otel_options
  ko_breaker :: breaker_policy
  ko_disable_breaker :: bool

definition NewClient ::
  "(string \<Rightarrow> time option) \<Rightarrow> (int \<Rightarrow> string) \<Rightarrow> otel_globals \<Rightarrow> (transport_config \<Rightarrow> 'x round_tripper)
     \<Rightarrow> nat \<Rightarrow> 'x kit_options \<Rightarrow> 'x world_scheme \<Rightarrow> 'x world_scheme \<times> 'x http_client"
where
  "NewClient parse_time status_text g make_transport k o' w =
     (let w1 = (if ko_disable_breaker o' then w else install_breaker k (ko_breaker o') w);
          ms = (if ko_disable_breaker o' then [] else [Breaker k])
             @ [Retry parse_time (ko_retry o'), Client status_text g (ko_telemetry o')]
             @ (case co_middleware (ko_http o') of None \<Rightarrow> [] | Some m \<Rightarrow> [m]);
          opts = (ko_http o')\<lparr>co_middleware := Some (httpclient_Chain ms)\<rparr>
      in (w1, httpclient_New make_transport opts))"

section \<open>Relations kept by a call\<close>

text \<open>
  A relation between the worlds before and after a call that the transport keeps, and that reading,
  closing, drawing and sleeping keep, is kept by the whole retry loop over that transport.
\<close>

locale call_relation =
  fixes R :: "'x world_scheme \<Rightarrow> 'x world_scheme \<Rightarrow> bool" and nxt :: "'x round_tripper"
  assumes R_refl: "R w w"
    and R_trans: "R u v \<Longrightarrow> R v w \<Longrightarrow> R u w"
    and R_next: "R w (fst (nxt w req))"
    and R_drain: "R w (drain r w)"
    and R_rand: "R w (w\<lparr>rand := x\<rparr>)"
    and R_clock: "R w (w\<lparr>clock := t\<rparr>)"
begin

lemma R_wait: "wait c d w = (w', e) \<Longrightarrow> R w w'"
  using wait_frame [of c d w w' e] R_clock by auto

lemma R_answered: "nxt w req = (w', out) \<Longrightarrow> R w w'"
  using R_next [of w req] by simp

lemma R_iteration:
  "retry_iteration pt p nxt req attempt w = Inl (w', out) \<Longrightarrow> R w w'"
  "retry_iteration pt p nxt req attempt w = Inr w' \<Longrightarrow> R w w'"
proof -
  have slept: "R w w4" if "nxt w areq = (w1, res)" "wait c d (drain r (w1\<lparr>rand := x\<rparr>)) = (w4, oe)"
    for areq w1 res c d r x w4 oe
    using R_trans [OF R_trans [OF R_trans [OF R_answered [OF that(1)] R_rand] R_drain] R_wait [OF that(2)]] .
  have drained: "R w (drain r w1)" "R w (w1\<lparr>rand := x\<rparr>)" if "nxt w areq = (w1, res)" for areq w1 res r x
    using R_trans [OF R_answered [OF that]] R_drain R_rand by blast+
  show "retry_iteration pt p nxt req attempt w = Inl (w', out) \<Longrightarrow> R w w'"
    by (cases rule: retry_iteration_cases [of req attempt pt p nxt w])
       (auto simp: R_refl dest: slept drained R_answered)
  show "retry_iteration pt p nxt req attempt w = Inr w' \<Longrightarrow> R w w'"
    by (cases rule: retry_iteration_cases [of req attempt pt p nxt w]) (auto dest: slept)
qed

lemma R_loop: "R w (fst (retry_loop pt p nxt req attempt w))"
proof (induction attempt w rule: retry_loop_induct [where p = p and pt = pt and nxt = nxt and req = req])
  case (iteration attempt w)
  show ?case
  proof (cases "retry_iteration pt p nxt req attempt w")
    case (Inl r)
    then show ?thesis
      using R_iteration(1) [of pt p req attempt w "fst r" "snd r"] by (simp add: retry_loop_Inl)
  next
    case (Inr w')
    show ?thesis
      using R_trans [OF R_iteration(2) [OF Inr] iteration [OF retry_iteration_Inr [OF Inr] Inr]]
      by (simp add: retry_loop_Inr [OF Inr])
  qed
qed

lemma R_retry: "R w (fst (Retry pt p nxt w req))"
  by (simp add: Retry_def retry_do_def R_loop R_next)

end

section \<open>One span per request\<close>

definition starts :: "'x world_scheme \<Rightarrow> nat" where
  "starts w = length (filter is_start (otel w))"

definition ends :: "'x world_scheme \<Rightarrow> nat" where
  "ends w = length (filter ((=) SpanEnd) (otel w))"

text \<open>Every request sent between two worlds has a span of its own, started and ended.\<close>

definition traced :: "'x world_scheme \<Rightarrow> 'x world_scheme \<Rightarrow> bool" where
  "traced w w' \<longleftrightarrow>
     starts w' + length (sent w) = starts w + length (sent w') \<and> ends w' + length (sent w) = ends w + length (sent w')"

definition same_breaker :: "nat \<Rightarrow> 'x world_scheme \<Rightarrow> 'x world_scheme \<Rightarrow> bool" where
  "same_breaker k w w' \<longleftrightarrow> breakers w' k = breakers w k"

text \<open>A transport that sends one request and leaves telemetry to its caller.\<close>

locale silent_send = single_send +
  assumes silent: "otel (fst (nxt w req)) = otel w"
begin

lemma client_traced: "traced w (fst (Client st g o' nxt w req))"
proof (rule Client_shape [of st g o' nxt w req])
  fix attrs req' cs
  let ?w0 = "emit [SpanStart (rq_method req) True attrs] w"
  assume "fst (Client st g o' nxt w req) = emit (cs @ [SpanEnd]) (fst (nxt ?w0 req'))"
    and none: "\<not> list_ex is_start cs" "SpanEnd \<notin> set cs"
  moreover from none have "filter is_start cs = []" "filter ((=) SpanEnd) cs = []"
    by (auto simp: list_ex_iff filter_empty_conv)
  ultimately show ?thesis
    using one_request [of ?w0 req'] silent [of ?w0 req'] by (simp add: traced_def starts_def ends_def)
qed

sublocale client: single_send "Client st g o' nxt" for st g o'
proof
  fix w req
  show "grows w (fst (Client st g o' nxt w req))"
  proof (rule Client_shape [of st g o' nxt w req])
    fix attrs req' cs
    assume "fst (Client st g o' nxt w req)
      = emit (cs @ [SpanEnd]) (fst (nxt (emit [SpanStart (rq_method req) True attrs] w) req'))"
    then show ?thesis using grows_nxt [of "emit [SpanStart (rq_method req) True attrs] w" req']
      by (simp add: grows_def)
  qed
  show "length (sent (fst (Client st g o' nxt w req))) = Suc (length (sent w))"
  proof (rule Client_shape [of st g o' nxt w req])
    fix attrs req' cs
    assume "fst (Client st g o' nxt w req)
      = emit (cs @ [SpanEnd]) (fst (nxt (emit [SpanStart (rq_method req) True attrs] w) req'))"
    then show ?thesis using one_request [of "emit [SpanStart (rq_method req) True attrs] w" req'] by simp
  qed
qed

sublocale traced: call_relation traced "Client st g o' nxt" for st g o'
proof
  show "\<And>u v w. traced u v \<Longrightarrow> traced v w \<Longrightarrow> traced u w"
    unfolding traced_def by linarith
qed (simp_all add: client_traced, simp_all add: traced_def starts_def ends_def)

text \<open>The calls of the stack below the breaker.\<close>

lemma retried_client_sends:
  "length (sent (fst (Retry pt p (Client st g o' nxt) w req)))
     \<le> length (sent w) + nat (max_attempts (policy_with_defaults p))"
  by (rule client.retry_sends)

lemma retried_client_traced: "traced w (fst (Retry pt p (Client st g o' nxt) w req))"
  by (rule traced.R_retry)

end

text \<open>A transport that leaves the breaker \<open>k\<close> alone.\<close>

locale breaker_owner =
  fixes nxt :: "'x round_tripper" and k :: nat
  assumes own: "breakers (fst (nxt w req)) k = breakers w k"
begin

sublocale client: call_relation "same_breaker k" "Client st g o' nxt" for st g o'
proof
  fix w req
  show "same_breaker k w (fst (Client st g o' nxt w req))"
    by (rule Client_shape [of st g o' nxt w req]) (simp add: same_breaker_def own)
qed (simp_all add: same_breaker_def)

lemma retried_client_breaker:
  "breakers (fst (Retry pt p (Client st g o' nxt) w req)) k = breakers w k"
  by (rule client.R_retry [unfolded same_breaker_def])

end

lemma upstream_otel: "otel (fst (upstream_transport w req)) = otel w"
  by (cases rule: upstream_transport_cases [of w req]) simp_all

lemma upstream_breakers: "breakers (fst (upstream_transport w req)) k = breakers w k"
  by (cases rule: upstream_transport_cases [of w req]) simp_all

lemma observed_otel:
  "(\<And>u r. otel (fst (nxt u r)) = otel u) \<Longrightarrow> otel (fst (observed nxt w req)) = otel w"
  by (simp add: observed_def case_prod_unfold)

lemma observed_breakers:
  "(\<And>u r. breakers (fst (nxt u r)) k = breakers u k) \<Longrightarrow> breakers (fst (observed nxt w req)) k = breakers w k"
  by (simp add: observed_def case_prod_unfold)

interpretation upstream_silent: silent_send "observed upstream_transport"
  by unfold_locales (rule observed_otel, rule upstream_otel)

interpretation upstream_owner: breaker_owner "observed upstream_transport" k for k
  by unfold_locales (rule observed_breakers, rule upstream_breakers)

section \<open>The breaker around a transport\<close>

definition verdict_of :: "predicate \<Rightarrow> rt_result outcome \<Rightarrow> verdict" where
  "verdict_of f out = (case out of Panic v \<Rightarrow> Panicked
     | Ret res \<Rightarrow> (case f res of Panic v \<Rightarrow> Panicked | Ret tripped \<Rightarrow> if tripped then Tripped else Passed))"

text \<open>What the caller gets: the transport's outcome, unless \<open>TripIf\<close> panicked on it.\<close>

definition judged :: "predicate \<Rightarrow> rt_result outcome \<Rightarrow> rt_result outcome" where
  "judged f out = (case out of Panic v \<Rightarrow> Panic v
     | Ret res \<Rightarrow> (case f res of Panic v \<Rightarrow> Panic v | Ret tripped \<Rightarrow> Ret res))"

lemma breaker_admitted:
  assumes own: "breakers (fst (nxt (set_breaker k b w) req)) k = b"
    and allow: "allow (breakers w k) (clock w) = (b, Inr probe)"
    and f: "trip_if (bk_policy (breakers w k)) = Some f"
    and nxt: "nxt (set_breaker k b w) req = (w1, out)"
  shows "\<exists>w'. Breaker k nxt w req = (w', judged f out)
    \<and> w' = w1\<lparr>breakers := breakers w'\<rparr>
    \<and> breakers w' k = fst (guarded_call (breakers w k) (clock w) (verdict_of f out) (clock w1))"
proof -
  have pol: "trip_if (bk_policy (breakers w1 k)) = Some f" and b: "breakers w1 k = b"
    using own nxt f policy_frame(1) [of "breakers w k" "clock w"] allow by simp_all
  show ?thesis
    using allow nxt pol b
    by (auto simp: Breaker_def guarded_call_def verdict_of_def judged_def release_def set_breaker_def
        Let_def split: outcome.split)
qed

lemma breaker_refused:
  assumes "allow (breakers w k) (clock w) = (b, Inl e)"
  shows "Breaker k nxt w req = (w, Ret (None, Some ErrOpen)) \<and> b = breakers w k
    \<and> guarded_call (breakers w k) (clock w) v t = (breakers w k, False)"
  using assms
  by (cases rule: allow_cases [of "breakers w k" "clock w"])
     (auto simp: Breaker_def set_breaker_def guarded_call_def)

definition circuit_of :: "breaker \<Rightarrow> time \<Rightarrow> verdict \<Rightarrow> time \<Rightarrow> circuit \<times> bool" where
  "circuit_of b = circuit_call (nat (failure_threshold (bk_policy b))) (sint (cooldown (bk_policy b))) (abs_breaker b)"

lemma breaker_middleware_cases:
  assumes own: "\<And>u r. breakers (fst (nxt u r)) k = breakers u k"
    and b: "wf_breaker (breakers w k)" "\<not> bk_probing (breakers w k)"
    and f: "trip_if (bk_policy (breakers w k)) = Some f"
  obtains (refused) "\<And>v t. circuit_of (breakers w k) (clock w) v t = (abs_breaker (breakers w k), False)"
      "Breaker k nxt w req = (w, Ret (None, Some ErrOpen))"
  | (admitted) u w1 out w' where "u = w\<lparr>breakers := breakers u\<rparr>" "nxt u req = (w1, out)"
      "Breaker k nxt w req = (w', judged f out)" "w' = w1\<lparr>breakers := breakers w'\<rparr>"
      "circuit_of (breakers w k) (clock w) (verdict_of f out) (clock w1) = (abs_breaker (breakers w' k), True)"
proof -
  note refines = guarded_call_refines [OF b, folded circuit_of_def]
  have admitted': thesis if allow: "allow (breakers w k) (clock w) = (b', Inr probe)" for b' probe
  proof -
    let ?u = "set_breaker k b' w"
    obtain w1 out where nxt: "nxt ?u req = (w1, out)" by fastforce
    have "breakers (fst (nxt ?u req)) k = b'" by (simp add: own)
    from breaker_admitted [where nxt = nxt and req = req, OF this allow f nxt]
    obtain w' where w': "Breaker k nxt w req = (w', judged f out)" "w' = w1\<lparr>breakers := breakers w'\<rparr>"
      "breakers w' k = fst (guarded_call (breakers w k) (clock w) (verdict_of f out) (clock w1))" by auto
    have "snd (guarded_call (breakers w k) (clock w) (verdict_of f out) (clock w1))"
      by (simp add: guarded_call_def allow Let_def)
    moreover have "?u = w\<lparr>breakers := breakers ?u\<rparr>" by (simp add: set_breaker_def)
    ultimately show thesis using nxt w' by (intro admitted [of ?u w1 out w']) (simp_all add: refines)
  qed
  note refused' = refused
  show thesis
  proof (cases rule: allow_cases [of "breakers w k" "clock w"])
    case refused
    from breaker_refused [OF this(1)] show thesis by (intro refused') (simp_all add: refines)
  qed (auto intro: admitted')
qed

section \<open>Properties\<close>

text \<open>C13: the middleware \<open>Breaker\<close> puts the abstract circuit in front of any transport that leaves the
  breaker alone. A call is admitted exactly when the circuit admits it. A refused call returns
  \<open>ErrOpen\<close> with nothing changed: the transport is not touched. An admitted call is one call of
  the transport, whose result the caller gets, and moves the circuit once, by the verdict of
  \<open>TripIf\<close> on that result at the time it arrived.\<close>

theorem breaker_middleware_follows_the_circuit:
  assumes "\<And>u r. breakers (fst (nxt u r)) k = breakers u k"
    and "wf_breaker (breakers w k)" and "\<not> bk_probing (breakers w k)"
    and "trip_if (bk_policy (breakers w k)) = Some f"
  shows "(\<forall>v t. circuit_of (breakers w k) (clock w) v t = (abs_breaker (breakers w k), False))
        \<and> Breaker k nxt w req = (w, Ret (None, Some ErrOpen))
    \<or> (\<exists>u w1 out w'. u = w\<lparr>breakers := breakers u\<rparr> \<and> nxt u req = (w1, out)
        \<and> Breaker k nxt w req = (w', judged f out) \<and> w' = w1\<lparr>breakers := breakers w'\<rparr>
        \<and> circuit_of (breakers w k) (clock w) (verdict_of f out) (clock w1) = (abs_breaker (breakers w' k), True))"
  by (rule breaker_middleware_cases [where nxt = nxt, OF assms, of req]) blast+

theorem breaker_middleware_follows_the_circuit_witness:
  "\<exists>u w1 out w'. upstream_transport u (plain_request MethodGet background) = (w1, out)
    \<and> Breaker 0 upstream_transport (start_upstream [Status 503]) (plain_request MethodGet background)
        = (w', judged defaultTripIf out)
    \<and> abs_breaker (breakers w' 0)
        = fst (circuit_call 5 30000000000 (CClosed 0) 0 (verdict_of defaultTripIf out) (clock w1))"
proof -
  let ?b = "breakers (start_upstream [Status 503]) 0"
  have b: "?b = new_breaker \<lparr>failure_threshold = 0, cooldown = 0, trip_if = None\<rparr>"
    by (simp add: start_upstream_def)
  have p: "trip_if (bk_policy ?b) = Some defaultTripIf" "failure_threshold (bk_policy ?b) = 5"
    "sint (cooldown (bk_policy ?b)) = 30000000000" "abs_breaker ?b = CClosed 0" "\<not> bk_probing ?b"
    by (simp_all add: b new_breaker_def breaker_with_defaults_def defaultFailureThreshold_def
        sint_defaultCooldown abs_breaker_def)
  have "clock (start_upstream [Status 503]) = 0" by (simp add: start_upstream_def)
  moreover have "wf_breaker ?b" by (simp add: b)
  ultimately have "circuit_call 5 30000000000 (CClosed 0) 0 Passed 0 = (CClosed 0, False)
    \<or> (\<exists>u w1 out w'. upstream_transport u (plain_request MethodGet background) = (w1, out)
        \<and> Breaker 0 upstream_transport (start_upstream [Status 503]) (plain_request MethodGet background)
            = (w', judged defaultTripIf out)
        \<and> circuit_call 5 30000000000 (CClosed 0) 0 (verdict_of defaultTripIf out) (clock w1)
            = (abs_breaker (breakers w' 0), True))"
    using breaker_middleware_follows_the_circuit [where nxt = upstream_transport
        and req = "plain_request MethodGet background", OF upstream_breakers _ p(5,1)]
    unfolding circuit_of_def p by (auto simp del: circuit_call.simps)
  then show ?thesis by (auto simp del: circuit_call.simps) (simp, metis fst_conv)
qed

text \<open>The order of the client stack. \<open>NewClient\<close> puts the breaker, unless disabled, outside the
  retry loop, the loop outside the tracing, and the tracing outside the caller's own middleware and
  the transport; closing idle connections still reaches that transport. Nothing but the breaker it
  installs changes in the world.\<close>

definition own_transport :: "(transport_config \<Rightarrow> 'x round_tripper) \<Rightarrow> 'x client_options \<Rightarrow> 'x round_tripper" where
  "own_transport mk opts =
     (case co_middleware opts of None \<Rightarrow> mk (transport_for opts) | Some m \<Rightarrow> m (mk (transport_for opts)))"

lemma kit_composes_in_the_one_order:
  "case NewClient pt st g mk k o' w of (w', client) \<Rightarrow>
    (let calls = Retry pt (ko_retry o') (Client st g (ko_telemetry o') (own_transport mk (ko_http o')))
     in rt_round_trip mk (hc_transport client) = (if ko_disable_breaker o' then calls else Breaker k calls)
      \<and> closeIdleConnections (hc_transport client) = Some (transport_for (ko_http o'))
      \<and> w' = (if ko_disable_breaker o' then w
              else w\<lparr>breakers := (breakers w)(k := new_breaker (ko_breaker o'))\<rparr>))"
proof -
  have "transport_for (opts\<lparr>co_middleware := m\<rparr>) = transport_for opts" for opts :: "'a client_options" and m
    by (simp add: transport_for_def newDialer_def)
  then show ?thesis
    by (simp add: NewClient_def Let_def httpclient_New_def clients.chain_Cons clients.chain_Nil
        install_breaker_def set_breaker_def own_transport_def split: option.split)
qed

text \<open>The loop over the tracing transport, and the breaker around it.\<close>

lemma retried_calls:
  fixes nxt :: "'x round_tripper"
  defines "calls \<equiv> \<lambda>pt p st g o'. Retry pt p (Client st g o' (observed nxt))"
  assumes "network nxt" and "\<And>u r. otel (fst (nxt u r)) = otel u"
    and "\<And>u r. breakers (fst (nxt u r)) k = breakers u k"
  shows "length (sent (fst (calls pt p st g o' w req))) \<le> length (sent w) + nat (max_attempts (policy_with_defaults p))"
    and "traced w (fst (calls pt p st g o' w req))"
    and "breakers (fst (calls pt p st g o' w req)) k = breakers w k"
proof -
  have silent: "silent_send (observed nxt)"
    unfolding silent_send_def silent_send_axioms_def
    using network.observed_single_send [OF assms(2)] by (simp add: observed_otel assms(3))
  have owner: "breaker_owner (observed nxt) k" by unfold_locales (rule observed_breakers, rule assms(4))
  show "length (sent (fst (calls pt p st g o' w req))) \<le> length (sent w) + nat (max_attempts (policy_with_defaults p))"
    "traced w (fst (calls pt p st g o' w req))" "breakers (fst (calls pt p st g o' w req)) k = breakers w k"
    unfolding calls_def
    by (rule silent_send.retried_client_sends [OF silent], rule silent_send.retried_client_traced [OF silent],
        rule breaker_owner.retried_client_breaker [OF owner])
qed

lemma breaker_moves_once:
  assumes "\<And>u r. breakers (fst (n u r)) k = breakers u k"
    and "\<And>u. length (sent (fst (n u req))) \<le> length (sent u) + budget" and "\<And>u. traced u (fst (n u req))"
    and b: "wf_breaker (breakers w k)" "\<not> bk_probing (breakers w k)"
    and run: "Breaker k n w req = (w', out)"
  shows "length (sent w') \<le> length (sent w) + budget" and "traced w w'"
    and "\<exists>v t. fst (circuit_of (breakers w k) (clock w) v t) = abs_breaker (breakers w' k)
        \<and> (snd (circuit_of (breakers w k) (clock w) v t) \<or> sent w' = sent w \<and> out = Ret (None, Some ErrOpen))"
proof -
  obtain f where f: "trip_if (bk_policy (breakers w k)) = Some f"
    using b(1) by (auto simp: wf_breaker_def)
  have "length (sent w') \<le> length (sent w) + budget \<and> traced w w'
    \<and> (\<exists>v t. fst (circuit_of (breakers w k) (clock w) v t) = abs_breaker (breakers w' k)
        \<and> (snd (circuit_of (breakers w k) (clock w) v t) \<or> sent w' = sent w \<and> out = Ret (None, Some ErrOpen)))"
  proof (rule breaker_middleware_cases [where nxt = n, OF assms(1) b f, of req])
    assume "\<And>v t. circuit_of (breakers w k) (clock w) v t = (abs_breaker (breakers w k), False)"
      "Breaker k n w req = (w, Ret (None, Some ErrOpen))"
    then show ?thesis using run by (simp add: traced_def)
  next
    fix u w1 res w2
    assume u: "u = w\<lparr>breakers := breakers u\<rparr>" and n: "n u req = (w1, res)"
      and br: "Breaker k n w req = (w2, judged f res)" and w2: "w2 = w1\<lparr>breakers := breakers w2\<rparr>"
      and c: "circuit_of (breakers w k) (clock w) (verdict_of f res) (clock w1) = (abs_breaker (breakers w2 k), True)"
    have "sent w2 = sent w1" "otel w2 = otel w1" by (subst w2, simp)+
    moreover have "sent u = sent w" "otel u = otel w" by (subst u, simp)+
    ultimately show ?thesis
      using assms(2) [of u] assms(3) [of u] n br c run
      by (auto simp: traced_def starts_def ends_def intro!: exI [of _ "verdict_of f res"] exI [of _ "clock w1"])
  qed
  then show "length (sent w') \<le> length (sent w) + budget" "traced w w'"
    "\<exists>v t. fst (circuit_of (breakers w k) (clock w) v t) = abs_breaker (breakers w' k)
        \<and> (snd (circuit_of (breakers w k) (clock w) v t) \<or> sent w' = sent w \<and> out = Ret (None, Some ErrOpen))"
    by blast+
qed

text \<open>After a call the breaker is again one that the next call finds at rest.\<close>

lemma breaker_at_rest:
  assumes own: "\<And>u r. breakers (fst (n u r)) k = breakers u k"
    and b: "wf_breaker (breakers w k)" "\<not> bk_probing (breakers w k)"
  shows "wf_breaker (breakers (fst (Breaker k n w req)) k) \<and> \<not> bk_probing (breakers (fst (Breaker k n w req)) k)"
proof -
  obtain f where f: "trip_if (bk_policy (breakers w k)) = Some f"
    using b(1) by (auto simp: wf_breaker_def)
  obtain b' x where allow: "allow (breakers w k) (clock w) = (b', x)" by fastforce
  show ?thesis
  proof (cases x)
    case (Inl e)
    with breaker_refused [where nxt = n, of w k b' e] allow b show ?thesis by simp
  next
    case (Inr probe)
    obtain w1 out where nxt: "n (set_breaker k b' w) req = (w1, out)" by fastforce
    have "breakers (fst (n (set_breaker k b' w) req)) k = b'" by (simp add: own)
    from breaker_admitted [where nxt = n, OF this allow [unfolded Inr] f nxt] guarded_call_idle [OF b]
    show ?thesis by auto
  qed
qed

text \<open>C12: the client \<open>NewClient\<close> builds, over any network behind the caller's own transport and middleware.
  One call of its transport sends at most \<open>MaxAttempts\<close> requests, each with a span of its own, started
  and ended. With the breaker, it sends no request when the circuit is open, and however many attempts
  it makes it moves the circuit at most once; the breaker is at rest before the first call (it is the
  one \<open>NewClient\<close> installed) and, given that, after each call, so this holds of any sequence of calls
  that do not overlap. With \<open>DisableBreaker\<close> no breaker is touched.\<close>

theorem kit_call_is_one_logical_call:
  assumes "NewClient pt st g mk k o' w0 = (w1, client)" and "own_transport mk (ko_http o') = observed nxt"
    and "network nxt" and "\<And>u r. otel (fst (nxt u r)) = otel u"
    and "\<And>u r. breakers (fst (nxt u r)) k = breakers u k"
    and "rest = (\<lambda>w. wf_breaker (breakers w k) \<and> \<not> bk_probing (breakers w k))"
    and "ko_disable_breaker o' \<or> rest w"
    and "rt_round_trip mk (hc_transport client) w req = (w', out)"
  shows "length (sent w') \<le> length (sent w) + nat (max_attempts (policy_with_defaults (ko_retry o')))
    \<and> traced w w'
    \<and> (if ko_disable_breaker o' then w1 = w0 \<and> breakers w' k = breakers w k
       else rest w1 \<and> breakers w1 k = new_breaker (ko_breaker o') \<and> rest w'
         \<and> (\<exists>v t. fst (circuit_of (breakers w k) (clock w) v t) = abs_breaker (breakers w' k)
           \<and> (snd (circuit_of (breakers w k) (clock w) v t)
              \<or> sent w' = sent w \<and> out = Ret (None, Some ErrOpen))))"
proof -
  let ?n = "Retry pt (ko_retry o') (Client st g (ko_telemetry o') (observed nxt))"
  have stack: "rt_round_trip mk (hc_transport client) = (if ko_disable_breaker o' then ?n else Breaker k ?n)"
    "w1 = (if ko_disable_breaker o' then w0 else w0\<lparr>breakers := (breakers w0)(k := new_breaker (ko_breaker o'))\<rparr>)"
    using kit_composes_in_the_one_order [where pt = pt and st = st and g = g and mk = mk and k = k and o' = o' and w = w0] unfolding assms(1,2) by (auto simp: Let_def)
  note calls = retried_calls [OF assms(3-5)]
  show ?thesis
  proof (cases "ko_disable_breaker o'")
    case True
    with assms(8) have "?n w req = (w', out)" by (simp add: stack)
    with True stack(2) show ?thesis using calls [where pt = pt and p = "ko_retry o'" and st = st and g = g
        and o' = "ko_telemetry o'" and w = w and req = req] by simp
  next
    case False
    with assms(6-8) have run: "Breaker k ?n w req = (w', out)"
      and b: "wf_breaker (breakers w k)" "\<not> bk_probing (breakers w k)" by (simp_all add: stack)
    have "rest w1" "breakers w1 k = new_breaker (ko_breaker o')"
      using False stack(2) by (simp_all add: assms(6)) (simp add: new_breaker_def)
    moreover have "rest w'" using breaker_at_rest [where n = ?n, OF calls(3) b, of req] run by (simp add: assms(6))
    ultimately show ?thesis
      using False breaker_moves_once [where n = ?n, OF calls(3,1,2) b run] by simp
  qed
qed

definition stub_options :: "unit upstream_world_ext kit_options" where
  "stub_options = \<lparr>ko_http = \<lparr>co_dial_timeout = 0, co_tls_handshake_timeout = 0, co_response_header_timeout = 0,
       co_idle_conn_timeout = 0, co_expect_continue_timeout = 0, co_max_idle_conns = 0, co_max_idle_conns_per_host = 0,
       co_timeout = 0, co_tls_config = None, co_middleware = None\<rparr>,
     ko_retry = zero_policy, ko_telemetry = zero_otel,
     ko_breaker = \<lparr>failure_threshold = 0, cooldown = 0, trip_if = None\<rparr>, ko_disable_breaker = False\<rparr>"

theorem kit_call_is_one_logical_call_witness:
  "\<exists>w1 client w' out. NewClient no_date no_text demo_globals (\<lambda>tc. observed upstream_transport) 0 stub_options
      (start_upstream [Status 503]) = (w1, client)
    \<and> rt_round_trip (\<lambda>tc. observed upstream_transport) (hc_transport client) w1 (plain_request MethodGet background) = (w', out)
    \<and> length (sent w') \<le> 3 \<and> traced w1 w'"
proof -
  let ?mk = "\<lambda>tc :: transport_config. observed upstream_transport"
  obtain w1 client where new: "NewClient no_date no_text demo_globals ?mk 0 stub_options
      (start_upstream [Status 503]) = (w1, client)" by fastforce
  obtain w' out where run: "rt_round_trip ?mk (hc_transport client) w1 (plain_request MethodGet background) = (w', out)"
    by fastforce
  have w1: "w1 = install_breaker 0 \<lparr>failure_threshold = 0, cooldown = 0, trip_if = None\<rparr> (start_upstream [Status 503])"
    using new by (simp add: NewClient_def stub_options_def Let_def)
  have "own_transport ?mk (ko_http stub_options) = observed upstream_transport"
    by (simp add: own_transport_def stub_options_def)
  moreover have "wf_breaker (breakers w1 0) \<and> \<not> bk_probing (breakers w1 0)" and sent: "sent w1 = []"
    by (simp_all add: w1 install_breaker_def set_breaker_def start_upstream_def) (simp add: new_breaker_def)
  ultimately have "length (sent w') \<le> length (sent w1) + nat (max_attempts (policy_with_defaults (ko_retry stub_options)))
      \<and> traced w1 w'"
    using kit_call_is_one_logical_call [OF new _ upstream.network_axioms upstream_otel upstream_breakers refl _ run] by simp
  with sent have "length (sent w') \<le> 3 \<and> traced w1 w'" by (simp add: stub_options_def zero_policy_def defaultMaxAttempts_def)
  with new run show ?thesis by blast
qed

end
