(* ===== verification/Timeout_Props.thy ===== *)
theory Timeout_Props
  imports Retry_Props Resilience
begin

text \<open>
  The properties of \<open>resilience.Timeout\<close>: how long its context lives, and its two placements around and
  inside the retry loop.
\<close>

lemma eligible_ctx: "eligible p (req\<lparr>rq_ctx := c\<rparr>) = eligible p req"
  by (cases "retry_methods p") (simp_all add: eligible_def)

text \<open>C23: the context \<open>Timeout\<close> creates covers the call and the reading of its body, and not less. The
  transport gets the request with a deadline that is the nearer of the caller's and \<open>d\<close> from now. On
  an error the context is cancelled and only the error is returned. On a response nothing is cancelled
  yet, and the response is the transport's with its body wrapped: reading it reads the transport's
  body, and closing it closes that body and cancels this context. A nil body becomes the empty one,
  so the body returned can always be closed.\<close>

theorem timeout_lives_as_long_as_the_body:
  assumes "Timeout d nxt w req = (w', out)"
  shows "\<exists>c w1 out1. nxt (w\<lparr>next_token := Suc (next_token w)\<rparr>) (req\<lparr>rq_ctx := c\<rparr>) = (w1, out1)
    \<and> ctx_deadline c = Some (case ctx_deadline (rq_ctx req) of None \<Rightarrow> clock w + sint d
         | Some dl \<Rightarrow> min dl (clock w + sint d))
    \<and> (case out1 of
         Ret (r, Some e) \<Rightarrow> out = Ret (None, Some e) \<and> next_token w \<in> set (cancelled w')
       | Ret (Some r, None) \<Rightarrow> w' = w1 \<and> (\<exists>b. out = Ret (Some (r\<lparr>rs_body := Some b\<rparr>), None)
            \<and> next_token w \<in> set (cancelled (body_close b w'))
            \<and> bodies (body_close b w') = bodies (case rs_body r of None \<Rightarrow> w' | Some b1 \<Rightarrow> body_close b1 w')
            \<and> (\<forall>n. body_read n b w' = (case rs_body r of None \<Rightarrow> w' | Some b1 \<Rightarrow> body_read n b1 w')))
       | _ \<Rightarrow> \<exists>v. out = Panic v)"
proof -
  let ?k = "next_token w"
  let ?c = "with_timeout (rq_ctx req) d (clock w) ?k"
  obtain w1 out1 where nxt: "nxt (w\<lparr>next_token := Suc ?k\<rparr>) (req\<lparr>rq_ctx := ?c\<rparr>) = (w1, out1)" by fastforce
  have deadline: "ctx_deadline ?c = Some (case ctx_deadline (rq_ctx req) of None \<Rightarrow> clock w + sint d
      | Some dl \<Rightarrow> min dl (clock w + sint d))"
    by (simp add: with_timeout_def Let_def)
  show ?thesis
    using assms nxt deadline
    by (intro exI [of _ ?c] exI [of _ w1] exI [of _ out1])
       (auto simp: Timeout_def Let_def split: outcome.splits option.splits)
qed

theorem timeout_lives_as_long_as_the_body_witness:
  "\<exists>w' out c w1 out1. Timeout 5 upstream_transport (start_upstream [JSON 200 ''{}'']) (plain_request MethodGet background)
      = (w', out)
    \<and> upstream_transport ((start_upstream [JSON 200 ''{}''])\<lparr>next_token := 1\<rparr>)
        ((plain_request MethodGet background)\<lparr>rq_ctx := c\<rparr>) = (w1, out1) \<and> ctx_deadline c = Some 5"
proof -
  obtain w' out where t: "Timeout 5 upstream_transport (start_upstream [JSON 200 ''{}''])
      (plain_request MethodGet background) = (w', out)" by fastforce
  have "clock (start_upstream [JSON 200 ''{}'']) = 0" "next_token (start_upstream [JSON 200 ''{}'']) = 0"
    "ctx_deadline (rq_ctx (plain_request MethodGet background)) = None"
    by (simp_all add: start_upstream_def plain_request_def background_def)
  with timeout_lives_as_long_as_the_body [OF t] t show ?thesis by auto
qed

text \<open>C24: outside the loop, one timeout bounds the whole call. Every attempt after the first that
  \<open>Timeout(d, Retry(...))\<close> sends goes out within \<open>d\<close> of the start of the call, however long the
  backoff and whatever \<open>Retry-After\<close> asks for.\<close>

theorem timeout_outside_bounds_the_whole_loop:
  assumes "network nxt" and "wf_ctx (rq_ctx req)"
    and "eligible (policy_with_defaults p) req"
  shows "\<exists>log. sent (fst (Timeout d (Retry pt p (observed nxt)) w req)) = sent w @ log
    \<and> (\<forall>k < length log. 0 < k \<longrightarrow> fst (log ! k) < clock w + sint d)"
proof -
  let ?c = "with_timeout (rq_ctx req) d (clock w) (next_token w)"
  let ?w = "w\<lparr>next_token := Suc (next_token w)\<rparr>"
  let ?req = "req\<lparr>rq_ctx := ?c\<rparr>"
  have eligible: "eligible (policy_with_defaults p) ?req" using assms(3)
    by (simp add: eligible_ctx)
  have "wf_ctx (rq_ctx ?req)" using assms(2) by auto
  from network.retry_log [OF assms(1) this, of pt "policy_with_defaults p" 1 ?w] eligible
  obtain log where log: "sent (fst (Retry pt p (observed nxt) ?w ?req)) = sent w @ log" "attempts_log ?req 1 log"
    by (auto simp: Retry_def retry_do_def)
  have sent: "sent (fst (Timeout d (Retry pt p (observed nxt)) w req)) = sent w @ log"
    using log(1) by (auto simp: Timeout_def Let_def split: prod.split outcome.split option.split)
  have "fst (log ! k) < clock w + sint d" if "k < length log" "0 < k" for k
  proof -
    have "before_deadline ?c (fst (log ! k))" using log(2) that by (simp add: attempts_log_def)
    then show ?thesis by (auto simp: before_deadline_def with_timeout_def Let_def split: option.splits)
  qed
  with sent show ?thesis by blast
qed

theorem timeout_outside_bounds_the_whole_loop_witness:
  "\<exists>log. sent (fst (Timeout 5 (Retry no_date zero_policy (observed upstream_transport)) (start_upstream [Status 503])
      (plain_request MethodGet background))) = log \<and> (\<forall>k < length log. 0 < k \<longrightarrow> fst (log ! k) < 5)"
proof -
  have "eligible (policy_with_defaults zero_policy) (plain_request MethodGet background)"
    by (rule eligible_plain_get) (simp add: zero_policy_def)
  moreover have "sent (start_upstream [Status 503]) = []" "clock (start_upstream [Status 503]) = 0"
    by (simp_all add: start_upstream_def)
  ultimately show ?thesis
    using timeout_outside_bounds_the_whole_loop [where nxt = upstream_transport and p = zero_policy and pt = no_date
        and req = "plain_request MethodGet background" and d = 5 and w = "start_upstream [Status 503]",
        OF upstream.network_axioms wf_plain_request] by simp
qed

end
