(* ===== verification/Lifecycle.thy ===== *)
theory Lifecycle
  imports Http
begin

text \<open>
  Package \<open>lifecycle\<close>, \<open>lifecycle.go\<close>, \<open>component.go\<close> and \<open>graph.go\<close>: the registration of components and
  the start levels. A function of the caller (\<open>StartFunc\<close>, \<open>StopFunc\<close>, a hook) is named by an identity;
  nil is \<open>None\<close>. A \<open>Lifecycle\<close> is named by \<open>lc_id\<close>, which is what the owner pointer of a \<open>Ref\<close> compares.
\<close>

section \<open>Data\<close>

type_synonym func = nat

record ref =
  ref_owner :: nat
  ref_i :: int

datatype comp_option = After "ref list" | StopTimeout duration

record component =
  c_name :: string
  c_start :: "func option"
  c_stop :: "func option"
  c_afterRefs :: "ref list"
  c_after :: "nat list"
  c_stopTimeout :: duration

record config =
  cfg_DrainDelay :: duration
  cfg_StopTimeout :: duration
  cfg_Logger :: bool

record lifecycle =
  lc_id :: nat
  lc_cfg :: config
  lc_comps :: "component list"
  lc_errs :: "goerr list"
  lc_startedHooks :: "func list"
  lc_drainHooks :: "func list"
  lc_fatalCh :: bool
  lc_fatalErr :: "goerr option"

definition defaultStopTimeout :: duration where
  "defaultStopTimeout = 15 * second"

definition lifecycle_New :: "nat \<Rightarrow> config \<Rightarrow> lifecycle" where
  "lifecycle_New self cfg =
     \<lparr>lc_id = self,
      lc_cfg = (if cfg_StopTimeout cfg = 0 then cfg\<lparr>cfg_StopTimeout := defaultStopTimeout\<rparr> else cfg),
      lc_comps = [], lc_errs = [], lc_startedHooks = [], lc_drainHooks = [],
      lc_fatalCh = False, lc_fatalErr = None\<rparr>"

section \<open>Registration\<close>

fun apply_option :: "comp_option \<Rightarrow> component \<Rightarrow> component" where
  "apply_option (After refs) c = c\<lparr>c_afterRefs := c_afterRefs c @ refs\<rparr>"
| "apply_option (StopTimeout d) c = c\<lparr>c_stopTimeout := d\<rparr>"

definition start_nil_error :: "string \<Rightarrow> goerr" where
  "start_nil_error name = Err (''lifecycle: '' @ name @
     '': start is nil; a component with nothing to start needs an explicit no-op StartFunc'')"

definition stop_nil_error :: "string \<Rightarrow> goerr" where
  "stop_nil_error name = Err (''lifecycle: '' @ name @
     '': stop is nil; a component with nothing to stop needs an explicit no-op StopFunc'')"

definition bad_ref_error :: "string \<Rightarrow> goerr" where
  "bad_ref_error name = Err (''lifecycle: '' @ name @
     '': dependency Ref belongs to a different Lifecycle or is out of range for it'')"

definition valid_ref :: "lifecycle \<Rightarrow> ref \<Rightarrow> bool" where
  "valid_ref l r \<longleftrightarrow> \<not> (ref_owner r \<noteq> lc_id l \<or> ref_i r < 0 \<or> int (length (lc_comps l)) \<le> ref_i r)"

fun resolve_refs :: "lifecycle \<Rightarrow> string \<Rightarrow> ref list \<Rightarrow> goerr list \<times> nat list" where
  "resolve_refs l name [] = ([], [])"
| "resolve_refs l name (r # rs) =
     (case resolve_refs l name rs of (es, ds) \<Rightarrow>
        if \<not> valid_ref l r then (bad_ref_error name # es, ds) else (es, nat (ref_i r) # ds))"

definition lifecycle_Add ::
  "lifecycle \<Rightarrow> string \<Rightarrow> func option \<Rightarrow> func option \<Rightarrow> comp_option list \<Rightarrow> lifecycle \<times> ref"
where
  "lifecycle_Add l name start stop opts =
     (let c = fold apply_option opts
                \<lparr>c_name = name, c_start = start, c_stop = stop, c_afterRefs = [], c_after = [],
                 c_stopTimeout = 0\<rparr>;
          errs1 = (if start = None then [start_nil_error name] else []);
          errs2 = (if stop = None then [stop_nil_error name] else []);
          (errs3, ds) = resolve_refs l name (c_afterRefs c)
      in (l\<lparr>lc_comps := lc_comps l @ [c\<lparr>c_after := ds\<rparr>],
            lc_errs := lc_errs l @ errs1 @ errs2 @ errs3\<rparr>,
          \<lparr>ref_owner = lc_id l, ref_i = int (length (lc_comps l))\<rparr>))"

definition OnStarted :: "lifecycle \<Rightarrow> func \<Rightarrow> lifecycle" where
  "OnStarted l f = l\<lparr>lc_startedHooks := lc_startedHooks l @ [f]\<rparr>"

definition OnDrain :: "lifecycle \<Rightarrow> func \<Rightarrow> lifecycle" where
  "OnDrain l f = l\<lparr>lc_drainHooks := lc_drainHooks l @ [f]\<rparr>"

text \<open>
  \<open>fatalOnce\<close> runs its body on the first call that reaches it; it has run iff the channel is closed.
\<close>

definition Fatal :: "goerr option \<Rightarrow> lifecycle \<Rightarrow> lifecycle" where
  "Fatal err l =
     (case err of None \<Rightarrow> l
      | Some e \<Rightarrow> if lc_fatalCh l then l else l\<lparr>lc_fatalErr := Some e, lc_fatalCh := True\<rparr>)"

section \<open>Start levels\<close>

definition level_of :: "nat list \<Rightarrow> nat list \<Rightarrow> nat" where
  "level_of lvl ds = foldl (\<lambda>l d. if l < lvl ! d + 1 then lvl ! d + 1 else l) 0 ds"

fun level_pass :: "nat \<Rightarrow> component list \<Rightarrow> nat list \<Rightarrow> nat list" where
  "level_pass i [] lvl = lvl"
| "level_pass i (c # cs) lvl = level_pass (Suc i) cs (lvl[i := level_of lvl (c_after c)])"

definition level_table :: "component list \<Rightarrow> nat list" where
  "level_table cs = level_pass 0 cs (replicate (length cs) 0)"

definition levels :: "component list \<Rightarrow> nat list list" where
  "levels cs =
     (if cs = [] then []
      else let lvl = level_table cs;
               depth = foldl max 0 lvl
           in foldl (\<lambda>out i. out[lvl ! i := out ! (lvl ! i) @ [i]]) (replicate (depth + 1) [])
                [0..<length cs])"

section \<open>What registration keeps\<close>

text \<open>Every resolved dependency names an earlier component.\<close>

definition wf_comps :: "component list \<Rightarrow> bool" where
  "wf_comps cs \<longleftrightarrow> (\<forall>i < length cs. \<forall>d \<in> set (c_after (cs ! i)). d < i)"

definition wf_lifecycle :: "lifecycle \<Rightarrow> bool" where
  "wf_lifecycle l \<longleftrightarrow> wf_comps (lc_comps l)
     \<and> (lc_errs l = [] \<longrightarrow> (\<forall>c \<in> set (lc_comps l). c_start c \<noteq> None \<and> c_stop c \<noteq> None
          \<and> map (\<lambda>r. nat (ref_i r)) (c_afterRefs c) = c_after c
          \<and> (\<forall>r \<in> set (c_afterRefs c). ref_owner r = lc_id l \<and> 0 \<le> ref_i r)))
     \<and> (lc_fatalCh l \<longleftrightarrow> lc_fatalErr l \<noteq> None)"

lemma resolve_refs_after:
  "\<forall>d \<in> set (snd (resolve_refs l name rs)). d < length (lc_comps l)"
  by (induction rs) (auto simp: valid_ref_def split: prod.split)

lemma resolve_refs_ok:
  "fst (resolve_refs l name rs) = [] \<longleftrightarrow> list_all (valid_ref l) rs"
  "list_all (valid_ref l) rs \<Longrightarrow> snd (resolve_refs l name rs) = map (\<lambda>r. nat (ref_i r)) rs"
  by (induction rs) (auto split: prod.split)

lemma apply_options_frame [simp]:
  "c_start (fold apply_option opts c) = c_start c" "c_stop (fold apply_option opts c) = c_stop c"
  "c_name (fold apply_option opts c) = c_name c" "c_after (fold apply_option opts c) = c_after c"
proof -
  have "c_start (apply_option x c) = c_start c" "c_stop (apply_option x c) = c_stop c"
    "c_name (apply_option x c) = c_name c" "c_after (apply_option x c) = c_after c" for x c
    by (cases x; simp)+
  then show "c_start (fold apply_option opts c) = c_start c" "c_stop (fold apply_option opts c) = c_stop c"
    "c_name (fold apply_option opts c) = c_name c" "c_after (fold apply_option opts c) = c_after c"
    by (induction opts arbitrary: c) simp_all
qed

lemma wf_comps_snoc:
  "wf_comps (cs @ [c]) \<longleftrightarrow> wf_comps cs \<and> (\<forall>d \<in> set (c_after c). d < length cs)"
  by (auto simp: wf_comps_def nth_append less_Suc_eq)

lemma wf_New [simp]: "wf_lifecycle (lifecycle_New self cfg)"
  by (simp add: wf_lifecycle_def lifecycle_New_def wf_comps_def)

lemma wf_Add:
  assumes "wf_lifecycle l"
  shows "wf_lifecycle (fst (lifecycle_Add l name start stop opts))"
proof -
  obtain c where c: "c = fold apply_option opts
      \<lparr>c_name = name, c_start = start, c_stop = stop, c_afterRefs = [], c_after = [], c_stopTimeout = 0\<rparr>"
    by simp
  obtain es ds where res: "resolve_refs l name (c_afterRefs c) = (es, ds)" by fastforce
  have ds: "\<forall>d \<in> set ds. d < length (lc_comps l)"
    using resolve_refs_after [of l name "c_afterRefs c"] res by simp
  have "list_all (valid_ref l) (c_afterRefs c) \<and> map (\<lambda>r. nat (ref_i r)) (c_afterRefs c) = ds" if "es = []"
    using resolve_refs_ok [where l = l and name = name and rs = "c_afterRefs c"] res that by simp
  moreover have "fst (lifecycle_Add l name start stop opts) =
      l\<lparr>lc_comps := lc_comps l @ [c\<lparr>c_after := ds\<rparr>],
        lc_errs := lc_errs l @ (if start = None then [start_nil_error name] else [])
          @ (if stop = None then [stop_nil_error name] else []) @ es\<rparr>"
    using res by (simp add: lifecycle_Add_def c)
  moreover have "c_start c = start" "c_stop c = stop" by (simp_all add: c)
  ultimately show ?thesis
    using assms ds
    by (auto simp: wf_lifecycle_def wf_comps_snoc list_all_iff valid_ref_def not_less)
qed

lemma wf_hooks [simp]:
  "wf_lifecycle (OnStarted l f) = wf_lifecycle l" "wf_lifecycle (OnDrain l f) = wf_lifecycle l"
  by (simp_all add: wf_lifecycle_def OnStarted_def OnDrain_def)

lemma wf_Fatal: "wf_lifecycle l \<Longrightarrow> wf_lifecycle (Fatal e l)"
  by (auto simp: wf_lifecycle_def Fatal_def split: option.split)

end
