(* ===== verification/Lifecycle_Levels.thy ===== *)
theory Lifecycle_Levels
  imports Lifecycle
begin

text \<open>
  The single forward pass of \<open>levels\<close> against its meaning: the level of a component is one more than
  the highest level of its dependencies, and the levels are the components grouped by it.
\<close>

lemma dependency_in_range:
  "wf_comps cs \<Longrightarrow> i < length cs \<Longrightarrow> d \<in> set (c_after (cs ! i)) \<Longrightarrow> d < i \<and> d < length cs"
  by (fastforce simp: wf_comps_def)

section \<open>The pass\<close>

lemma foldl_max: "foldl max m xs = Max (insert (m :: nat) (set xs))"
  using Max.set_eq_fold [of m xs] by (simp add: foldl_conv_fold max.commute)

lemma level_of_eq_Max:
  "level_of lvl ds = Max (insert 0 ((\<lambda>d. lvl ! d + 1) ` set ds))"
proof -
  have "(\<lambda>l d. if l < lvl ! d + 1 then lvl ! d + 1 else l) = (\<lambda>l d. max l (lvl ! d + 1))"
    by (intro ext) (simp add: max_def)
  then have "level_of lvl ds = foldl max 0 (map (\<lambda>d. lvl ! d + 1) ds)"
    by (simp add: level_of_def foldl_map)
  then show ?thesis by (simp add: foldl_max)
qed

lemma level_of_cong:
  "(\<And>d. d \<in> set ds \<Longrightarrow> lvl ! d = lvl' ! d) \<Longrightarrow> level_of lvl ds = level_of lvl' ds"
  by (simp add: level_of_eq_Max)

lemma length_level_pass [simp]: "length (level_pass i cs lvl) = length lvl"
  by (induction i cs lvl rule: level_pass.induct) auto

lemma level_pass_before:
  "j < i \<Longrightarrow> level_pass i cs lvl ! j = lvl ! j"
  by (induction i cs lvl rule: level_pass.induct) auto

lemma level_pass_nth:
  assumes "i + length cs \<le> length lvl"
    and "\<And>k d. k < length cs \<Longrightarrow> d \<in> set (c_after (cs ! k)) \<Longrightarrow> d < i + k"
    and "k < length cs"
  shows "level_pass i cs lvl ! (i + k) = level_of (level_pass i cs lvl) (c_after (cs ! k))"
  using assms
proof (induction i cs lvl arbitrary: k rule: level_pass.induct)
  case (2 i c cs lvl)
  let ?lvl = "lvl[i := level_of lvl (c_after c)]"
  show ?case
  proof (cases k)
    case 0
    have "level_of (level_pass (Suc i) cs ?lvl) (c_after c) = level_of lvl (c_after c)"
    proof (rule level_of_cong)
      fix d assume "d \<in> set (c_after c)"
      then have "d < i" using "2.prems"(2) [of 0 d] by simp
      then show "level_pass (Suc i) cs ?lvl ! d = lvl ! d" by (simp add: level_pass_before)
    qed
    moreover have "level_pass (Suc i) cs ?lvl ! i = level_of lvl (c_after c)"
      using "2.prems"(1) by (simp add: level_pass_before)
    ultimately show ?thesis using 0 by simp
  next
    case (Suc k')
    have "level_pass (Suc i) cs ?lvl ! (Suc i + k')
        = level_of (level_pass (Suc i) cs ?lvl) (c_after (cs ! k'))"
    proof (rule "2.IH")
      fix k d assume "k < length cs" "d \<in> set (c_after (cs ! k))"
      then show "d < Suc i + k" using "2.prems"(2) [of "Suc k" d] by simp
    qed (use "2.prems"(1,3) Suc in simp_all)
    then show ?thesis using Suc by simp
  qed
qed simp

lemma length_level_table [simp]: "length (level_table cs) = length cs"
  by (simp add: level_table_def)

lemma level_table_nth:
  assumes "wf_comps cs" "i < length cs"
  shows "level_table cs ! i = Max (insert 0 ((\<lambda>d. level_table cs ! d + 1) ` set (c_after (cs ! i))))"
  using level_pass_nth [of 0 cs "replicate (length cs) 0" i] assms
  by (simp add: level_table_def level_of_eq_Max wf_comps_def)

lemma level_above_dependencies:
  assumes "wf_comps cs" "i < length cs" "d \<in> set (c_after (cs ! i))"
  shows "level_table cs ! d < level_table cs ! i"
proof -
  have "level_table cs ! d + 1 \<le> level_table cs ! i"
    using assms(3) unfolding level_table_nth [OF assms(1,2)] by (intro Max_ge) auto
  then show ?thesis by simp
qed

section \<open>The buckets\<close>

lemma foldl_buckets:
  assumes "\<And>i. i \<in> set xs \<Longrightarrow> f i < length out"
  shows "foldl (\<lambda>out i. out[f i := out ! f i @ [i]]) out xs
    = map (\<lambda>k. out ! k @ filter (\<lambda>i. f i = k) xs) [0..<length out]"
  using assms
proof (induction xs arbitrary: out)
  case Nil
  then show ?case by (simp add: map_nth)
next
  case (Cons x xs)
  have "foldl (\<lambda>out i. out[f i := out ! f i @ [i]]) out (x # xs)
      = map (\<lambda>k. (out[f x := out ! f x @ [x]]) ! k @ filter (\<lambda>i. f i = k) xs) [0..<length out]"
    using Cons by simp
  also have "\<dots> = map (\<lambda>k. out ! k @ filter (\<lambda>i. f i = k) (x # xs)) [0..<length out]"
    by (rule map_cong) (auto simp: nth_list_update)
  finally show ?case .
qed

definition depth_of :: "component list \<Rightarrow> nat" where
  "depth_of cs = Max (insert 0 (set (level_table cs)))"

lemma level_le_depth: "i < length cs \<Longrightarrow> level_table cs ! i \<le> depth_of cs"
  by (simp add: depth_of_def)

lemma levels_eq:
  "levels cs = (if cs = [] then []
     else map (\<lambda>k. filter (\<lambda>i. level_table cs ! i = k) [0..<length cs]) [0..<Suc (depth_of cs)])"
proof (cases "cs = []")
  case False
  have "foldl max 0 (level_table cs) = depth_of cs"
    by (simp add: foldl_max depth_of_def)
  moreover have "foldl (\<lambda>out i. out[level_table cs ! i := out ! (level_table cs ! i) @ [i]])
      (replicate (Suc (depth_of cs)) []) [0..<length cs]
    = map (\<lambda>k. filter (\<lambda>i. level_table cs ! i = k) [0..<length cs]) [0..<Suc (depth_of cs)]"
    by (subst foldl_buckets [where f = "\<lambda>i. level_table cs ! i"])
       (auto simp: level_le_depth less_Suc_eq_le simp del: replicate_Suc intro!: map_cong)
  ultimately show ?thesis using False by (simp add: levels_def Let_def)
qed (simp add: levels_def)

lemma length_levels: "length (levels cs) = (if cs = [] then 0 else Suc (depth_of cs))"
  by (simp add: levels_eq)

lemma levels_nth:
  "n < length (levels cs) \<Longrightarrow> levels cs ! n = filter (\<lambda>i. level_table cs ! i = n) [0..<length cs]"
  by (auto simp: levels_eq nth_append simp del: upt_Suc split: if_splits)

lemma in_levels_iff:
  "n < length (levels cs) \<Longrightarrow> i \<in> set (levels cs ! n) \<longleftrightarrow> i < length cs \<and> level_table cs ! i = n"
  by (auto simp: levels_nth)

lemma level_in_range: "i < length cs \<Longrightarrow> level_table cs ! i < length (levels cs)"
  using level_le_depth [of i cs] by (auto simp: length_levels less_Suc_eq_le)

lemma distinct_level: "n < length (levels cs) \<Longrightarrow> distinct (levels cs ! n)"
  by (simp add: levels_nth)

lemma level_dependency_below:
  assumes "wf_comps cs" "i < length cs" "level_table cs ! i = Suc m"
  shows "\<exists>d \<in> set (c_after (cs ! i)). level_table cs ! d = m"
proof -
  let ?S = "insert 0 ((\<lambda>d. level_table cs ! d + 1) ` set (c_after (cs ! i)))"
  have "Max ?S \<in> ?S" by (rule Max_in) auto
  then have "Suc m \<in> ?S" using level_table_nth [OF assms(1,2)] assms(3) by simp
  then show ?thesis by auto
qed

lemma level_not_empty:
  assumes "wf_comps cs" "n < length (levels cs)"
  shows "levels cs ! n \<noteq> []"
proof -
  have ne: "cs \<noteq> []" and n: "n \<le> depth_of cs" using assms(2) by (auto simp: length_levels split: if_splits)
  have "\<exists>i < length cs. level_table cs ! i = depth_of cs"
  proof -
    have "depth_of cs \<in> insert 0 (set (level_table cs))" unfolding depth_of_def by (rule Max_in) auto
    moreover have "set (c_after (cs ! 0)) = {}" using ne assms(1) by (auto simp: wf_comps_def)
    ultimately show ?thesis using ne level_table_nth [OF assms(1), of 0]
      by (auto simp: in_set_conv_nth)
  qed
  with n have "\<exists>i < length cs. level_table cs ! i = n"
  proof (induction rule: inc_induct)
    case (step m)
    then obtain i where i: "i < length cs" "level_table cs ! i = Suc m" by auto
    then obtain d where d: "d \<in> set (c_after (cs ! i))" "level_table cs ! d = m"
      using level_dependency_below [OF assms(1)] by blast
    then have "d < length cs" using assms(1) i(1) by (fastforce simp: wf_comps_def)
    with d(2) show ?case by blast
  qed
  then obtain i where "i < length cs" "level_table cs ! i = n" by blast
  then have "i \<in> set (levels cs ! n)" by (simp add: in_levels_iff [OF assms(2)])
  then show ?thesis by auto
qed

lemma distinct_levels: "distinct (concat (levels cs))"
proof -
  have "distinct (concat (map (\<lambda>k. filter (\<lambda>i. f i = k) xs) ks))" if "distinct xs" "distinct ks"
    for f :: "nat \<Rightarrow> nat" and xs ks
    using that by (induction ks) auto
  then show ?thesis by (simp add: levels_eq del: upt_Suc)
qed

section \<open>Property\<close>

text \<open>C32: \<open>levels\<close> computes start levels. For components as \<open>Add\<close> registers them, every component is
  in exactly one level, once; each of its dependencies is in a lower level; and no component waits
  longer than it must: one in level \<open>n + 1\<close> has a dependency in level \<open>n\<close>. No level is empty.\<close>

theorem levels_respect_dependencies:
  assumes "wf_comps cs"
  shows "distinct (concat (levels cs)) \<and> set (concat (levels cs)) = {0..<length cs}
    \<and> (\<forall>n < length (levels cs). levels cs ! n \<noteq> []
        \<and> (\<forall>i \<in> set (levels cs ! n).
             (\<forall>d \<in> set (c_after (cs ! i)). \<exists>m < n. d \<in> set (levels cs ! m))
           \<and> (\<forall>m. n = Suc m \<longrightarrow> (\<exists>d \<in> set (c_after (cs ! i)). d \<in> set (levels cs ! m)))))"
proof (intro conjI allI impI ballI)
  have mem: "n < length (levels cs) \<Longrightarrow> i \<in> set (levels cs ! n) \<longleftrightarrow> i < length cs \<and> level_table cs ! i = n" for i n
    by (rule in_levels_iff)
  show "distinct (concat (levels cs))"
    by (rule distinct_levels)
  have "i \<in> set (concat (levels cs)) \<longleftrightarrow> i < length cs" for i
  proof
    assume i: "i < length cs"
    then have "i \<in> set (levels cs ! (level_table cs ! i))" by (simp add: mem [OF level_in_range])
    moreover have "levels cs ! (level_table cs ! i) \<in> set (levels cs)"
      using level_in_range [OF i] by simp
    ultimately show "i \<in> set (concat (levels cs))" by auto
  next
    assume "i \<in> set (concat (levels cs))"
    then show "i < length cs" using mem by (auto simp: in_set_conv_nth [of _ "levels cs"])
  qed
  then show "set (concat (levels cs)) = {0..<length cs}" by (intro set_eqI) simp
  fix n assume n: "n < length (levels cs)"
  show "levels cs ! n \<noteq> []" by (rule level_not_empty [OF assms n])
  fix i assume i: "i \<in> set (levels cs ! n)"
  then have "i < length cs" "level_table cs ! i = n" by (simp_all add: mem [OF n])
  show "\<exists>m < n. d \<in> set (levels cs ! m)" if d: "d \<in> set (c_after (cs ! i))" for d
    using level_above_dependencies [OF assms \<open>i < length cs\<close> d]
      dependency_in_range [OF assms \<open>i < length cs\<close> d] \<open>level_table cs ! i = n\<close> n
    by (intro exI [of _ "level_table cs ! d"]) (auto simp: mem)
  show "\<exists>d \<in> set (c_after (cs ! i)). d \<in> set (levels cs ! m)" if m: "n = Suc m" for m
    using level_dependency_below [OF assms \<open>i < length cs\<close>, of m] \<open>level_table cs ! i = n\<close> m n
      dependency_in_range [OF assms \<open>i < length cs\<close>] by (auto simp: mem)
qed

theorem levels_respect_dependencies_witness:
  "(let c = \<lparr>c_name = ''x'', c_start = Some 0, c_stop = Some 1, c_afterRefs = [], c_after = [],
         c_stopTimeout = 0\<rparr>;
       cs = [c, c, c\<lparr>c_after := [0, 1]\<rparr>, c\<lparr>c_after := [2, 0]\<rparr>, c\<lparr>c_after := [1]\<rparr>]
   in levels cs = [[0, 1], [2, 4], [3]] \<and> distinct (concat (levels cs)))"
proof -
  let ?c = "\<lparr>c_name = ''x'', c_start = Some 0, c_stop = Some 1, c_afterRefs = [], c_after = [],
         c_stopTimeout = 0\<rparr>"
  let ?cs = "[?c, ?c, ?c\<lparr>c_after := [0, 1]\<rparr>, ?c\<lparr>c_after := [2, 0]\<rparr>, ?c\<lparr>c_after := [1]\<rparr>]"
  have "wf_comps ?cs" by (auto simp: wf_comps_def less_Suc_eq nth_Cons')
  from levels_respect_dependencies [OF this] have "distinct (concat (levels ?cs))" by blast
  moreover have "levels ?cs = [[0, 1], [2, 4], [3]]" by code_simp
  ultimately show ?thesis by (simp add: Let_def)
qed

end
