(* ===== verification/Lifecycle_Run.thy ===== *)
theory Lifecycle_Run
  imports Lifecycle_Levels Machine
begin

text \<open>
  \<open>Lifecycle.Run\<close> as a machine of interleaved steps: the goroutine of \<open>Run\<close> itself (\<open>Main\<close>, and the two
  arms of its \<open>select\<close>), the goroutines of the level being started or stopped (by their position in
  the level), and the environment, which decides when a caller's \<open>start\<close> or \<open>stop\<close> returns and with
  what, when time passes, and when somebody calls \<open>Fatal\<close>. Time and the end of the caller's context
  are those of \<open>Http.ctx\<close>. The spawning loop of a level is one step: a goroutine that has not run yet
  and one not created yet cannot be told apart. The log records the calls the program makes, what
  they return, and what it hands to its logger.
\<close>

section \<open>State\<close>

datatype goroutine = Skipped | Spawned | Calling | Finished

datatype pc =
    Before
  | NextLevel nat
  | Starting nat
  | StartedHooks nat
  | Waiting
  | DrainHooks nat
  | Sleeping time
  | NextStop nat
  | Stopping nat
  | Result "goerr option"

datatype event =
    EvStart nat bool
  | EvStartReturned nat "goerr option"
  | EvStartedHook func
  | EvDrainHook func
  | EvStop nat ctx
  | EvStopReturned nat "goerr option"
  | EvLog string string

record run =
  r_lc :: lifecycle
  r_ctx :: ctx
  r_now :: time
  r_pc :: pc
  r_started :: "bool list"
  r_gs :: "goroutine list"
  r_errs :: "goerr option list"
  r_cancelled :: bool
  r_start_err :: "goerr option"
  r_stop_errs :: "goerr list"
  r_log :: "(time \<times> event) list"

abbreviation r_comps :: "run \<Rightarrow> component list" where
  "r_comps s \<equiv> lc_comps (r_lc s)"

abbreviation r_levels :: "run \<Rightarrow> nat list list" where
  "r_levels s \<equiv> levels (r_comps s)"

definition run_init :: "lifecycle \<Rightarrow> ctx \<Rightarrow> time \<Rightarrow> run" where
  "run_init l c now =
     \<lparr>r_lc = l, r_ctx = c, r_now = now, r_pc = Before, r_started = [], r_gs = [], r_errs = [],
      r_cancelled = False, r_start_err = None, r_stop_errs = [], r_log = []\<rparr>"

section \<open>Steps\<close>

definition log_event :: "event \<Rightarrow> run \<Rightarrow> run" where
  "log_event e s = s\<lparr>r_log := r_log s @ [(r_now s, e)]\<rparr>"

definition logf :: "string \<Rightarrow> string \<Rightarrow> run \<Rightarrow> run" where
  "logf msg arg s = (if cfg_Logger (lc_cfg (r_lc s)) then log_event (EvLog msg arg) s else s)"

definition ctx_done :: "run \<Rightarrow> bool" where
  "ctx_done s = (case ctx_done_at (r_ctx s) of None \<Rightarrow> False | Some (t, e) \<Rightarrow> t \<le> r_now s)"

definition settled :: "goroutine \<Rightarrow> bool" where
  "settled g \<longleftrightarrow> g = Skipped \<or> g = Finished"

definition start_error :: "string \<Rightarrow> goerr \<Rightarrow> goerr" where
  "start_error name e = Wrapped (''lifecycle: '' @ name @ '': start'') e"

definition stop_error :: "string \<Rightarrow> goerr \<Rightarrow> goerr" where
  "stop_error name e = Wrapped (''lifecycle: '' @ name @ '': stop'') e"

text \<open>\<open>context.WithoutCancel\<close>: the values of a context without its end.\<close>

definition without_cancel :: "ctx \<Rightarrow> ctx" where
  "without_cancel c = c\<lparr>ctx_deadline := None, ctx_done_at := None, ctx_tokens := []\<rparr>"

text \<open>The context \<open>stopOne\<close> gives to the \<open>stop\<close> of component \<open>i\<close>.\<close>

definition stop_ctx :: "run \<Rightarrow> nat \<Rightarrow> ctx" where
  "stop_ctx s i =
     (let c = r_comps s ! i;
          d = (if c_stopTimeout c = 0 then cfg_StopTimeout (lc_cfg (r_lc s)) else c_stopTimeout c)
      in with_timeout (without_cancel (r_ctx s)) d (r_now s) i)"

definition drain_warning :: string where
  "drain_warning =
     ''draining with no OnDrain hook registered; readiness will not flip before components stop''"

text \<open>Entering \<open>drain\<close>.\<close>

definition begin_drain :: "run \<Rightarrow> run" where
  "begin_drain s =
     (if lc_drainHooks (r_lc s) = [] \<and> r_comps s \<noteq> [] then logf drain_warning [] s else s)
       \<lparr>r_pc := DrainHooks 0\<rparr>"

text \<open>What \<open>Run\<close> returns once \<open>stopStarted\<close> is done.\<close>

definition run_result :: "run \<Rightarrow> goerr option" where
  "run_result s =
     (let stop_err = join_errors (map Some (r_stop_errs s))
      in case r_start_err s of
           Some e \<Rightarrow> join_errors [Some e, stop_err]
         | None \<Rightarrow> (case lc_fatalErr (r_lc s) of
               Some fe \<Rightarrow> join_errors [Some fe, stop_err]
             | None \<Rightarrow> stop_err))"

definition main_step :: "run \<Rightarrow> run option" where
  "main_step s =
     (case r_pc s of
        Before \<Rightarrow>
          if lc_errs (r_lc s) \<noteq> [] then Some (s\<lparr>r_pc := Result (join_errors (map Some (lc_errs (r_lc s))))\<rparr>)
          else Some (s\<lparr>r_pc := NextLevel 0, r_started := replicate (length (r_comps s)) False\<rparr>)
      | NextLevel n \<Rightarrow>
          if n < length (r_levels s)
          then let k = length (r_levels s ! n)
            in Some (s\<lparr>r_pc := Starting n, r_gs := replicate k Spawned, r_errs := replicate k None,
                 r_cancelled := False\<rparr>)
          else Some (s\<lparr>r_pc := StartedHooks 0\<rparr>)
      | Starting n \<Rightarrow>
          if \<not> list_all settled (r_gs s) then None
          else (case join_errors (r_errs s) of
              None \<Rightarrow> Some (s\<lparr>r_pc := NextLevel (n + 1)\<rparr>)
            | Some e \<Rightarrow> Some (s\<lparr>r_start_err := Some e, r_pc := NextStop (length (r_levels s))\<rparr>))
      | StartedHooks k \<Rightarrow>
          if k < length (lc_startedHooks (r_lc s))
          then Some ((log_event (EvStartedHook (lc_startedHooks (r_lc s) ! k)) s)\<lparr>r_pc := StartedHooks (k + 1)\<rparr>)
          else Some (s\<lparr>r_pc := Waiting\<rparr>)
      | Waiting \<Rightarrow> None
      | DrainHooks k \<Rightarrow>
          if k < length (lc_drainHooks (r_lc s))
          then Some ((log_event (EvDrainHook (lc_drainHooks (r_lc s) ! k)) s)\<lparr>r_pc := DrainHooks (k + 1)\<rparr>)
          else if 0 < sint (cfg_DrainDelay (lc_cfg (r_lc s)))
          then Some ((logf ''draining'' [] s)\<lparr>r_pc := Sleeping (r_now s + sint (cfg_DrainDelay (lc_cfg (r_lc s))))\<rparr>)
          else Some (s\<lparr>r_pc := NextStop (length (r_levels s))\<rparr>)
      | Sleeping t \<Rightarrow>
          if t \<le> r_now s then Some (s\<lparr>r_pc := NextStop (length (r_levels s))\<rparr>) else None
      | NextStop m \<Rightarrow>
          (case m of
             0 \<Rightarrow> Some (s\<lparr>r_pc := Result (run_result s)\<rparr>)
           | Suc n \<Rightarrow> Some (s\<lparr>r_pc := Stopping n,
               r_gs := map (\<lambda>i. if r_started s ! i then Spawned else Skipped) (r_levels s ! n)\<rparr>))
      | Stopping n \<Rightarrow> if list_all settled (r_gs s) then Some (s\<lparr>r_pc := NextStop n\<rparr>) else None
      | Result e \<Rightarrow> None)"

definition fatal_message :: "run \<Rightarrow> string" where
  "fatal_message s = (case lc_fatalErr (r_lc s) of None \<Rightarrow> [] | Some e \<Rightarrow> err_text e)"

text \<open>The two arms of the \<open>select\<close>.\<close>

definition select_ctx :: "run \<Rightarrow> run option" where
  "select_ctx s = (if r_pc s = Waiting \<and> ctx_done s then Some (begin_drain s) else None)"

definition select_fatal :: "run \<Rightarrow> run option" where
  "select_fatal s =
     (if r_pc s = Waiting \<and> lc_fatalCh (r_lc s)
      then Some (begin_drain (logf ''fatal error; shutting down'' (fatal_message s) s)) else None)"

text \<open>Goroutine \<open>p\<close> of the level: the call into the component, then its return.\<close>

definition call_start :: "nat \<Rightarrow> run \<Rightarrow> run option" where
  "call_start p s =
     (case r_pc s of
        Starting n \<Rightarrow>
          if p < length (r_gs s) \<and> r_gs s ! p = Spawned
          then let i = r_levels s ! n ! p
            in case c_start (r_comps s ! i) of None \<Rightarrow> None
               | Some f \<Rightarrow> Some ((log_event (EvStart i (r_cancelled s \<or> ctx_done s))
                   (logf ''starting component'' (c_name (r_comps s ! i)) s))
                     \<lparr>r_gs := (r_gs s)[p := Calling]\<rparr>)
          else None
      | _ \<Rightarrow> None)"

definition start_returns :: "nat \<Rightarrow> goerr option \<Rightarrow> run \<Rightarrow> run option" where
  "start_returns p res s =
     (case r_pc s of
        Starting n \<Rightarrow>
          if p < length (r_gs s) \<and> r_gs s ! p = Calling
          then let i = r_levels s ! n ! p;
                   s' = (log_event (EvStartReturned i res) s)\<lparr>r_gs := (r_gs s)[p := Finished]\<rparr>
            in Some (case res of
                 Some e \<Rightarrow> s'\<lparr>r_errs := (r_errs s)[p := Some (start_error (c_name (r_comps s ! i)) e)],
                            r_cancelled := True\<rparr>
               | None \<Rightarrow> s'\<lparr>r_started := (r_started s)[i := True]\<rparr>)
          else None
      | _ \<Rightarrow> None)"

definition call_stop :: "nat \<Rightarrow> run \<Rightarrow> run option" where
  "call_stop p s =
     (case r_pc s of
        Stopping n \<Rightarrow>
          if p < length (r_gs s) \<and> r_gs s ! p = Spawned
          then let i = r_levels s ! n ! p
            in case c_stop (r_comps s ! i) of None \<Rightarrow> None
               | Some f \<Rightarrow> Some ((log_event (EvStop i (stop_ctx s i))
                   (logf ''stopping component'' (c_name (r_comps s ! i)) s))
                     \<lparr>r_gs := (r_gs s)[p := Calling]\<rparr>)
          else None
      | _ \<Rightarrow> None)"

definition stop_returns :: "nat \<Rightarrow> goerr option \<Rightarrow> run \<Rightarrow> run option" where
  "stop_returns p res s =
     (case r_pc s of
        Stopping n \<Rightarrow>
          if p < length (r_gs s) \<and> r_gs s ! p = Calling
          then let i = r_levels s ! n ! p;
                   s' = (log_event (EvStopReturned i res) s)\<lparr>r_gs := (r_gs s)[p := Finished]\<rparr>
            in Some (case res of
                 Some e \<Rightarrow> s'\<lparr>r_stop_errs := r_stop_errs s @ [stop_error (c_name (r_comps s ! i)) e]\<rparr>
               | None \<Rightarrow> s')
          else None
      | _ \<Rightarrow> None)"

datatype action =
    Main
  | SelectCtx
  | SelectFatal
  | CallStart nat
  | StartReturns nat "goerr option"
  | CallStop nat
  | StopReturns nat "goerr option"
  | Tick nat
  | CallFatal "goerr option"

fun run_step :: "action \<Rightarrow> run \<Rightarrow> run option" where
  "run_step Main s = main_step s"
| "run_step SelectCtx s = select_ctx s"
| "run_step SelectFatal s = select_fatal s"
| "run_step (CallStart p) s = call_start p s"
| "run_step (StartReturns p res) s = start_returns p res s"
| "run_step (CallStop p) s = call_stop p s"
| "run_step (StopReturns p res) s = stop_returns p res s"
| "run_step (Tick d) s = Some (s\<lparr>r_now := r_now s + int d\<rparr>)"
| "run_step (CallFatal e) s = Some (s\<lparr>r_lc := Fatal e (r_lc s)\<rparr>)"

abbreviation run_steps :: "action list \<Rightarrow> run \<Rightarrow> run option" where
  "run_steps \<equiv> run_all run_step"

abbreviation run_reach :: "lifecycle \<Rightarrow> ctx \<Rightarrow> time \<Rightarrow> run \<Rightarrow> bool" where
  "run_reach l c now \<equiv> reaches run_step (run_init l c now)"

lemmas step_defs = main_step_def select_ctx_def select_fatal_def call_start_def start_returns_def
  call_stop_def stop_returns_def

section \<open>The life of a component, read off the log\<close>

datatype life = Fresh | Booting | Up | Failed | Halting | Down | Broken

fun life_event :: "nat \<Rightarrow> life \<Rightarrow> event \<Rightarrow> life" where
  "life_event i l (EvStart j b) = (if i = j then if l = Fresh then Booting else Broken else l)"
| "life_event i l (EvStartReturned j r) =
     (if i = j then if l = Booting then (if r = None then Up else Failed) else Broken else l)"
| "life_event i l (EvStop j c) = (if i = j then if l = Up then Halting else Broken else l)"
| "life_event i l (EvStopReturned j r) = (if i = j then if l = Halting then Down else Broken else l)"
| "life_event i l (EvStartedHook f) = l"
| "life_event i l (EvDrainHook f) = l"
| "life_event i l (EvLog m a) = l"

definition life_of :: "run \<Rightarrow> nat \<Rightarrow> life" where
  "life_of s i = foldl (life_event i) Fresh (map snd (r_log s))"

end
