(* ===== verification/Lifecycle_Inv.thy ===== *)
theory Lifecycle_Inv
  imports Lifecycle_Run
begin

text \<open>
  The invariants of \<open>Run\<close>: at each point of the program, what has happened to every component
  (\<open>life_inv\<close>), which hooks have run (\<open>hook_inv\<close>), and which failures the collected errors hold
  (\<open>error_inv\<close>). Each is preserved by every step, one lemma per step.
\<close>

section \<open>Frames\<close>

lemma log_event_frame [simp]:
  "r_lc (log_event e s) = r_lc s" "r_ctx (log_event e s) = r_ctx s" "r_now (log_event e s) = r_now s"
  "r_pc (log_event e s) = r_pc s" "r_started (log_event e s) = r_started s"
  "r_gs (log_event e s) = r_gs s" "r_errs (log_event e s) = r_errs s"
  "r_cancelled (log_event e s) = r_cancelled s" "r_start_err (log_event e s) = r_start_err s"
  "r_stop_errs (log_event e s) = r_stop_errs s" "r_log (log_event e s) = r_log s @ [(r_now s, e)]"
  by (simp_all add: log_event_def)

lemma logf_frame [simp]:
  "r_lc (logf m a s) = r_lc s" "r_ctx (logf m a s) = r_ctx s" "r_now (logf m a s) = r_now s"
  "r_pc (logf m a s) = r_pc s" "r_started (logf m a s) = r_started s" "r_gs (logf m a s) = r_gs s"
  "r_errs (logf m a s) = r_errs s" "r_cancelled (logf m a s) = r_cancelled s"
  "r_start_err (logf m a s) = r_start_err s" "r_stop_errs (logf m a s) = r_stop_errs s"
  by (simp_all add: logf_def)

lemma begin_drain_frame [simp]:
  "r_lc (begin_drain s) = r_lc s" "r_ctx (begin_drain s) = r_ctx s" "r_now (begin_drain s) = r_now s"
  "r_pc (begin_drain s) = DrainHooks 0" "r_started (begin_drain s) = r_started s"
  "r_gs (begin_drain s) = r_gs s" "r_errs (begin_drain s) = r_errs s"
  "r_cancelled (begin_drain s) = r_cancelled s" "r_start_err (begin_drain s) = r_start_err s"
  "r_stop_errs (begin_drain s) = r_stop_errs s"
  by (simp_all add: begin_drain_def)

lemma life_of_log_event [simp]: "life_of (log_event e s) i = life_event i (life_of s i) e"
  by (simp add: life_of_def)

lemma life_of_logf [simp]: "life_of (logf m a s) i = life_of s i"
  by (simp add: logf_def)

lemma life_of_update [simp]:
  "life_of (s\<lparr>r_pc := a\<rparr>) i = life_of s i" "life_of (s\<lparr>r_gs := b\<rparr>) i = life_of s i"
  "life_of (s\<lparr>r_errs := c\<rparr>) i = life_of s i" "life_of (s\<lparr>r_started := d\<rparr>) i = life_of s i"
  "life_of (s\<lparr>r_cancelled := e\<rparr>) i = life_of s i" "life_of (s\<lparr>r_start_err := f\<rparr>) i = life_of s i"
  "life_of (s\<lparr>r_stop_errs := g\<rparr>) i = life_of s i" "life_of (s\<lparr>r_now := h\<rparr>) i = life_of s i"
  "life_of (s\<lparr>r_lc := k\<rparr>) i = life_of s i"
  by (simp_all add: life_of_def)

lemma life_of_begin_drain [simp]: "life_of (begin_drain s) i = life_of s i"
  by (simp add: begin_drain_def)

lemma Fatal_frame [simp]:
  "lc_comps (Fatal e l) = lc_comps l" "lc_errs (Fatal e l) = lc_errs l" "lc_cfg (Fatal e l) = lc_cfg l"
  "lc_startedHooks (Fatal e l) = lc_startedHooks l" "lc_drainHooks (Fatal e l) = lc_drainHooks l"
  "lc_id (Fatal e l) = lc_id l"
  by (simp_all add: Fatal_def split: option.split)

section \<open>What has happened to each component\<close>

fun start_life :: "goroutine \<Rightarrow> goerr option \<Rightarrow> life" where
  "start_life Calling e = Booting"
| "start_life Finished e = (if e = None then Up else Failed)"
| "start_life _ e = Fresh"

fun stop_life :: "goroutine \<Rightarrow> life" where
  "stop_life Calling = Halting"
| "stop_life Finished = Down"
| "stop_life _ = Up"

abbreviation level_at :: "run \<Rightarrow> nat \<Rightarrow> nat" where
  "level_at s i \<equiv> level_table (r_comps s) ! i"

text \<open>Outside the level being worked on.\<close>

definition booted_below :: "run \<Rightarrow> nat \<Rightarrow> nat \<Rightarrow> bool" where
  "booted_below s n i \<longleftrightarrow>
     life_of s i = (if level_at s i < n then Up else Fresh) \<and> r_started s ! i = (level_at s i < n)"

definition halted_from :: "run \<Rightarrow> nat \<Rightarrow> nat \<Rightarrow> bool" where
  "halted_from s m i \<longleftrightarrow>
     (if r_started s ! i then life_of s i = (if level_at s i < m then Up else Down)
      else life_of s i = Fresh \<or> life_of s i = Failed)"

text \<open>In the level being worked on, by position.\<close>

definition boots :: "run \<Rightarrow> nat \<Rightarrow> nat \<Rightarrow> bool" where
  "boots s n p \<longleftrightarrow>
     (let i = r_levels s ! n ! p
      in life_of s i = start_life (r_gs s ! p) (r_errs s ! p) \<and> r_started s ! i = (life_of s i = Up)
       \<and> (r_gs s ! p \<noteq> Finished \<longrightarrow> r_errs s ! p = None) \<and> r_gs s ! p \<noteq> Skipped)"

definition halts :: "run \<Rightarrow> nat \<Rightarrow> nat \<Rightarrow> bool" where
  "halts s n p \<longleftrightarrow>
     (let i = r_levels s ! n ! p
      in if r_started s ! i then r_gs s ! p \<noteq> Skipped \<and> life_of s i = stop_life (r_gs s ! p)
         else r_gs s ! p = Skipped \<and> (life_of s i = Fresh \<or> life_of s i = Failed))"

definition pc_inv :: "run \<Rightarrow> bool" where
  "pc_inv s =
     (let N = length (r_comps s); L = length (r_levels s) in
      case r_pc s of
        Before \<Rightarrow> (\<forall>i. life_of s i = Fresh)
      | NextLevel n \<Rightarrow> n \<le> L \<and> (\<forall>i < N. booted_below s n i)
      | Starting n \<Rightarrow> n < L
          \<and> length (r_gs s) = length (r_levels s ! n) \<and> length (r_errs s) = length (r_levels s ! n)
          \<and> (\<forall>i < N. level_at s i \<noteq> n \<longrightarrow> booted_below s n i)
          \<and> (\<forall>p < length (r_gs s). boots s n p)
          \<and> r_cancelled s = (\<exists>e \<in> set (r_errs s). e \<noteq> None)
      | NextStop m \<Rightarrow> m \<le> L \<and> (\<forall>i < N. halted_from s m i)
      | Stopping n \<Rightarrow> n < L
          \<and> length (r_gs s) = length (r_levels s ! n)
          \<and> (\<forall>i < N. level_at s i \<noteq> n \<longrightarrow> halted_from s n i)
          \<and> (\<forall>p < length (r_gs s). halts s n p)
      | Result e \<Rightarrow> (\<forall>i < N. life_of s i \<in> {Fresh, Failed, Down})
      | _ \<Rightarrow> (\<forall>i < N. life_of s i = Up \<and> r_started s ! i))"

definition life_inv :: "run \<Rightarrow> bool" where
  "life_inv s \<longleftrightarrow> wf_lifecycle (r_lc s)
     \<and> ((\<forall>e. r_pc s \<noteq> Result e) \<and> r_pc s \<noteq> Before \<longrightarrow>
          lc_errs (r_lc s) = [] \<and> length (r_started s) = length (r_comps s))
     \<and> (\<forall>i. length (r_comps s) \<le> i \<longrightarrow> life_of s i = Fresh)
     \<and> pc_inv s"

lemmas life_defs = life_inv_def pc_inv_def Let_def

text \<open>The component a goroutine works for.\<close>

lemma position_facts:
  assumes "n < length (levels cs)" "p < length (levels cs ! n)"
  shows "levels cs ! n ! p < length cs" "level_table cs ! (levels cs ! n ! p) = n"
    "\<And>q. q < length (levels cs ! n) \<Longrightarrow> levels cs ! n ! q = levels cs ! n ! p \<longleftrightarrow> q = p"
  using nth_mem [OF assms(2)] in_levels_iff [OF assms(1)] distinct_level [OF assms(1)] assms(2)
  by (auto simp: nth_eq_iff_index_eq)

lemma level_member:
  assumes "i < length cs"
  obtains p where "p < length (levels cs ! (level_table cs ! i))" "levels cs ! (level_table cs ! i) ! p = i"
  using in_levels_iff [OF level_in_range [OF assms], of i] assms by (auto simp: in_set_conv_nth)

section \<open>Preservation, step by step\<close>

lemma booted_frame:
  "booted_below (s\<lparr>r_pc := a\<rparr>) = booted_below s" "booted_below (s\<lparr>r_gs := b\<rparr>) = booted_below s"
  "booted_below (s\<lparr>r_errs := c\<rparr>) = booted_below s" "booted_below (s\<lparr>r_cancelled := e\<rparr>) = booted_below s"
  by (simp_all add: booted_below_def fun_eq_iff)

lemma halted_frame:
  "halted_from (s\<lparr>r_pc := a\<rparr>) = halted_from s" "halted_from (s\<lparr>r_gs := b\<rparr>) = halted_from s"
  "halted_from (s\<lparr>r_start_err := f\<rparr>) = halted_from s" "halted_from (s\<lparr>r_stop_errs := g\<rparr>) = halted_from s"
  by (simp_all add: halted_from_def fun_eq_iff)

lemma life_inv_init: "wf_lifecycle l \<Longrightarrow> life_inv (run_init l c now)"
  by (simp add: life_defs run_init_def life_of_def)

lemma life_inv_begin_drain:
  "life_inv s \<Longrightarrow> r_pc s = Waiting \<Longrightarrow> life_inv (begin_drain (logf m a s))"
  "life_inv s \<Longrightarrow> r_pc s = Waiting \<Longrightarrow> life_inv (begin_drain s)"
  by (simp_all add: life_defs)

lemma settled_boots:
  assumes "list_all settled (r_gs s)" "\<forall>p < length (r_gs s). boots s n p" "p < length (r_gs s)"
  shows "r_gs s ! p = Finished"
  using assms by (auto simp: list_all_length settled_def boots_def Let_def)

lemma settled_halts:
  assumes "list_all settled (r_gs s)" "\<forall>p < length (r_gs s). halts s n p" "p < length (r_gs s)"
  shows "halted_from s (level_at s (r_levels s ! n ! p)) (r_levels s ! n ! p)"
  using assms by (auto simp: list_all_length settled_def halts_def halted_from_def Let_def split: if_splits)

lemma boots_frame:
  "boots (s\<lparr>r_pc := a\<rparr>) = boots s" "boots (s\<lparr>r_cancelled := e\<rparr>) = boots s"
  by (simp_all add: boots_def fun_eq_iff)

lemma halts_frame: "halts (s\<lparr>r_pc := a\<rparr>) = halts s"
  by (simp add: halts_def fun_eq_iff)

lemma life_inv_next_level:
  assumes "life_inv s" "r_pc s = NextLevel n" "main_step s = Some s'"
  shows "life_inv s'"
proof (cases "n < length (r_levels s)")
  case True
  let ?k = "length (r_levels s ! n)"
  let ?t = "s\<lparr>r_pc := Starting n, r_gs := replicate ?k Spawned, r_errs := replicate ?k None, r_cancelled := False\<rparr>"
  have s': "s' = ?t" using assms(2,3) True by (simp add: main_step_def Let_def)
  have below: "\<forall>i < length (r_comps s). booted_below s n i"
    using assms(1,2) by (simp add: life_defs)
  have "boots ?t n p" if "p < ?k" for p
    using position_facts [OF True that] below that by (auto simp: boots_def booted_below_def)
  then show ?thesis
    using assms(1,2) True below
    by (auto simp: life_defs s' booted_below_def)
next
  case False
  then have s': "s' = s\<lparr>r_pc := StartedHooks 0\<rparr>" using assms(2,3) by (simp add: main_step_def)
  have "life_of s i = Up \<and> r_started s ! i" if "i < length (r_comps s)" for i
    using assms(1,2) False that level_in_range [OF that] by (auto simp: life_defs booted_below_def)
  then show ?thesis using assms(1,2) by (simp add: life_defs s')
qed

lemma starting_settled:
  assumes "life_inv s" "r_pc s = Starting n" "list_all settled (r_gs s)"
    and "i < length (r_comps s)" "level_at s i = n"
  obtains p where "p < length (r_errs s)" "life_of s i = (if r_errs s ! p = None then Up else Failed)"
    "r_started s ! i = (r_errs s ! p = None)"
proof -
  obtain p where p: "p < length (r_levels s ! n)" "r_levels s ! n ! p = i" using level_member [OF assms(4)] assms(5) by auto
  have inv: "length (r_gs s) = length (r_levels s ! n)" "length (r_errs s) = length (r_levels s ! n)"
    "\<forall>p < length (r_gs s). boots s n p"
    using assms(1,2) by (simp_all add: life_defs)
  show thesis
    using settled_boots [OF assms(3) inv(3), of p] inv p by (intro that [of p]) (auto simp: boots_def Let_def)
qed

lemma life_inv_starting_ends:
  assumes "life_inv s" "r_pc s = Starting n" "main_step s = Some s'"
  shows "life_inv s'"
proof -
  have settled: "list_all settled (r_gs s)" using assms(2,3) by (simp add: main_step_def split: if_splits)
  note here = starting_settled [OF assms(1,2) settled]
  have n: "n < length (r_levels s)" and away: "level_at s i \<noteq> n \<Longrightarrow> booted_below s n i" if "i < length (r_comps s)" for i
    using assms(1,2) that by (simp_all add: life_defs)
  show ?thesis
  proof (cases "join_errors (r_errs s)")
    case None
    then have no_err: "r_errs s ! p = None" if "p < length (r_errs s)" for p
      using that by (auto simp: join_errors_None_iff all_set_conv_all_nth)
    have "booted_below s (Suc n) i" if i: "i < length (r_comps s)" for i
    proof (cases "level_at s i = n")
      case True
      obtain p where "p < length (r_errs s)" "life_of s i = (if r_errs s ! p = None then Up else Failed)"
        "r_started s ! i = (r_errs s ! p = None)" by (rule here [OF i True])
      with no_err True show ?thesis by (simp add: booted_below_def)
    qed (use away [OF i] in \<open>auto simp: booted_below_def\<close>)
    moreover have "s' = s\<lparr>r_pc := NextLevel (n + 1)\<rparr>"
      using assms(2,3) settled None by (simp add: main_step_def)
    ultimately show ?thesis using assms(1,2) by (simp add: life_defs booted_frame)
  next
    case (Some e)
    have "halted_from s (length (r_levels s)) i" if i: "i < length (r_comps s)" for i
    proof (cases "level_at s i = n")
      case True
      obtain p where "life_of s i = (if r_errs s ! p = None then Up else Failed)" "r_started s ! i = (r_errs s ! p = None)"
        by (rule here [OF i True])
      with True n [OF i] show ?thesis by (simp add: halted_from_def)
    next
      case False
      then show ?thesis
        using away [OF i] level_in_range [OF i] by (auto simp: booted_below_def halted_from_def)
    qed
    moreover have "s' = s\<lparr>r_start_err := Some e, r_pc := NextStop (length (r_levels s))\<rparr>"
      using assms(2,3) settled Some by (simp add: main_step_def)
    ultimately show ?thesis using assms(1,2) by (simp add: life_defs halted_frame)
  qed
qed

lemma life_inv_stop_phases:
  assumes "life_inv s" "\<forall>i < length (r_comps s). life_of s i = Up \<and> r_started s ! i"
    "lc_errs (r_lc s) = []" "length (r_started s) = length (r_comps s)"
  shows "life_inv (s\<lparr>r_pc := NextStop (length (r_levels s))\<rparr>)"
  using assms level_in_range by (auto simp: life_defs halted_from_def)

lemma life_inv_next_stop:
  assumes "life_inv s" "r_pc s = NextStop m" "main_step s = Some s'"
  shows "life_inv s'"
proof (cases m)
  case 0
  then have "s' = s\<lparr>r_pc := Result (run_result s)\<rparr>" using assms(2,3) by (simp add: main_step_def)
  moreover have "life_of s i \<in> {Fresh, Failed, Down}" if "i < length (r_comps s)" for i
    using assms(1,2) 0 that by (auto simp: life_defs halted_from_def split: if_splits)
  ultimately show ?thesis using assms(1,2) by (simp add: life_defs)
next
  case (Suc n)
  let ?gs = "map (\<lambda>i. if r_started s ! i then Spawned else Skipped) (r_levels s ! n)"
  have s': "s' = s\<lparr>r_pc := Stopping n, r_gs := ?gs\<rparr>" using assms(2,3) Suc by (simp add: main_step_def)
  have inv: "Suc n \<le> length (r_levels s)" "\<forall>i < length (r_comps s). halted_from s (Suc n) i"
    using assms(1,2) Suc by (simp_all add: life_defs)
  then have "halts s' n p" if "p < length (r_levels s ! n)" for p
    using position_facts [of n "r_comps s" p] that
    by (auto simp: halts_def halted_from_def Let_def s' split: if_splits)
  moreover have "halted_from s n i" if "i < length (r_comps s)" "level_at s i \<noteq> n" for i
    using inv that by (auto simp: halted_from_def)
  ultimately show ?thesis
    using assms(1,2) inv(1) by (simp add: life_defs s' halted_frame)
qed

lemma life_inv_stopping_ends:
  assumes "life_inv s" "r_pc s = Stopping n" "main_step s = Some s'"
  shows "life_inv s'"
proof -
  have settled: "list_all settled (r_gs s)" and s': "s' = s\<lparr>r_pc := NextStop n\<rparr>"
    using assms(2,3) by (auto simp: main_step_def split: if_splits)
  have inv: "n < length (r_levels s)" "length (r_gs s) = length (r_levels s ! n)"
    "\<forall>i < length (r_comps s). level_at s i \<noteq> n \<longrightarrow> halted_from s n i"
    "\<forall>p < length (r_gs s). halts s n p"
    using assms(1,2) by (simp_all add: life_defs)
  have "halted_from s n i" if i: "i < length (r_comps s)" for i
  proof (cases "level_at s i = n")
    case True
    with level_member [OF i] obtain p where "p < length (r_levels s ! n)" "r_levels s ! n ! p = i" by auto
    with settled_halts [OF settled inv(4), of p] inv(2) True show ?thesis by auto
  next
    case False
    then show ?thesis using inv(3) i by simp
  qed
  then show ?thesis using assms(1,2) inv(1) by (simp add: life_defs s' halted_frame)
qed

lemma life_inv_main:
  assumes "life_inv s" "main_step s = Some s'"
  shows "life_inv s'"
proof (cases "r_pc s")
  case Before
  then show ?thesis
    using assms by (auto simp: life_defs main_step_def booted_below_def split: if_splits)
next
  case (StartedHooks k)
  then show ?thesis using assms by (auto simp: life_defs main_step_def split: if_splits)
next
  case (DrainHooks k)
  then show ?thesis
    using assms life_inv_stop_phases [of s]
    by (auto simp: main_step_def life_defs split: if_splits)
next
  case (Sleeping t)
  then show ?thesis
    using assms life_inv_stop_phases [of s]
    by (auto simp: main_step_def life_defs split: if_splits)
next
  case (NextLevel n) then show ?thesis by (rule life_inv_next_level [OF assms(1) _ assms(2)])
next
  case (Starting n) then show ?thesis by (rule life_inv_starting_ends [OF assms(1) _ assms(2)])
next
  case (NextStop n) then show ?thesis by (rule life_inv_next_stop [OF assms(1) _ assms(2)])
next
  case (Stopping n) then show ?thesis by (rule life_inv_stopping_ends [OF assms(1) _ assms(2)])
qed (use assms(2) in \<open>simp_all add: main_step_def\<close>)

text \<open>The goroutines of a level that starts.\<close>

lemma starting_frame:
  assumes "life_inv s" "r_pc s = Starting n" "p < length (r_gs s)"
  defines "i \<equiv> r_levels s ! n ! p"
  shows "n < length (r_levels s)" "p < length (r_levels s ! n)" "i < length (r_comps s)" "level_at s i = n"
    "\<And>q. q < length (r_gs s) \<Longrightarrow> r_levels s ! n ! q = i \<longleftrightarrow> q = p" "boots s n p"
    "\<And>j. j < length (r_comps s) \<Longrightarrow> level_at s j \<noteq> n \<Longrightarrow> booted_below s n j"
    "\<And>q. q < length (r_gs s) \<Longrightarrow> boots s n q" "length (r_errs s) = length (r_gs s)"
    "length (r_started s) = length (r_comps s)"
  using assms position_facts [of n "r_comps s" p] by (auto simp: life_defs)

lemma life_inv_call_start:
  assumes "life_inv s" "call_start p s = Some s'"
  shows "life_inv s'"
proof -
  obtain n where n: "r_pc s = Starting n" and p: "p < length (r_gs s)" "r_gs s ! p = Spawned"
    using assms(2) by (auto simp: call_start_def split: pc.splits if_splits)
  note f = starting_frame [OF assms(1) n p(1)]
  let ?i = "r_levels s ! n ! p"
  have s': "s' = (log_event (EvStart ?i (r_cancelled s \<or> ctx_done s))
      (logf ''starting component'' (c_name (r_comps s ! ?i)) s)) \<lparr>r_gs := (r_gs s)[p := Calling]\<rparr>"
    using assms(2) n p by (auto simp: call_start_def Let_def split: option.splits)
  have fresh: "life_of s ?i = Fresh" "\<not> r_started s ! ?i" "r_errs s ! p = None"
    using f(6) p(2) by (auto simp: boots_def Let_def)
  have life: "life_of s' j = (if j = ?i then Booting else life_of s j)" for j
    by (simp add: s' fresh)
  have "boots s' n q" if "q < length (r_gs s)" for q
    using f(8) [OF that] f(5) [OF that] fresh p(1)
    by (cases "q = p") (auto simp: boots_def Let_def life, simp_all add: s')
  moreover have "booted_below s' n j" if "j < length (r_comps s)" "level_at s j \<noteq> n" for j
    using f(7) [OF that] that f(4) by (auto simp: booted_below_def life, simp_all add: s')
  moreover have "length (r_comps s) \<le> j \<Longrightarrow> life_of s' j = life_of s j" for j
    using f(3) by (auto simp: life)
  moreover have "r_lc s' = r_lc s" "r_pc s' = Starting n" "r_started s' = r_started s"
    "length (r_gs s') = length (r_gs s)" "r_errs s' = r_errs s" "r_cancelled s' = r_cancelled s"
    by (simp_all add: s' n)
  ultimately show ?thesis using assms(1) n by (simp add: life_defs)
qed

lemma life_inv_start_returns:
  assumes "life_inv s" "start_returns p res s = Some s'"
  shows "life_inv s'"
proof -
  obtain n where n: "r_pc s = Starting n" and p: "p < length (r_gs s)" "r_gs s ! p = Calling"
    using assms(2) by (auto simp: start_returns_def split: pc.splits if_splits)
  note f = starting_frame [OF assms(1) n p(1)]
  let ?i = "r_levels s ! n ! p"
  let ?t = "(log_event (EvStartReturned ?i res) s)\<lparr>r_gs := (r_gs s)[p := Finished]\<rparr>"
  have s': "s' = (case res of
      Some e \<Rightarrow> ?t\<lparr>r_errs := (r_errs s)[p := Some (start_error (c_name (r_comps s ! ?i)) e)], r_cancelled := True\<rparr>
    | None \<Rightarrow> ?t\<lparr>r_started := (r_started s)[?i := True]\<rparr>)"
    using assms(2) n p by (simp add: start_returns_def Let_def)
  have booting: "life_of s ?i = Booting" "\<not> r_started s ! ?i" "r_errs s ! p = None"
    using f(6) p(2) by (auto simp: boots_def Let_def)
  have life: "life_of s' j = (if j = ?i then if res = None then Up else Failed else life_of s j)" for j
    by (cases res) (simp_all add: s' booting)
  have started: "r_started s' = (if res = None then (r_started s)[?i := True] else r_started s)"
    and errs: "r_errs s' = (case res of None \<Rightarrow> r_errs s
      | Some e \<Rightarrow> (r_errs s)[p := Some (start_error (c_name (r_comps s ! ?i)) e)])"
    and canc: "r_cancelled s' = (r_cancelled s \<or> res \<noteq> None)"
    and gs: "r_gs s' = (r_gs s)[p := Finished]" and lc: "r_lc s' = r_lc s" and pc: "r_pc s' = Starting n"
    by (simp_all add: s' n split: option.split)
  have "boots s' n q" if "q < length (r_gs s)" for q
    using f(8) [OF that] f(5) [OF that] booting p(1) f(3,9,10)
    by (cases "q = p"; cases res) (auto simp: boots_def Let_def life started errs gs lc nth_list_update)
  moreover have "booted_below s' n j" if "j < length (r_comps s)" "level_at s j \<noteq> n" for j
    using f(7) [OF that] that f(4) by (auto simp: booted_below_def life started lc nth_list_update)
  moreover have "length (r_comps s) \<le> j \<Longrightarrow> life_of s' j = life_of s j" for j
    using f(3) by (auto simp: life)
  moreover have "r_cancelled s' = (\<exists>e \<in> set (r_errs s'). e \<noteq> None)"
  proof (cases res)
    case None
    then show ?thesis using assms(1) n by (simp add: canc errs life_defs)
  next
    case (Some e)
    then show ?thesis using p(1) f(9) by (auto simp: canc errs set_conv_nth nth_list_update intro!: exI [of _ p])
  qed
  moreover have "length (r_started s') = length (r_started s)" "length (r_errs s') = length (r_errs s)"
    by (simp_all add: started errs split: option.split)
  ultimately show ?thesis using assms(1) n by (simp add: life_defs lc pc gs)
qed

text \<open>The goroutines of a level that stops.\<close>

lemma stopping_frame:
  assumes "life_inv s" "r_pc s = Stopping n" "p < length (r_gs s)"
  defines "i \<equiv> r_levels s ! n ! p"
  shows "n < length (r_levels s)" "p < length (r_levels s ! n)" "i < length (r_comps s)" "level_at s i = n"
    "\<And>q. q < length (r_gs s) \<Longrightarrow> r_levels s ! n ! q = i \<longleftrightarrow> q = p" "halts s n p"
    "\<And>j. j < length (r_comps s) \<Longrightarrow> level_at s j \<noteq> n \<Longrightarrow> halted_from s n j"
    "\<And>q. q < length (r_gs s) \<Longrightarrow> halts s n q" "length (r_started s) = length (r_comps s)"
  using assms position_facts [of n "r_comps s" p] by (auto simp: life_defs)

lemma life_inv_stop_goroutine:
  assumes "life_inv s" "r_pc s = Stopping n" "p < length (r_gs s)" "r_started s ! (r_levels s ! n ! p)"
    and "g \<noteq> Skipped" "\<And>j. life_of s' j = (if j = r_levels s ! n ! p then stop_life g else life_of s j)"
    and "r_gs s' = (r_gs s)[p := g]" "r_lc s' = r_lc s" "r_pc s' = Stopping n" "r_started s' = r_started s"
  shows "life_inv s'"
proof -
  note f = stopping_frame [OF assms(1-3)]
  have "halts s' n q" if "q < length (r_gs s)" for q
    using f(8) [OF that] f(5) [OF that] assms(3-10)
    by (cases "q = p") (auto simp: halts_def Let_def split: if_splits)
  moreover have "halted_from s' n j" if "j < length (r_comps s)" "level_at s j \<noteq> n" for j
    using f(7) [OF that] that f(4) assms(6-10) by (auto simp: halted_from_def split: if_splits)
  moreover have "length (r_comps s) \<le> j \<Longrightarrow> life_of s' j = life_of s j" for j
    using f(3) assms(6) by auto
  ultimately show ?thesis using assms(1,2,7-10) by (simp add: life_defs)
qed

lemma life_inv_call_stop:
  assumes "life_inv s" "call_stop p s = Some s'"
  shows "life_inv s'"
proof -
  obtain n where n: "r_pc s = Stopping n" and p: "p < length (r_gs s)" "r_gs s ! p = Spawned"
    using assms(2) by (auto simp: call_stop_def split: pc.splits if_splits)
  let ?i = "r_levels s ! n ! p"
  have s': "s' = (log_event (EvStop ?i (stop_ctx s ?i))
      (logf ''stopping component'' (c_name (r_comps s ! ?i)) s)) \<lparr>r_gs := (r_gs s)[p := Calling]\<rparr>"
    using assms(2) n p by (auto simp: call_stop_def Let_def split: option.splits)
  have "r_started s ! ?i \<and> life_of s ?i = Up"
    using stopping_frame(6) [OF assms(1) n p(1)] p(2) by (auto simp: halts_def Let_def split: if_splits)
  then show ?thesis
    by (intro life_inv_stop_goroutine [OF assms(1) n p(1), of Calling]) (simp_all add: s' n)
qed

lemma life_inv_stop_returns:
  assumes "life_inv s" "stop_returns p res s = Some s'"
  shows "life_inv s'"
proof -
  obtain n where n: "r_pc s = Stopping n" and p: "p < length (r_gs s)" "r_gs s ! p = Calling"
    using assms(2) by (auto simp: stop_returns_def split: pc.splits if_splits)
  let ?i = "r_levels s ! n ! p"
  let ?t = "(log_event (EvStopReturned ?i res) s)\<lparr>r_gs := (r_gs s)[p := Finished]\<rparr>"
  have s': "s' = (case res of
      Some e \<Rightarrow> ?t\<lparr>r_stop_errs := r_stop_errs s @ [stop_error (c_name (r_comps s ! ?i)) e]\<rparr> | None \<Rightarrow> ?t)"
    using assms(2) n p by (simp add: stop_returns_def Let_def)
  have "r_started s ! ?i \<and> life_of s ?i = Halting"
    using stopping_frame(6) [OF assms(1) n p(1)] p(2) by (auto simp: halts_def Let_def split: if_splits)
  then show ?thesis
    by (intro life_inv_stop_goroutine [OF assms(1) n p(1), of Finished])
       (simp_all add: s' n split: option.split)
qed

lemma life_inv_select:
  "life_inv s \<Longrightarrow> select_ctx s = Some s' \<Longrightarrow> life_inv s'"
  "life_inv s \<Longrightarrow> select_fatal s = Some s' \<Longrightarrow> life_inv s'"
  by (auto simp: select_ctx_def select_fatal_def life_inv_begin_drain split: if_splits)

lemma life_inv_environment:
  "life_inv s \<Longrightarrow> life_inv (s\<lparr>r_now := t\<rparr>)"
  "life_inv s \<Longrightarrow> life_inv (s\<lparr>r_lc := Fatal e (r_lc s)\<rparr>)"
  by (auto simp: life_inv_def pc_inv_def wf_Fatal booted_below_def halted_from_def boots_def halts_def
      Let_def split: pc.splits)

lemma life_inv_step:
  "life_inv s \<Longrightarrow> run_step a s = Some s' \<Longrightarrow> life_inv s'"
  by (cases a) (auto intro: life_inv_main life_inv_call_start life_inv_start_returns life_inv_call_stop
      life_inv_stop_returns life_inv_select life_inv_environment)

interpretation lives: invariant run_step "run_init l c now" "\<lambda>s. wf_lifecycle l \<longrightarrow> life_inv s" for l c now
  by unfold_locales (auto intro: life_inv_init life_inv_step)

lemma life_inv_reach:
  assumes "wf_lifecycle l" "run_reach l c now s"
  shows "life_inv s"
  using lives.holds [OF assms(2)] assms(1) by simp

end
