(* ===== verification/Lifecycle_Reports.thy ===== *)
theory Lifecycle_Reports
  imports Lifecycle_Inv
begin

text \<open>
  What \<open>Run\<close> has told the outside: the hooks it has called (\<open>hook_inv\<close>) and the failures it has
  collected for its return value (\<open>error_inv\<close>), both read off the log; and the measure that every
  step of the program decreases.
\<close>

section \<open>Readings of the log\<close>

definition started_hooks :: "(time \<times> event) list \<Rightarrow> func list" where
  "started_hooks log = concat (map (\<lambda>(t, e). case e of EvStartedHook f \<Rightarrow> [f] | _ \<Rightarrow> []) log)"

definition drain_hooks :: "(time \<times> event) list \<Rightarrow> (time \<times> func) list" where
  "drain_hooks log = concat (map (\<lambda>(t, e). case e of EvDrainHook f \<Rightarrow> [(t, f)] | _ \<Rightarrow> []) log)"

definition start_failures :: "component list \<Rightarrow> (time \<times> event) list \<Rightarrow> goerr list" where
  "start_failures cs log = concat (map (\<lambda>(t, e). case e of
     EvStartReturned i (Some err) \<Rightarrow> [start_error (c_name (cs ! i)) err] | _ \<Rightarrow> []) log)"

definition stop_failures :: "component list \<Rightarrow> (time \<times> event) list \<Rightarrow> goerr list" where
  "stop_failures cs log = concat (map (\<lambda>(t, e). case e of
     EvStopReturned i (Some err) \<Rightarrow> [stop_error (c_name (cs ! i)) err] | _ \<Rightarrow> []) log)"

lemmas readings = started_hooks_def drain_hooks_def start_failures_def stop_failures_def

lemma readings_Nil [simp]:
  "started_hooks [] = []" "drain_hooks [] = []" "start_failures cs [] = []" "stop_failures cs [] = []"
  by (simp_all add: readings)

lemma readings_snoc [simp]:
  "started_hooks (log @ [(t, e)]) = started_hooks log @ (case e of EvStartedHook f \<Rightarrow> [f] | _ \<Rightarrow> [])"
  "drain_hooks (log @ [(t, e)]) = drain_hooks log @ (case e of EvDrainHook f \<Rightarrow> [(t, f)] | _ \<Rightarrow> [])"
  "start_failures cs (log @ [(t, e)]) = start_failures cs log
     @ (case e of EvStartReturned i (Some err) \<Rightarrow> [start_error (c_name (cs ! i)) err] | _ \<Rightarrow> [])"
  "stop_failures cs (log @ [(t, e)]) = stop_failures cs log
     @ (case e of EvStopReturned i (Some err) \<Rightarrow> [stop_error (c_name (cs ! i)) err] | _ \<Rightarrow> [])"
  by (simp_all add: readings)

lemma readings_logf [simp]:
  "started_hooks (r_log (logf m a s)) = started_hooks (r_log s)"
  "drain_hooks (r_log (logf m a s)) = drain_hooks (r_log s)"
  "start_failures cs (r_log (logf m a s)) = start_failures cs (r_log s)"
  "stop_failures cs (r_log (logf m a s)) = stop_failures cs (r_log s)"
  by (simp_all add: logf_def)

lemma readings_begin_drain [simp]:
  "started_hooks (r_log (begin_drain s)) = started_hooks (r_log s)"
  "drain_hooks (r_log (begin_drain s)) = drain_hooks (r_log s)"
  "start_failures cs (r_log (begin_drain s)) = start_failures cs (r_log s)"
  "stop_failures cs (r_log (begin_drain s)) = stop_failures cs (r_log s)"
  by (simp_all add: begin_drain_def)

section \<open>Hooks\<close>

definition drain_delay :: "run \<Rightarrow> int" where
  "drain_delay s = max 0 (sint (cfg_DrainDelay (lc_cfg (r_lc s))))"

text \<open>Every hook of the list ran at least \<open>d\<close> before \<open>now\<close>.\<close>

definition run_before :: "(time \<times> func) list \<Rightarrow> int \<Rightarrow> time \<Rightarrow> bool" where
  "run_before hs d now \<longleftrightarrow> (\<forall>(t, f) \<in> set hs. t + d \<le> now)"

lemma run_before_simps [simp]:
  "run_before [] d now" "run_before (hs @ [(t, f)]) d now \<longleftrightarrow> run_before hs d now \<and> t + d \<le> now"
  by (auto simp: run_before_def)

lemma run_before_mono: "run_before hs d u \<Longrightarrow> u \<le> now \<Longrightarrow> run_before hs d now"
  by (fastforce simp: run_before_def)

lemma run_before_tick [intro]: "run_before hs d u \<Longrightarrow> run_before hs d (u + int k)"
  by (erule run_before_mono) simp

lemma run_before_delay: "run_before hs 0 now \<Longrightarrow> run_before hs d (now + d)"
  by (auto simp: run_before_def)

definition hooks_before_stop :: "run \<Rightarrow> bool" where
  "hooks_before_stop s \<longleftrightarrow>
     (if r_start_err s = None
      then started_hooks (r_log s) = lc_startedHooks (r_lc s)
        \<and> map snd (drain_hooks (r_log s)) = lc_drainHooks (r_lc s)
        \<and> run_before (drain_hooks (r_log s)) (drain_delay s) (r_now s)
      else started_hooks (r_log s) = [] \<and> drain_hooks (r_log s) = [])"

definition hook_inv :: "run \<Rightarrow> bool" where
  "hook_inv s \<longleftrightarrow>
     (case r_pc s of
        StartedHooks k \<Rightarrow> k \<le> length (lc_startedHooks (r_lc s)) \<and> r_start_err s = None
          \<and> started_hooks (r_log s) = take k (lc_startedHooks (r_lc s)) \<and> drain_hooks (r_log s) = []
      | Waiting \<Rightarrow> r_start_err s = None
          \<and> started_hooks (r_log s) = lc_startedHooks (r_lc s) \<and> drain_hooks (r_log s) = []
      | DrainHooks k \<Rightarrow> k \<le> length (lc_drainHooks (r_lc s)) \<and> r_start_err s = None
          \<and> started_hooks (r_log s) = lc_startedHooks (r_lc s)
          \<and> map snd (drain_hooks (r_log s)) = take k (lc_drainHooks (r_lc s))
          \<and> run_before (drain_hooks (r_log s)) 0 (r_now s)
      | Sleeping u \<Rightarrow> r_start_err s = None
          \<and> started_hooks (r_log s) = lc_startedHooks (r_lc s)
          \<and> map snd (drain_hooks (r_log s)) = lc_drainHooks (r_lc s)
          \<and> run_before (drain_hooks (r_log s)) (drain_delay s) u
      | NextStop m \<Rightarrow> hooks_before_stop s
      | Stopping n \<Rightarrow> hooks_before_stop s
      | Result e \<Rightarrow> True
      | _ \<Rightarrow> r_start_err s = None \<and> started_hooks (r_log s) = [] \<and> drain_hooks (r_log s) = [])"

lemma hook_inv_init: "hook_inv (run_init l c now)"
  by (simp add: hook_inv_def run_init_def)

lemma hook_inv_main:
  assumes "hook_inv s" "main_step s = Some s'"
  shows "hook_inv s'"
proof (cases "r_pc s")
  case (StartedHooks k)
  then show ?thesis using assms
    by (auto simp: hook_inv_def main_step_def take_Suc_conv_app_nth split: if_splits)
next
  case (DrainHooks k)
  then show ?thesis using assms
    by (auto simp: hook_inv_def main_step_def hooks_before_stop_def drain_delay_def take_Suc_conv_app_nth
        run_before_delay split: if_splits)
next
  case (Sleeping u)
  then show ?thesis using assms
    by (auto simp: hook_inv_def main_step_def hooks_before_stop_def drain_delay_def
        intro: run_before_mono split: if_splits)
next
  case (Starting n)
  then show ?thesis using assms
    by (auto simp: hook_inv_def main_step_def hooks_before_stop_def split: if_splits option.splits)
qed (use assms in \<open>auto simp: hook_inv_def main_step_def hooks_before_stop_def drain_delay_def Let_def
      split: if_splits nat.splits\<close>)

lemma hook_inv_tick:
  assumes "hook_inv s"
  shows "hook_inv (s\<lparr>r_now := r_now s + int d\<rparr>)"
  using assms
  by (cases "r_pc s"; cases "r_start_err s") (auto simp: hook_inv_def hooks_before_stop_def drain_delay_def)

text \<open>What no goroutine of a level touches.\<close>

lemma goroutine_frame:
  assumes "call_start p s = Some s' \<or> start_returns p res s = Some s'
    \<or> call_stop p s = Some s' \<or> stop_returns p res s = Some s'"
  shows "r_pc s' = r_pc s" "r_lc s' = r_lc s" "r_ctx s' = r_ctx s" "r_now s' = r_now s"
    "r_start_err s' = r_start_err s"
    "started_hooks (r_log s') = started_hooks (r_log s)" "drain_hooks (r_log s') = drain_hooks (r_log s)"
  using assms
  by (elim disjE; auto simp: call_start_def start_returns_def call_stop_def stop_returns_def Let_def
      split: pc.splits if_splits option.splits)+

lemma hook_inv_cong:
  assumes "r_pc s' = r_pc s" "r_lc s' = r_lc s" "r_now s' = r_now s" "r_start_err s' = r_start_err s"
    "started_hooks (r_log s') = started_hooks (r_log s)" "drain_hooks (r_log s') = drain_hooks (r_log s)"
  shows "hook_inv s' = hook_inv s"
  by (cases "r_pc s") (simp_all add: hook_inv_def hooks_before_stop_def drain_delay_def assms)

lemma hook_inv_goroutine:
  assumes "call_start p s = Some s' \<or> start_returns p res s = Some s'
    \<or> call_stop p s = Some s' \<or> stop_returns p res s = Some s'" "hook_inv s"
  shows "hook_inv s'"
  using goroutine_frame [OF assms(1)] assms(2) by (simp add: hook_inv_cong [of s' s])

lemma hook_inv_fatal:
  "hook_inv s \<Longrightarrow> hook_inv (s\<lparr>r_lc := Fatal e (r_lc s)\<rparr>)"
  by (cases "r_pc s"; cases "r_start_err s") (simp_all add: hook_inv_def hooks_before_stop_def drain_delay_def)

lemma hook_inv_step:
  assumes "hook_inv s" "run_step a s = Some s'"
  shows "hook_inv s'"
proof (cases a)
  case Main
  then show ?thesis using assms hook_inv_main by simp
next
  case (Tick d)
  then show ?thesis using assms hook_inv_tick by auto
next
  case (CallFatal e)
  then show ?thesis using assms hook_inv_fatal by auto
next
  case SelectCtx
  then show ?thesis using assms by (auto simp: hook_inv_def select_ctx_def split: if_splits)
next
  case SelectFatal
  then show ?thesis using assms by (auto simp: hook_inv_def select_fatal_def split: if_splits)
qed (use assms hook_inv_goroutine in auto)

interpretation hooks: invariant run_step "run_init l c now" hook_inv for l c now
  by unfold_locales (rule hook_inv_init, rule hook_inv_step)

lemmas hook_inv_reach = hooks.holds

section \<open>Failures\<close>

text \<open>The error of a start level, against the failures of the log.\<close>

definition reports_starts :: "goerr option \<Rightarrow> goerr list \<Rightarrow> bool" where
  "reports_starts r fs \<longleftrightarrow>
     (case r of None \<Rightarrow> fs = []
      | Some e \<Rightarrow> fs \<noteq> [] \<and> (\<exists>es. e = Joined es \<and> set es = set fs))"

definition error_inv :: "run \<Rightarrow> bool" where
  "error_inv s \<longleftrightarrow>
     r_stop_errs s = stop_failures (r_comps s) (r_log s)
     \<and> (let fs = start_failures (r_comps s) (r_log s) in
        case r_pc s of
          Starting n \<Rightarrow> r_start_err s = None \<and> set fs = {e. Some e \<in> set (r_errs s)}
            \<and> length (r_errs s) = length (r_gs s) \<and> (\<forall>p < length (r_gs s). r_gs s ! p \<noteq> Finished \<longrightarrow> r_errs s ! p = None)
        | NextStop m \<Rightarrow> reports_starts (r_start_err s) fs
        | Stopping n \<Rightarrow> reports_starts (r_start_err s) fs
        | Result e \<Rightarrow> reports_starts (r_start_err s) fs
        | _ \<Rightarrow> r_start_err s = None \<and> fs = [])"

lemma error_inv_init: "error_inv (run_init l c now)"
  by (simp add: error_inv_def run_init_def)

lemma reports_starts_join:
  assumes "set fs = {e. Some e \<in> set es}"
  shows "reports_starts (join_errors es) fs"
proof (cases "somes es")
  case Nil
  then have "set fs = {}" using assms by (auto simp: somes_eq_Nil_iff)
  then have "fs = []" by simp
  then show ?thesis by (simp add: reports_starts_def join_errors_def Nil)
next
  case (Cons x xs)
  then have "set (x # xs) = set fs" using assms set_somes [of es] by simp
  then show ?thesis by (auto simp: reports_starts_def join_errors_def Cons)
qed

lemma error_inv_main:
  assumes "error_inv s" "main_step s = Some s'"
  shows "error_inv s'"
proof (cases "r_pc s")
  case (Starting n)
  have "set (start_failures (r_comps s) (r_log s)) = {e. Some e \<in> set (r_errs s)}"
    using assms(1) Starting by (simp add: error_inv_def)
  from reports_starts_join [OF this] show ?thesis
    using assms Starting
    by (auto simp: error_inv_def main_step_def reports_starts_def split: if_splits option.splits)
next
  case Before
  then show ?thesis using assms by (auto simp: error_inv_def main_step_def reports_starts_def split: if_splits)
next
  case (NextLevel n)
  then show ?thesis using assms by (auto simp: error_inv_def main_step_def Let_def split: if_splits)
next
  case (StartedHooks k)
  then show ?thesis using assms by (auto simp: error_inv_def main_step_def Let_def split: if_splits)
next
  case (DrainHooks k)
  then show ?thesis using assms
    by (auto simp: error_inv_def main_step_def Let_def reports_starts_def split: if_splits)
next
  case (Sleeping u)
  then show ?thesis using assms
    by (auto simp: error_inv_def main_step_def Let_def reports_starts_def split: if_splits)
next
  case (NextStop m)
  then show ?thesis using assms by (auto simp: error_inv_def main_step_def Let_def split: nat.splits)
next
  case (Stopping n)
  then show ?thesis using assms by (auto simp: error_inv_def main_step_def Let_def split: if_splits)
qed (use assms(2) in \<open>simp_all add: main_step_def\<close>)

lemma error_inv_call:
  assumes "error_inv s" "call_start p s = Some s' \<or> call_stop p s = Some s'"
  shows "error_inv s'"
proof -
  show ?thesis
    using assms(2)
  proof
    assume call: "call_start p s = Some s'"
    then obtain n where "r_pc s = Starting n" by (auto simp: call_start_def split: pc.splits)
    with call assms(1) show ?thesis
      by (auto simp: error_inv_def call_start_def Let_def nth_list_update split: if_splits option.splits)
  next
    assume call: "call_stop p s = Some s'"
    then obtain n where "r_pc s = Stopping n" by (auto simp: call_stop_def split: pc.splits)
    with call assms(1) show ?thesis
      by (auto simp: error_inv_def call_stop_def Let_def split: if_splits option.splits)
  qed
qed

lemma set_update_None:
  assumes "p < length xs" "xs ! p = None"
  shows "{e. Some e \<in> set (xs[p := Some x])} = insert x {e. Some e \<in> set xs}"
  using assms by (auto simp: in_set_conv_nth nth_list_update) (metis option.distinct(1))

lemma error_inv_return:
  assumes "error_inv s" "start_returns p res s = Some s' \<or> stop_returns p res s = Some s'"
  shows "error_inv s'"
  using assms(2)
proof
  assume ret: "start_returns p res s = Some s'"
  then obtain n where n: "r_pc s = Starting n" "p < length (r_gs s)" "r_gs s ! p = Calling"
    by (auto simp: start_returns_def split: pc.splits if_splits)
  then have "p < length (r_errs s)" "r_errs s ! p = None" using assms(1) by (simp_all add: error_inv_def)
  note upd = set_update_None [OF this]
  show ?thesis
  proof (cases res)
    case None
    with ret n assms(1) show ?thesis
      by (auto simp: error_inv_def start_returns_def Let_def nth_list_update)
  next
    case (Some e)
    with ret n assms(1) upd show ?thesis
      by (auto simp: error_inv_def start_returns_def Let_def nth_list_update)
  qed
next
  assume ret: "stop_returns p res s = Some s'"
  then obtain n where n: "r_pc s = Stopping n" "p < length (r_gs s)" "r_gs s ! p = Calling"
    by (auto simp: stop_returns_def split: pc.splits if_splits)
  with ret assms(1) show ?thesis
    by (cases res) (auto simp: error_inv_def stop_returns_def Let_def)
qed

lemma error_inv_fatal: "error_inv s \<Longrightarrow> error_inv (s\<lparr>r_lc := Fatal e (r_lc s)\<rparr>)"
  by (cases "r_pc s") (simp_all add: error_inv_def Let_def)

lemma error_inv_tick: "error_inv s \<Longrightarrow> error_inv (s\<lparr>r_now := t\<rparr>)"
  by (cases "r_pc s") (simp_all add: error_inv_def Let_def)

lemma error_inv_select:
  "error_inv s \<Longrightarrow> select_ctx s = Some s' \<or> select_fatal s = Some s' \<Longrightarrow> error_inv s'"
  by (auto simp: error_inv_def select_ctx_def select_fatal_def Let_def split: if_splits)

lemma error_inv_step:
  "error_inv s \<Longrightarrow> run_step a s = Some s' \<Longrightarrow> error_inv s'"
  by (cases a) (auto intro: error_inv_main error_inv_call error_inv_return error_inv_fatal error_inv_tick
      error_inv_select)

interpretation errors: invariant run_step "run_init l c now" error_inv for l c now
  by unfold_locales (rule error_inv_init, rule error_inv_step)

lemmas error_inv_reach = errors.holds

section \<open>Steps left\<close>

fun work :: "goroutine \<Rightarrow> nat" where
  "work Spawned = 2"
| "work Calling = 1"
| "work _ = 0"

definition total_work :: "goroutine list \<Rightarrow> nat" where
  "total_work gs = sum_list (map work gs)"

text \<open>The phase, the place within it and the work left in the level.\<close>

definition phase :: "run \<Rightarrow> nat" where
  "phase s = (case r_pc s of Before \<Rightarrow> 9 | NextLevel n \<Rightarrow> 8 | Starting n \<Rightarrow> 8 | StartedHooks k \<Rightarrow> 7
     | Waiting \<Rightarrow> 6 | DrainHooks k \<Rightarrow> 5 | Sleeping t \<Rightarrow> 4 | NextStop m \<Rightarrow> 3 | Stopping n \<Rightarrow> 3 | Result e \<Rightarrow> 0)"

definition place :: "run \<Rightarrow> nat" where
  "place s = (case r_pc s of
       NextLevel n \<Rightarrow> 2 * (length (r_levels s) - n) + 1
     | Starting n \<Rightarrow> 2 * (length (r_levels s) - n)
     | StartedHooks k \<Rightarrow> length (lc_startedHooks (r_lc s)) - k
     | DrainHooks k \<Rightarrow> length (lc_drainHooks (r_lc s)) - k
     | NextStop m \<Rightarrow> 2 * m
     | Stopping n \<Rightarrow> 2 * n + 1
     | _ \<Rightarrow> 0)"

definition steps_left :: "(run \<times> run) set" where
  "steps_left = measures [phase, place, \<lambda>s. total_work (r_gs s)]"

lemma wf_steps_left: "wf steps_left"
  by (simp add: steps_left_def)

lemma total_work_update:
  "p < length gs \<Longrightarrow> work g < work (gs ! p) \<Longrightarrow> total_work (gs[p := g]) < total_work gs"
  unfolding total_work_def
  by (induction gs arbitrary: p) (auto split: nat.split simp: nth_Cons')

definition is_program :: "action \<Rightarrow> bool" where
  "is_program a \<longleftrightarrow> (case a of Tick d \<Rightarrow> False | CallFatal e \<Rightarrow> False | _ \<Rightarrow> True)"

lemma main_step_decreases:
  assumes "main_step s = Some s'" "\<And>n. r_pc s = Starting n \<Longrightarrow> n < length (r_levels s)"
  shows "(s', s) \<in> steps_left"
  using assms
  by (cases "r_pc s")
     (auto simp: main_step_def steps_left_def phase_def place_def Let_def
       split: if_splits option.splits nat.splits)

lemma goroutine_decreases:
  assumes "call_start p s = Some s' \<or> start_returns p res s = Some s'
    \<or> call_stop p s = Some s' \<or> stop_returns p res s = Some s'"
  shows "(s', s) \<in> steps_left"
proof -
  have "p < length (r_gs s) \<and> (\<exists>g. r_gs s' = (r_gs s)[p := g] \<and> work g < work (r_gs s ! p))"
    using assms by (elim disjE) (auto simp: call_start_def start_returns_def call_stop_def stop_returns_def
        Let_def split: pc.splits if_splits option.splits)
  then have "total_work (r_gs s') < total_work (r_gs s)" using total_work_update by auto
  moreover have "phase s' = phase s" "place s' = place s"
    using goroutine_frame(1,2) [OF assms] by (simp_all add: phase_def place_def split: pc.split)
  ultimately show ?thesis by (simp add: steps_left_def)
qed

lemma program_step_decreases:
  assumes "life_inv s" "is_program a" "run_step a s = Some s'"
  shows "(s', s) \<in> steps_left"
proof -
  have "(s', s) \<in> steps_left" if "select_ctx s = Some s' \<or> select_fatal s = Some s'"
    using that by (auto simp: select_ctx_def select_fatal_def steps_left_def phase_def split: if_splits)
  moreover have "n < length (r_levels s)" if "r_pc s = Starting n" for n
    using assms(1) that by (simp add: life_defs)
  then have "(s', s) \<in> steps_left" if "main_step s = Some s'"
    using main_step_decreases [OF that] by blast
  ultimately show ?thesis
    using assms(2,3) by (cases a) (auto simp: is_program_def intro: goroutine_decreases)
qed

end
