(* ===== verification/Lifecycle_Props.thy ===== *)
theory Lifecycle_Props
  imports Lifecycle_Reports
begin

text \<open>
  The properties of package \<open>lifecycle\<close>: registration, the order of starts and stops in every
  interleaving of \<open>Run\<close>, the hooks, the errors it returns, and that it returns.
\<close>

section \<open>A normal shutdown stops everything\<close>

definition complete_inv :: "run \<Rightarrow> bool" where
  "complete_inv s \<longleftrightarrow>
     (case r_pc s of
        NextStop m \<Rightarrow> r_start_err s = None \<longrightarrow> (\<forall>i < length (r_comps s). r_started s ! i)
      | Stopping n \<Rightarrow> r_start_err s = None \<longrightarrow> (\<forall>i < length (r_comps s). r_started s ! i)
      | Result e \<Rightarrow> lc_errs (r_lc s) = [] \<and> r_start_err s = None \<longrightarrow>
          (\<forall>i < length (r_comps s). life_of s i = Down)
      | _ \<Rightarrow> True)"

lemma complete_inv_main:
  assumes "life_inv s" "complete_inv s" "main_step s = Some s'"
  shows "complete_inv s'"
proof (cases "r_pc s")
  case (NextStop m)
  show ?thesis
  proof (cases m)
    case 0
    then show ?thesis using assms NextStop
      by (auto simp: complete_inv_def life_defs main_step_def halted_from_def)
  next
    case (Suc n)
    then show ?thesis using assms NextStop by (auto simp: complete_inv_def main_step_def)
  qed
next
  case (DrainHooks k)
  then show ?thesis using assms
    by (auto simp: complete_inv_def life_defs main_step_def split: if_splits)
next
  case (Sleeping u)
  then show ?thesis using assms
    by (auto simp: complete_inv_def life_defs main_step_def split: if_splits)
qed (use assms in \<open>auto simp: complete_inv_def main_step_def Let_def split: if_splits option.splits\<close>)

lemma complete_inv_step:
  assumes "life_inv s" "complete_inv s" "run_step a s = Some s'"
  shows "complete_inv s'"
proof (cases a)
  case Main
  then show ?thesis using assms complete_inv_main by simp
next
  case (StopReturns p r)
  then show ?thesis using assms
    by (auto simp: complete_inv_def stop_returns_def Let_def split: pc.splits if_splits option.splits)
next
  case (CallFatal e)
  then show ?thesis using assms by (cases "r_pc s") (auto simp: complete_inv_def)
next
  case (Tick d)
  then show ?thesis using assms by (cases "r_pc s") (auto simp: complete_inv_def)
qed (use assms in \<open>auto simp: complete_inv_def step_defs Let_def split: pc.splits if_splits option.splits\<close>)

interpretation complete: supported run_step "run_init l c now" "\<lambda>s. wf_lifecycle l \<longrightarrow> life_inv s"
    "\<lambda>s. wf_lifecycle l \<longrightarrow> complete_inv s" for l c now
  by unfold_locales (simp add: complete_inv_def run_init_def, blast intro: complete_inv_step)

lemma complete_inv_reach:
  assumes "wf_lifecycle l" "run_reach l c now s"
  shows "complete_inv s"
  using complete.also_holds [OF assms(2)] assms(1) by simp

section \<open>Progress\<close>

lemma not_settled:
  assumes "\<not> list_all settled gs"
  obtains p where "p < length gs" "gs ! p = Spawned \<or> gs ! p = Calling"
  using assms by (auto simp: list_all_length settled_def) (metis goroutine.exhaust)

lemma main_progress: "main_step s \<noteq> None \<Longrightarrow> \<exists>a s'. is_program a \<and> run_step a s = Some s'"
  by (auto intro!: exI [of _ Main] simp: is_program_def)

lemma starting_progress:
  assumes "life_inv s" "r_pc s = Starting n"
  shows "\<exists>a s'. is_program a \<and> run_step a s = Some s'"
proof (cases "list_all settled (r_gs s)")
  case True
  then show ?thesis using assms(2) by (intro main_progress) (simp add: main_step_def split: option.split)
next
  case False
  then obtain p where p: "p < length (r_gs s)" "r_gs s ! p = Spawned \<or> r_gs s ! p = Calling"
    by (rule not_settled)
  have "c_start (r_comps s ! (r_levels s ! n ! p)) \<noteq> None"
    using assms starting_frame(3) [OF assms p(1)] by (auto simp: life_inv_def wf_lifecycle_def dest: nth_mem)
  with p assms(2) show ?thesis
    by (auto simp: call_start_def start_returns_def is_program_def Let_def
        intro: exI [of _ "CallStart p"] exI [of _ "StartReturns p None"])
qed

lemma stopping_progress:
  assumes "life_inv s" "r_pc s = Stopping n"
  shows "\<exists>a s'. is_program a \<and> run_step a s = Some s'"
proof (cases "list_all settled (r_gs s)")
  case True
  then show ?thesis using assms(2) by (intro main_progress) (simp add: main_step_def)
next
  case False
  then obtain p where p: "p < length (r_gs s)" "r_gs s ! p = Spawned \<or> r_gs s ! p = Calling"
    by (rule not_settled)
  have "c_stop (r_comps s ! (r_levels s ! n ! p)) \<noteq> None"
    using assms stopping_frame(3) [OF assms p(1)] by (auto simp: life_inv_def wf_lifecycle_def dest: nth_mem)
  with p assms(2) show ?thesis
    by (auto simp: call_stop_def stop_returns_def is_program_def Let_def
        intro: exI [of _ "CallStop p"] exI [of _ "StopReturns p None"])
qed

lemma progress:
  assumes "life_inv s" "\<And>e. r_pc s \<noteq> Result e"
    and "r_pc s = Waiting \<Longrightarrow> ctx_done s \<or> lc_fatalCh (r_lc s)"
    and "\<And>t. r_pc s = Sleeping t \<Longrightarrow> t \<le> r_now s"
  shows "\<exists>a s'. is_program a \<and> run_step a s = Some s'"
proof (cases "r_pc s")
  case Waiting
  then show ?thesis using assms(3)
    by (auto simp: select_ctx_def select_fatal_def is_program_def intro: exI [of _ SelectCtx] exI [of _ SelectFatal])
next
  case (Starting n)
  then show ?thesis by (rule starting_progress [OF assms(1)])
next
  case (Stopping n)
  then show ?thesis by (rule stopping_progress [OF assms(1)])
qed (use assms main_progress [of s] in \<open>auto simp: main_step_def Let_def split: nat.split\<close>)

section \<open>No component's life is broken\<close>

lemma start_life_not_broken [simp]: "start_life g e \<noteq> Broken"
  by (cases "(g, e)" rule: start_life.cases) simp_all

lemma stop_life_not_broken [simp]: "stop_life g \<noteq> Broken"
  by (cases g) simp_all

lemma life_inv_not_broken:
  assumes "life_inv s"
  shows "life_of s i \<noteq> Broken"
proof (cases "i < length (r_comps s)")
  case False
  then show ?thesis using assms by (simp add: life_inv_def)
next
  case True
  obtain p where p: "p < length (r_levels s ! level_at s i)" "r_levels s ! level_at s i ! p = i"
    using level_member [OF True] by blast
  show ?thesis
  proof (cases "r_pc s")
    case (Starting n)
    then show ?thesis using assms True p
      by (cases "level_at s i = n") (auto simp: life_defs booted_below_def boots_def)
  next
    case (Stopping n)
    then show ?thesis using assms True p
      by (cases "level_at s i = n"; cases "r_started s ! i")
         (auto simp: life_defs halted_from_def halts_def)
  qed (use assms True in \<open>auto simp: life_defs booted_below_def halted_from_def split: if_splits\<close>)
qed

section \<open>A service for the witnesses\<close>

text \<open>A database and a server that depends on it, with one hook of each kind; a signal at time 5.\<close>

definition demo :: lifecycle where
  "demo = fst (lifecycle_Add (fst (lifecycle_Add
      (OnDrain (OnStarted (lifecycle_New 7 \<lparr>cfg_DrainDelay = 2, cfg_StopTimeout = 0, cfg_Logger = True\<rparr>) 90) 91)
      ''db'' (Some 0) (Some 1) [])) ''http'' (Some 2) (Some 3) [After [\<lparr>ref_owner = 7, ref_i = 0\<rparr>]])"

definition demo_ctx :: ctx where
  "demo_ctx = background\<lparr>ctx_done_at := Some (5, Canceled)\<rparr>"

definition boot :: "action list" where
  "boot = [Main, Main, CallStart 0, StartReturns 0 None, Main, Main]"

definition booted :: "action list" where
  "booted = boot @ [CallStart 0, StartReturns 0 None, Main, Main, Main, Main]"

definition draining :: "action list" where
  "draining = booted @ [Tick 5, SelectCtx, Main, Main, Tick 2, Main, Main]"

definition stopped :: "action list" where
  "stopped = draining @ [CallStop 0, StopReturns 0 (Some Canceled), Main, Main, CallStop 0, StopReturns 0 None, Main]"

lemma wf_demo: "wf_lifecycle demo"
  unfolding demo_def by (intro wf_Add) simp

section \<open>Properties\<close>

definition declared_refs :: "comp_option list \<Rightarrow> ref list" where
  "declared_refs opts = concat (map (\<lambda>x. case x of After rs \<Rightarrow> rs | StopTimeout d \<Rightarrow> []) opts)"

lemma declared_refs_fold:
  "c_afterRefs (fold apply_option opts c) = c_afterRefs c @ declared_refs opts"
proof (induction opts arbitrary: c)
  case (Cons x opts)
  then show ?case by (cases x) (simp_all add: declared_refs_def)
qed (simp add: declared_refs_def)

text \<open>\<open>Add\<close>. The component is registered in every case and the \<open>Ref\<close> returned names it, valid from
  then on; its resolved dependencies are earlier components; and \<open>Run\<close> will refuse to start exactly
  when it would have before, or the start or the stop is nil, or one of the declared \<open>Ref\<close>s belongs
  to another \<open>Lifecycle\<close> or names no earlier component.\<close>

lemma add_registers_and_reports:
  assumes "wf_lifecycle l"
  shows "case lifecycle_Add l name start stop opts of (l', r) \<Rightarrow>
    wf_lifecycle l' \<and> valid_ref l' r \<and> \<not> valid_ref l r
    \<and> (\<exists>c. lc_comps l' = lc_comps l @ [c] \<and> c_name c = name \<and> c_start c = start \<and> c_stop c = stop
         \<and> nat (ref_i r) = length (lc_comps l) \<and> (\<forall>d \<in> set (c_after c). d < length (lc_comps l)))
    \<and> (lc_errs l' = [] \<longleftrightarrow> lc_errs l = [] \<and> start \<noteq> None \<and> stop \<noteq> None
         \<and> list_all (valid_ref l) (declared_refs opts))"
proof -
  obtain c where c: "c = fold apply_option opts
      \<lparr>c_name = name, c_start = start, c_stop = stop, c_afterRefs = [], c_after = [], c_stopTimeout = 0\<rparr>"
    by simp
  then have fields: "c_name c = name" "c_start c = start" "c_stop c = stop"
    "c_afterRefs c = declared_refs opts" by (simp_all add: declared_refs_fold)
  obtain es ds where res: "resolve_refs l name (declared_refs opts) = (es, ds)" by fastforce
  have "lifecycle_Add l name start stop opts =
      (l\<lparr>lc_comps := lc_comps l @ [c\<lparr>c_after := ds\<rparr>],
         lc_errs := lc_errs l @ (if start = None then [start_nil_error name] else [])
           @ (if stop = None then [stop_nil_error name] else []) @ es\<rparr>,
       \<lparr>ref_owner = lc_id l, ref_i = int (length (lc_comps l))\<rparr>)"
    using res by (simp add: lifecycle_Add_def fields(4) flip: c)
  then show ?thesis
    using wf_Add [OF assms, of name start stop opts] res fields
      resolve_refs_after [of l name "declared_refs opts"]
      resolve_refs_ok(1) [where l = l and name = name and rs = "declared_refs opts"]
    by (auto simp: valid_ref_def)
qed

lemma add_registers_and_reports_witness:
  "lc_errs (fst (lifecycle_Add demo ''x'' (Some 4) None
     [After [\<lparr>ref_owner = 7, ref_i = 1\<rparr>, \<lparr>ref_owner = 7, ref_i = 2\<rparr>]])) \<noteq> []"
proof -
  have "\<not> list_all (valid_ref demo) (declared_refs [After [\<lparr>ref_owner = 7, ref_i = 1\<rparr>, \<lparr>ref_owner = 7, ref_i = 2\<rparr>]])"
    by code_simp
  then show ?thesis
    using add_registers_and_reports [OF wf_demo, of "''x''" "Some 4" None
      "[After [\<lparr>ref_owner = 7, ref_i = 1\<rparr>, \<lparr>ref_owner = 7, ref_i = 2\<rparr>]]"] by auto
qed

text \<open>While a level starts nobody is stopping or stopped; while one stops nobody is starting.\<close>

lemma starting_nobody_stops:
  assumes "life_inv s" "r_pc s = Starting n"
  shows "life_of s k \<notin> {Halting, Down}"
proof (cases "k < length (r_comps s)")
  case True
  show ?thesis
  proof (cases "level_at s k = n")
    case same: True
    obtain q where q: "q < length (r_gs s)" "r_levels s ! n ! q = k"
      using level_member [OF True] same assms by (auto simp: life_defs)
    then have "boots s n q" using assms by (simp add: life_defs)
    with q show ?thesis by (cases "r_gs s ! q") (auto simp: boots_def Let_def)
  next
    case False
    then have "booted_below s n k" using assms True by (simp add: life_defs)
    then show ?thesis by (simp add: booted_below_def)
  qed
qed (use assms in \<open>simp add: life_inv_def\<close>)

lemma stopping_nobody_boots:
  assumes "life_inv s" "r_pc s = Stopping n"
  shows "life_of s k \<noteq> Booting"
proof (cases "k < length (r_comps s)")
  case True
  show ?thesis
  proof (cases "level_at s k = n")
    case same: True
    obtain q where q: "q < length (r_gs s)" "r_levels s ! n ! q = k"
      using level_member [OF True] same assms by (auto simp: life_defs)
    then have "halts s n q" using assms by (simp add: life_defs)
    with q show ?thesis by (cases "r_gs s ! q") (auto simp: halts_def Let_def split: if_splits)
  next
    case False
    then have "halted_from s n k" using assms True by (simp add: life_defs)
    then show ?thesis by (auto simp: halted_from_def split: if_splits)
  qed
qed (use assms in \<open>simp add: life_inv_def\<close>)

lemma cancelled_iff_start_failed:
  assumes "life_inv s" "error_inv s" "r_pc s = Starting n"
  shows "r_cancelled s \<longleftrightarrow> start_failures (r_comps s) (r_log s) \<noteq> []"
proof -
  have "set (start_failures (r_comps s) (r_log s)) = {e. Some e \<in> set (r_errs s)}"
    using assms(2,3) by (simp add: error_inv_def)
  then have "start_failures (r_comps s) (r_log s) = [] \<longleftrightarrow> (\<forall>e. Some e \<notin> set (r_errs s))"
    by (metis (mono_tags, lifting) Collect_empty_eq set_empty2)
  moreover have "r_cancelled s = (\<exists>e \<in> set (r_errs s). e \<noteq> None)" using assms(1,3) by (simp add: life_defs)
  ultimately show ?thesis by auto
qed

text \<open>C5: a component starts once its dependencies are up. In every interleaving, whenever \<open>Run\<close>
  calls the start of a component, that component was never called before, every dependency of it
  has returned nil from its own start, and no component is being stopped or stopped; the context it
  gets is already over exactly when a start of the same level has failed or the caller's context has
  ended.\<close>

theorem starts_follow_dependencies:
  assumes "wf_lifecycle l" and "run_reach l c now s" and "run_step (CallStart p) s = Some s'"
  shows "\<exists>i over. last (r_log s') = (r_now s, EvStart i over) \<and> i < length (r_comps s)
    \<and> life_of s i = Fresh
    \<and> (\<forall>d \<in> set (c_after (r_comps s ! i)). life_of s d = Up)
    \<and> (\<forall>k. life_of s k \<notin> {Halting, Down})
    \<and> (over \<longleftrightarrow> start_failures (r_comps s) (r_log s) \<noteq> [] \<or> ctx_done s)"
proof -
  note inv = life_inv_reach [OF assms(1,2)]
  obtain n where n: "r_pc s = Starting n" and p: "p < length (r_gs s)" "r_gs s ! p = Spawned"
    using assms(3) by (auto simp: call_start_def split: pc.splits if_splits)
  note f = starting_frame [OF inv n p(1)]
  let ?i = "r_levels s ! n ! p"
  have wf: "wf_comps (r_comps s)" using inv by (simp add: life_inv_def wf_lifecycle_def)
  have log: "last (r_log s') = (r_now s, EvStart ?i (r_cancelled s \<or> ctx_done s))"
    using assms(3) n p by (auto simp: call_start_def Let_def split: option.splits)
  have "life_of s d = Up" if "d \<in> set (c_after (r_comps s ! ?i))" for d
    using f(7) [of d] dependency_in_range [OF wf f(3) that] level_above_dependencies [OF wf f(3) that] f(4)
    by (simp add: booted_below_def)
  moreover have "life_of s ?i = Fresh" using f(6) p(2) by (simp add: boots_def Let_def)
  ultimately show ?thesis
    using log f(3) starting_nobody_stops [OF inv n] cancelled_iff_start_failed [OF inv error_inv_reach [OF assms(2)] n]
    by (intro exI [of _ ?i]) auto
qed

theorem starts_follow_dependencies_witness:
  "\<exists>s s' i over. run_steps boot (run_init demo demo_ctx 0) = Some s \<and> run_step (CallStart 0) s = Some s'
    \<and> last (r_log s') = (r_now s, EvStart i over) \<and> (\<forall>d \<in> set (c_after (r_comps s ! i)). life_of s d = Up)"
proof -
  have "run_steps (boot @ [CallStart 0]) (run_init demo demo_ctx 0) \<noteq> None" by code_simp
  then obtain s s' where s: "run_reach demo demo_ctx 0 s" "run_step (CallStart 0) s = Some s'"
    "run_steps boot (run_init demo demo_ctx 0) = Some s" by (rule reach_then)
  from starts_follow_dependencies [OF wf_demo s(1,2)] s(2,3) show ?thesis by blast
qed

text \<open>C6: a component stops once its dependents are gone. In every interleaving, whenever \<open>Run\<close> calls
  the stop of a component, that component is up and not stopped before, no start is in flight, and
  every component that depends on it either never came up or has returned from its own stop. The
  context of the call keeps the caller's values but not its end: it ends at the component's own
  timeout, counted from this call, however long ago the caller's context ended.\<close>

theorem stops_follow_dependents:
  assumes "wf_lifecycle l" and "run_reach l c now s" and "run_step (CallStop p) s = Some s'"
  shows "\<exists>i sctx. last (r_log s') = (r_now s, EvStop i sctx) \<and> i < length (r_comps s)
    \<and> life_of s i = Up
    \<and> (\<forall>k. life_of s k \<noteq> Booting)
    \<and> (\<forall>k < length (r_comps s). i \<in> set (c_after (r_comps s ! k)) \<longrightarrow> life_of s k \<in> {Fresh, Failed, Down})
    \<and> (let d = (if c_stopTimeout (r_comps s ! i) = 0 then cfg_StopTimeout (lc_cfg (r_lc s))
                else c_stopTimeout (r_comps s ! i))
       in ctx_span sctx = ctx_span (r_ctx s)
        \<and> ctx_deadline sctx = Some (r_now s + sint d)
        \<and> ctx_done_at sctx = Some (r_now s + sint d, DeadlineExceeded))"
proof -
  note inv = life_inv_reach [OF assms(1,2)]
  obtain n where n: "r_pc s = Stopping n" and p: "p < length (r_gs s)" "r_gs s ! p = Spawned"
    using assms(3) by (auto simp: call_stop_def split: pc.splits if_splits)
  note f = stopping_frame [OF inv n p(1)]
  let ?i = "r_levels s ! n ! p"
  have wf: "wf_comps (r_comps s)" using inv by (simp add: life_inv_def wf_lifecycle_def)
  have log: "last (r_log s') = (r_now s, EvStop ?i (stop_ctx s ?i))"
    using assms(3) n p by (auto simp: call_stop_def Let_def split: option.splits)
  have up: "life_of s ?i = Up" using f(6) p(2) by (auto simp: halts_def Let_def split: if_splits)
  have "life_of s k \<in> {Fresh, Failed, Down}"
    if "k < length (r_comps s)" "?i \<in> set (c_after (r_comps s ! k))" for k
    using f(7) [OF that(1)] level_above_dependencies [OF wf that] f(4)
    by (auto simp: halted_from_def split: if_splits)
  moreover have "(let d = (if c_stopTimeout (r_comps s ! ?i) = 0 then cfg_StopTimeout (lc_cfg (r_lc s))
                else c_stopTimeout (r_comps s ! ?i))
       in ctx_span (stop_ctx s ?i) = ctx_span (r_ctx s)
        \<and> ctx_deadline (stop_ctx s ?i) = Some (r_now s + sint d)
        \<and> ctx_done_at (stop_ctx s ?i) = Some (r_now s + sint d, DeadlineExceeded))"
    by (simp add: stop_ctx_def with_timeout_def without_cancel_def Let_def)
  ultimately show ?thesis
    using log up f(3) stopping_nobody_boots [OF inv n] by (intro exI [of _ ?i] exI [of _ "stop_ctx s ?i"]) simp
qed

theorem stops_follow_dependents_witness:
  "\<exists>s s' i sctx. run_steps draining (run_init demo demo_ctx 0) = Some s \<and> run_step (CallStop 0) s = Some s'
    \<and> last (r_log s') = (r_now s, EvStop i sctx) \<and> life_of s i = Up"
proof -
  have "run_steps (draining @ [CallStop 0]) (run_init demo demo_ctx 0) \<noteq> None" by code_simp
  then obtain s s' where s: "run_reach demo demo_ctx 0 s" "run_step (CallStop 0) s = Some s'"
    "run_steps draining (run_init demo demo_ctx 0) = Some s" by (rule reach_then)
  from stops_follow_dependents [OF wf_demo s(1,2)] s(2,3) show ?thesis by blast
qed

text \<open>C10: every component goes through its life once, in order: start called, start returned, and then,
  only if it returned nil, stop called and stop returned. When \<open>Run\<close> returns nothing it started is
  left running: every component that came up has been stopped, and if no start failed that is every
  component.\<close>

theorem every_component_lives_once:
  assumes "wf_lifecycle l" and "run_reach l c now s"
  shows "(\<forall>i. life_of s i \<noteq> Broken)
    \<and> ((\<exists>e. r_pc s = Result e) \<longrightarrow> (\<forall>i < length (r_comps s). life_of s i \<in> {Fresh, Failed, Down})
        \<and> (lc_errs (r_lc s) = [] \<and> start_failures (r_comps s) (r_log s) = [] \<longrightarrow>
             (\<forall>i < length (r_comps s). life_of s i = Down)))"
proof (intro conjI allI impI)
  note inv = life_inv_reach [OF assms]
  show "life_of s i \<noteq> Broken" for i by (rule life_inv_not_broken [OF inv])
  assume "\<exists>e. r_pc s = Result e"
  then obtain e where e: "r_pc s = Result e" by blast
  fix i assume i: "i < length (r_comps s)"
  then show "life_of s i \<in> {Fresh, Failed, Down}" using inv e by (simp add: life_defs)
  assume "lc_errs (r_lc s) = [] \<and> start_failures (r_comps s) (r_log s) = []"
  moreover from this have "r_start_err s = None"
    using error_inv_reach [OF assms(2)] e by (auto simp: error_inv_def reports_starts_def split: option.splits)
  ultimately show "life_of s i = Down"
    using complete_inv_reach [OF assms] e i by (simp add: complete_inv_def)
qed

theorem every_component_lives_once_witness:
  "\<exists>s. run_steps stopped (run_init demo demo_ctx 0) = Some s \<and> (\<forall>i. life_of s i \<noteq> Broken)"
proof -
  have "run_steps (stopped @ [Main]) (run_init demo demo_ctx 0) \<noteq> None" by code_simp
  then obtain s where s: "run_reach demo demo_ctx 0 s" "run_steps stopped (run_init demo demo_ctx 0) = Some s"
    by (rule reach_then)
  from every_component_lives_once [OF wf_demo s(1)] s(2) show ?thesis by blast
qed

text \<open>C11: the hooks. A started hook is called only when every component is up and none has begun to
  stop. When the first stop is called, and at every later stop, either every start succeeded and
  all started hooks and then all drain hooks have run, each once and in the order registered, with
  the whole of \<open>DrainDelay\<close> between the last of them and the stop; or a start failed and no hook of
  either kind has run.\<close>

theorem hooks_run_in_order:
  assumes "wf_lifecycle l" and "run_reach l c now s"
  shows "(\<forall>s'. run_step Main s = Some s' \<and> started_hooks (r_log s') \<noteq> started_hooks (r_log s) \<longrightarrow>
         (\<forall>i < length (r_comps s). life_of s i = Up))
    \<and> (\<forall>p s'. run_step (CallStop p) s = Some s' \<longrightarrow>
         (if start_failures (r_comps s) (r_log s) = []
          then started_hooks (r_log s) = lc_startedHooks (r_lc s)
            \<and> map snd (drain_hooks (r_log s)) = lc_drainHooks (r_lc s)
            \<and> (\<forall>(t, f) \<in> set (drain_hooks (r_log s)).
                 t + max 0 (sint (cfg_DrainDelay (lc_cfg (r_lc s)))) \<le> r_now s)
          else started_hooks (r_log s) = [] \<and> drain_hooks (r_log s) = []))"
proof (intro conjI allI impI)
  note inv = life_inv_reach [OF assms]
  fix s' i
  assume step: "run_step Main s = Some s' \<and> started_hooks (r_log s') \<noteq> started_hooks (r_log s)"
    and i: "i < length (r_comps s)"
  then have "\<exists>k. r_pc s = StartedHooks k"
    by (cases "r_pc s") (auto simp: main_step_def Let_def split: if_splits option.splits nat.splits)
  then show "life_of s i = Up" using inv i by (auto simp: life_defs)
next
  fix p s' assume "run_step (CallStop p) s = Some s'"
  then obtain n where n: "r_pc s = Stopping n" by (auto simp: call_stop_def split: pc.splits)
  have "start_failures (r_comps s) (r_log s) = [] \<longleftrightarrow> r_start_err s = None"
    using error_inv_reach [OF assms(2)] n
    by (auto simp: error_inv_def reports_starts_def split: option.splits)
  then show "if start_failures (r_comps s) (r_log s) = []
          then started_hooks (r_log s) = lc_startedHooks (r_lc s)
            \<and> map snd (drain_hooks (r_log s)) = lc_drainHooks (r_lc s)
            \<and> (\<forall>(t, f) \<in> set (drain_hooks (r_log s)).
                 t + max 0 (sint (cfg_DrainDelay (lc_cfg (r_lc s)))) \<le> r_now s)
          else started_hooks (r_log s) = [] \<and> drain_hooks (r_log s) = []"
    using hook_inv_reach [OF assms(2)] n
    by (cases "r_start_err s") (simp_all add: hook_inv_def hooks_before_stop_def run_before_def drain_delay_def)
qed

theorem hooks_run_in_order_witness:
  "\<exists>s s'. run_steps draining (run_init demo demo_ctx 0) = Some s \<and> run_step (CallStop 0) s = Some s'
    \<and> (start_failures (r_comps s) (r_log s) = [] \<longrightarrow> map snd (drain_hooks (r_log s)) = lc_drainHooks (r_lc s))"
proof -
  have "run_steps (draining @ [CallStop 0]) (run_init demo demo_ctx 0) \<noteq> None" by code_simp
  then obtain s s' where s: "run_reach demo demo_ctx 0 s" "run_step (CallStop 0) s = Some s'"
    "run_steps draining (run_init demo demo_ctx 0) = Some s" by (rule reach_then)
  from hooks_run_in_order [OF wf_demo s(1)] s(2,3) show ?thesis by (metis (no_types, lifting))
qed

text \<open>What an error names: itself and everything joined or wrapped in it.\<close>

abbreviation names_error :: "goerr option \<Rightarrow> goerr \<Rightarrow> bool" where
  "names_error r e \<equiv> \<exists>j. r = Some j \<and> err_is j e"

lemma join_names: "err_is e f \<or> names_error x f \<Longrightarrow> names_error (join_errors [Some e, x]) f"
  using join_errors_Some_is [of e "[Some e, x]" f] join_errors_Some_is [of _ "[Some e, x]" f] by auto

lemma stop_errors_named: "f \<in> set fs \<Longrightarrow> names_error (join_errors (map Some fs)) f"
  using join_errors_Some_is [of f "map Some fs" f] by simp

lemma join_somes_None_iff [simp]: "join_errors (map Some fs) = None \<longleftrightarrow> fs = []"
  by (cases fs) (auto simp: join_errors_None_iff)

lemma reported_start_names: "reports_starts (Some e) fs \<Longrightarrow> f \<in> set fs \<Longrightarrow> err_is e f"
  using err_is_refl [of f] by (auto simp: reports_starts_def list_ex_iff simp del: err_is_refl)

text \<open>C7: what \<open>Run\<close> returns. Construction errors are all returned and nothing is started. Otherwise
  the result holds (in the sense of \<open>errors.Is\<close>) every failure of a start and of a stop; if every start
  succeeded it also holds the error kept by \<open>Fatal\<close>, if there was one by then; and it is nil exactly
  when there was none of these.\<close>

theorem run_returns_every_error:
  assumes "run_reach l c now s" and "run_step Main s = Some s'" and "r_pc s' = Result r"
  shows "if r_pc s = Before
    then r = Some (Joined (lc_errs (r_lc s))) \<and> lc_errs (r_lc s) \<noteq> [] \<and> r_log s' = r_log s
    else (let starts = start_failures (r_comps s) (r_log s);
              stops = stop_failures (r_comps s) (r_log s);
              fatal = (if starts = [] then lc_fatalErr (r_lc s) else None)
          in (\<forall>e \<in> set starts \<union> set stops \<union> set_option fatal. \<exists>j. r = Some j \<and> err_is j e)
           \<and> (r = None \<longleftrightarrow> starts = [] \<and> stops = [] \<and> fatal = None))"
proof (cases "r_pc s")
  case Before
  then show ?thesis using assms(2,3)
    by (auto simp: main_step_def join_errors_def split: if_splits list.split)
next
  case (NextStop m)
  then have m: "m = 0" and r: "r = run_result s" using assms(2,3) by (auto simp: main_step_def split: nat.splits)
  let ?starts = "start_failures (r_comps s) (r_log s)"
  let ?stops = "stop_failures (r_comps s) (r_log s)"
  have stops: "r_stop_errs s = ?stops" and starts: "reports_starts (r_start_err s) ?starts"
    using error_inv_reach [OF assms(1)] NextStop by (simp_all add: error_inv_def Let_def)
  show ?thesis
  proof (cases "r_start_err s")
    case (Some e)
    then have res: "r = join_errors [Some e, join_errors (map Some ?stops)]" by (simp add: r run_result_def stops)
    have "names_error r f" if "f \<in> set ?starts \<union> set ?stops" for f
      unfolding res using that starts [unfolded Some] reported_start_names stop_errors_named
      by (intro join_names) blast
    moreover have "?starts \<noteq> []" using starts Some by (simp add: reports_starts_def)
    moreover have "r \<noteq> None" by (simp add: res join_errors_None_iff)
    ultimately show ?thesis using NextStop by (simp add: Let_def)
  next
    case None
    then have none: "?starts = []" using starts by (simp add: reports_starts_def)
    show ?thesis
    proof (cases "lc_fatalErr (r_lc s)")
      case no_fatal: None
      then have "r = join_errors (map Some ?stops)" by (simp add: r run_result_def None stops)
      then show ?thesis using stop_errors_named none no_fatal NextStop by simp
    next
      case (Some fe)
      then have res: "r = join_errors [Some fe, join_errors (map Some ?stops)]"
        by (simp add: r run_result_def None stops)
      have "names_error r f" if "f \<in> insert fe (set ?stops)" for f
        unfolding res using that stop_errors_named by (intro join_names) auto
      then show ?thesis using none Some NextStop by auto
    qed
  qed
qed (use assms(2,3) in \<open>auto simp: main_step_def Let_def split: if_splits option.splits\<close>)

theorem run_returns_every_error_witness:
  "\<exists>s s' r. run_steps stopped (run_init demo demo_ctx 0) = Some s \<and> run_step Main s = Some s'
    \<and> r_pc s' = Result (Some r) \<and> err_is r (stop_error ''http'' Canceled)"
proof -
  have "run_steps (stopped @ [Main]) (run_init demo demo_ctx 0) \<noteq> None" by code_simp
  then obtain s s' where s: "run_reach demo demo_ctx 0 s" "run_step Main s = Some s'"
    "run_steps stopped (run_init demo demo_ctx 0) = Some s" by (rule reach_then)
  have "(case run_steps stopped (run_init demo demo_ctx 0) of None \<Rightarrow> False | Some s \<Rightarrow>
      r_pc s = NextStop 0 \<and> stop_failures (r_comps s) (r_log s) = [stop_error ''http'' Canceled])"
    by code_simp
  then have pc: "r_pc s = NextStop 0"
    and fail: "stop_failures (r_comps s) (r_log s) = [stop_error ''http'' Canceled]"
    by (simp_all add: s(3))
  have "r_pc s' = Result (run_result s)" using s(2) pc by (auto simp: main_step_def)
  from run_returns_every_error [OF s(1,2) this] s(2,3) pc fail this show ?thesis
    by (auto simp: Let_def)
qed

text \<open>C9: \<open>Run\<close> returns. Every step of the program, in whatever interleaving, decreases a well-founded
  measure, so only finitely many can be taken; and one can always be taken, unless \<open>Run\<close> has
  returned, waits for its context or a \<open>Fatal\<close>, or sleeps through \<open>DrainDelay\<close>. So when the caller's starts
  and stops return and one of the two ends the wait, \<open>Run\<close> returns.\<close>

theorem run_always_returns:
  assumes "wf_lifecycle l" and "run_reach l c now s"
  shows "wf steps_left
    \<and> (\<forall>a s'. is_program a \<and> run_step a s = Some s' \<longrightarrow> (s', s) \<in> steps_left)
    \<and> ((\<exists>e. r_pc s = Result e)
       \<or> (r_pc s = Waiting \<and> \<not> ctx_done s \<and> \<not> lc_fatalCh (r_lc s))
       \<or> (\<exists>t. r_pc s = Sleeping t \<and> r_now s < t)
       \<or> (\<exists>a s'. is_program a \<and> run_step a s = Some s'))"
  using wf_steps_left program_step_decreases [OF life_inv_reach [OF assms]]
    progress [OF life_inv_reach [OF assms]] by (meson not_less)

theorem run_always_returns_witness:
  "\<exists>s a s'. run_steps boot (run_init demo demo_ctx 0) = Some s \<and> is_program a \<and> run_step a s = Some s'
    \<and> (s', s) \<in> steps_left"
proof -
  have "run_steps (boot @ [CallStart 0]) (run_init demo demo_ctx 0) \<noteq> None" by code_simp
  then obtain s s' where s: "run_reach demo demo_ctx 0 s" "run_step (CallStart 0) s = Some s'"
    "run_steps boot (run_init demo demo_ctx 0) = Some s" by (rule reach_then)
  have "is_program (CallStart 0)" by (simp add: is_program_def)
  with run_always_returns [OF wf_demo s(1)] s(2,3) show ?thesis by blast
qed

text \<open>\<open>Fatal\<close> keeps the first error that is not nil, whatever is reported in whatever order later,
  and wakes \<open>Run\<close> exactly when there is one.\<close>

lemma fatal_keeps_the_first_error:
  "lc_fatalErr (fold Fatal es (lifecycle_New self cfg)) = (case somes es of [] \<Rightarrow> None | e # _ \<Rightarrow> Some e)
    \<and> (lc_fatalCh (fold Fatal es (lifecycle_New self cfg)) \<longleftrightarrow> somes es \<noteq> [])"
proof -
  have kept: "fold Fatal es l = l" if "lc_fatalCh l" for es l
    using that by (induction es) (simp_all add: Fatal_def split: option.split)
  have "\<not> lc_fatalCh l \<Longrightarrow> lc_fatalErr l = None \<Longrightarrow>
      lc_fatalErr (fold Fatal es l) = (case somes es of [] \<Rightarrow> None | e # _ \<Rightarrow> Some e)
      \<and> (lc_fatalCh (fold Fatal es l) \<longleftrightarrow> somes es \<noteq> [])" for l
  proof (induction es rule: somes.induct)
    case (3 x xs)
    then have "Fatal (Some x) l = l\<lparr>lc_fatalErr := Some x, lc_fatalCh := True\<rparr>" by (simp add: Fatal_def)
    then show ?case by (simp add: kept)
  next
    case (2 xs)
    moreover have "Fatal None l = l" by (simp add: Fatal_def)
    ultimately show ?case by simp
  qed simp
  then show ?thesis by (simp add: lifecycle_New_def)
qed

text \<open>One failure \<open>Run\<close> does lose. When a component that is up reports \<open>Fatal\<close> while a later level is
  still starting and a start of that level then fails, the error returned does not hold what was
  reported: the unwinding path never loads it.\<close>

lemma fatal_is_lost_when_startup_fails:
  "\<exists>s e. run_steps (boot @ [CallStart 0, CallFatal (Some (Err ''broker lost'')),
        StartReturns 0 (Some (Err ''bind'')), Main, Main, Main, Main, CallStop 0, StopReturns 0 None, Main, Main])
      (run_init demo demo_ctx 0) = Some s
    \<and> lc_fatalErr (r_lc s) = Some (Err ''broker lost'')
    \<and> r_pc s = Result (Some e) \<and> err_is e (Err ''bind'') \<and> \<not> err_is e (Err ''broker lost'')"
proof -
  have "(case run_steps (boot @ [CallStart 0, CallFatal (Some (Err ''broker lost'')),
        StartReturns 0 (Some (Err ''bind'')), Main, Main, Main, Main, CallStop 0, StopReturns 0 None, Main, Main])
      (run_init demo demo_ctx 0) of None \<Rightarrow> False
    | Some s \<Rightarrow> (case r_pc s of Result (Some e) \<Rightarrow> lc_fatalErr (r_lc s) = Some (Err ''broker lost'')
        \<and> err_is e (Err ''bind'') \<and> \<not> err_is e (Err ''broker lost'') | _ \<Rightarrow> False))"
    by code_simp
  then show ?thesis by (auto split: option.splits pc.splits)
qed

end
