(* ===== verification/Signals.thy ===== *)
theory Signals
  imports Machine Prelude
begin

text \<open>
  Package \<open>lifecycle\<close>, \<open>signal.go\<close>: \<open>SignalContext\<close>. The state is what \<open>signal.NotifyContext\<close> keeps for the
  process (whether SIGINT and SIGTERM are caught), the context it returned, and the goroutine that
  waits for that context. The operating system kills the process on a signal nobody catches.
\<close>

record signal_state =
  ss_caught :: bool
  ss_ctx_done :: bool
  ss_waiter_done :: bool
  ss_killed :: bool

definition SignalContext :: "bool \<Rightarrow> signal_state" where
  "SignalContext parent_done =
     \<lparr>ss_caught = True, ss_ctx_done = parent_done, ss_waiter_done = False, ss_killed = False\<rparr>"

text \<open>The stop function of \<open>NotifyContext\<close>: it ends the context and restores the default handling.\<close>

definition notify_stop :: "signal_state \<Rightarrow> signal_state" where
  "notify_stop s = s\<lparr>ss_caught := False, ss_ctx_done := True\<rparr>"

datatype signal_action = Deliver | ParentEnds | WaiterRuns | CallerStops

fun signal_step :: "signal_action \<Rightarrow> signal_state \<Rightarrow> signal_state option" where
  "signal_step Deliver s =
     Some (if ss_caught s then s\<lparr>ss_ctx_done := True\<rparr> else s\<lparr>ss_killed := True\<rparr>)"
| "signal_step ParentEnds s = Some (s\<lparr>ss_ctx_done := True\<rparr>)"
| "signal_step WaiterRuns s =
     (if ss_ctx_done s \<and> \<not> ss_waiter_done s then Some ((notify_stop s)\<lparr>ss_waiter_done := True\<rparr>) else None)"
| "signal_step CallerStops s = Some (notify_stop s)"

abbreviation signal_run :: "signal_action list \<Rightarrow> signal_state \<Rightarrow> signal_state option" where
  "signal_run \<equiv> run_all signal_step"

definition signal_inv :: "signal_state \<Rightarrow> bool" where
  "signal_inv s \<longleftrightarrow> (ss_waiter_done s \<longrightarrow> \<not> ss_caught s) \<and> (\<not> ss_caught s \<longrightarrow> ss_ctx_done s)
     \<and> (ss_killed s \<longrightarrow> \<not> ss_caught s)"

lemma signal_inv_step: "signal_inv s \<Longrightarrow> signal_step a s = Some s' \<Longrightarrow> signal_inv s'"
  by (cases a) (auto simp: signal_inv_def notify_stop_def split: if_splits)

interpretation signals: invariant signal_step "SignalContext p" signal_inv for p
  by unfold_locales (simp add: signal_inv_def SignalContext_def, rule signal_inv_step)

text \<open>The first signal ends the context and never the process; once the context has ended, for
  whatever reason, the waiting goroutine can restore the default handling, after which it stays
  restored and the next signal terminates the process; and calling stop again changes nothing.\<close>

lemma second_signal_terminates:
  assumes "signal_run as (SignalContext p) = Some s"
  shows "(ss_caught s \<longrightarrow> \<not> ss_killed s
           \<and> (\<forall>s'. signal_step Deliver s = Some s' \<longrightarrow> ss_ctx_done s' \<and> \<not> ss_killed s'))
    \<and> (ss_ctx_done s \<and> \<not> ss_waiter_done s \<longrightarrow>
         (\<exists>s'. signal_step WaiterRuns s = Some s' \<and> \<not> ss_caught s'))
    \<and> (ss_waiter_done s \<longrightarrow> (\<forall>s'. signal_step Deliver s = Some s' \<longrightarrow> ss_killed s'))
    \<and> notify_stop (notify_stop s) = notify_stop s"
  using signals.holds [OF reachesI [OF assms]] by (auto simp: signal_inv_def notify_stop_def)

lemma second_signal_terminates_witness:
  "\<exists>s. signal_run [Deliver, WaiterRuns] (SignalContext False) = Some s
    \<and> (\<forall>s'. signal_step Deliver s = Some s' \<longrightarrow> ss_killed s')"
proof -
  obtain s where s: "signal_run [Deliver, WaiterRuns] (SignalContext False) = Some s" "ss_waiter_done s"
    by (simp add: SignalContext_def notify_stop_def)
  from second_signal_terminates [OF s(1)] s show ?thesis by blast
qed

end
