(* ===== verification/Config_Plan.thy ===== *)
theory Config_Plan
  imports Go_Strings
begin

text \<open>
  Package \<open>config\<close>, \<open>decode.go\<close>, \<open>plan.go\<close> and \<open>errors.go\<close>: the decoder of each type, and the walk over a
  struct type that yields the bindings and the optional blocks. A type is what \<open>reflect\<close> shows of it.
  Struct types are named and their fields are in an environment, because a type may contain itself
  behind a pointer. A type that parses itself is \<open>TText\<close>, whatever its kind. What the standard library
  and the caller's types parse (floats, durations, \<open>UnmarshalText\<close>) is the argument \<open>std\<close>.
\<close>

section \<open>Types\<close>

datatype text_kind = KStruct | KSlice | KOther

datatype ty =
    TString string
  | TBool string
  | TInt string nat
  | TUint string nat
  | TFloat string nat
  | TDuration
  | TText string text_kind
  | TSlice ty
  | TNamedSlice string ty
  | TPtr ty
  | TStruct string
  | TOther string

fun type_string :: "ty \<Rightarrow> string" where
  "type_string (TString n) = n"
| "type_string (TBool n) = n"
| "type_string (TInt n b) = n"
| "type_string (TUint n b) = n"
| "type_string (TFloat n b) = n"
| "type_string TDuration = ''time.Duration''"
| "type_string (TText n k) = n"
| "type_string (TSlice t) = ''[]'' @ type_string t"
| "type_string (TNamedSlice n t) = n"
| "type_string (TPtr t) = ''*'' @ type_string t"
| "type_string (TStruct n) = n"
| "type_string (TOther n) = n"

text \<open>\<open>t.Kind()\<close>. Of the number types the program only asks the kind, so that is what they carry.\<close>

fun kind_name :: "ty \<Rightarrow> string" where
  "kind_name (TString n) = ''string''"
| "kind_name (TBool n) = ''bool''"
| "kind_name (TInt n b) = n"
| "kind_name (TUint n b) = n"
| "kind_name (TFloat n b) = n"
| "kind_name TDuration = ''int64''"
| "kind_name (TText n k) = (case k of KStruct \<Rightarrow> ''struct'' | KSlice \<Rightarrow> ''slice'' | KOther \<Rightarrow> n)"
| "kind_name (TSlice t) = ''slice''"
| "kind_name (TNamedSlice n t) = ''slice''"
| "kind_name (TPtr t) = ''ptr''"
| "kind_name (TStruct n) = ''struct''"
| "kind_name (TOther n) = n"

text \<open>\<open>t.Name()\<close>: the name without its package.\<close>

definition short_name :: "string \<Rightarrow> string" where
  "short_name n = rev (takeWhile (\<lambda>c. c \<noteq> CHR ''.'') (rev n))"

fun is_slice :: "ty \<Rightarrow> bool" where
  "is_slice (TSlice t) = True"
| "is_slice (TNamedSlice n t) = True"
| "is_slice (TText n k) = (k = KSlice)"
| "is_slice _ = False"

fun is_pointer :: "ty \<Rightarrow> bool" where
  "is_pointer (TPtr t) = True"
| "is_pointer _ = False"

section \<open>Decoders\<close>

datatype val =
    VString string
  | VBool bool
  | VInt int
  | VDuration duration
  | VOpaque nat
  | VSlice "val list"
  | VPtr val

type_synonym decoder = "string \<Rightarrow> goerr + val"

record std =
  std_float :: "nat \<Rightarrow> string \<Rightarrow> goerr + nat"
  std_duration :: "string \<Rightarrow> goerr + duration"
  std_unmarshal :: "string \<Rightarrow> string \<Rightarrow> goerr + nat"

definition numError :: "string \<Rightarrow> string \<Rightarrow> goerr \<Rightarrow> goerr" where
  "numError type_name num e = Wrapped (''invalid '' @ type_name @ '': parsing '' @ go_quote num) e"

definition decodeDuration :: "std \<Rightarrow> decoder" where
  "decodeDuration std raw =
     (case std_duration std raw of
        Inl e \<Rightarrow> Inl (Err (''invalid duration: '' @ go_quote raw @ '' (want a unit, such as 1500ms or 5s)''))
      | Inr d \<Rightarrow> Inr (VDuration d))"

definition decodeText :: "std \<Rightarrow> string \<Rightarrow> decoder" where
  "decodeText std name raw =
     (case std_unmarshal std name raw of
        Inl e \<Rightarrow> Inl (Wrapped (''invalid '' @ name) e)
      | Inr v \<Rightarrow> Inr (VOpaque v))"

text \<open>The element loop of a slice, from element \<open>i\<close> on; it stops at the first bad element.\<close>

fun decode_elements :: "decoder \<Rightarrow> nat \<Rightarrow> string list \<Rightarrow> goerr + val list" where
  "decode_elements elem i [] = Inr []"
| "decode_elements elem i (p # ps) =
     (case elem p of
        Inl e \<Rightarrow> Inl (Wrapped (''element '' @ decimal i) e)
      | Inr v \<Rightarrow> (case decode_elements elem (Suc i) ps of Inl e \<Rightarrow> Inl e | Inr vs \<Rightarrow> Inr (v # vs)))"

definition decode_slice :: "decoder \<Rightarrow> decoder" where
  "decode_slice elem raw =
     (if raw = [] then Inr (VSlice [])
      else case decode_elements elem 0 (split_on (CHR '','') raw) of
          Inl e \<Rightarrow> Inl e | Inr vs \<Rightarrow> Inr (VSlice vs))"

text \<open>The decoder of a slice type called \<open>name\<close> from the one of its element type.\<close>

definition slice_decoder :: "string \<Rightarrow> ty \<Rightarrow> goerr + decoder \<Rightarrow> goerr + decoder" where
  "slice_decoder name t r =
     (case r of
        Inl e \<Rightarrow> Inl (Wrapped (''slice of '' @ type_string t) e)
      | Inr elem \<Rightarrow>
          if is_slice t
          then Inl (Err (''unsupported type '' @ name @ '': nested collections cannot come from one value''))
          else Inr (decode_slice elem))"

fun decoderFor :: "std \<Rightarrow> ty \<Rightarrow> goerr + decoder" where
  "decoderFor std TDuration = Inr (decodeDuration std)"
| "decoderFor std (TText n k) = Inr (decodeText std n)"
| "decoderFor std (TString n) = Inr (\<lambda>raw. Inr (VString raw))"
| "decoderFor std (TBool n) =
     Inr (\<lambda>raw. case parse_bool raw of Inl e \<Rightarrow> Inl (numError ''bool'' raw e) | Inr b \<Rightarrow> Inr (VBool b))"
| "decoderFor std (TInt n bits) =
     Inr (\<lambda>raw. case parse_int bits raw of Inl e \<Rightarrow> Inl (numError n raw e) | Inr v \<Rightarrow> Inr (VInt v))"
| "decoderFor std (TUint n bits) =
     Inr (\<lambda>raw. case parse_uint bits raw of Inl e \<Rightarrow> Inl (numError n raw e) | Inr v \<Rightarrow> Inr (VInt v))"
| "decoderFor std (TFloat n bits) =
     Inr (\<lambda>raw. case std_float std bits raw of Inl e \<Rightarrow> Inl (numError n raw e) | Inr v \<Rightarrow> Inr (VOpaque v))"
| "decoderFor std (TSlice t) = slice_decoder (type_string (TSlice t)) t (decoderFor std t)"
| "decoderFor std (TNamedSlice n t) = slice_decoder n t (decoderFor std t)"
| "decoderFor std (TPtr t) =
     (case decoderFor std t of
        Inl e \<Rightarrow> Inl e
      | Inr elem \<Rightarrow> Inr (\<lambda>raw. case elem raw of Inl e \<Rightarrow> Inl e | Inr v \<Rightarrow> Inr (VPtr v)))"
| "decoderFor std (TStruct n) = Inl (Err (''unsupported type '' @ n))"
| "decoderFor std (TOther n) = Inl (Err (''unsupported type '' @ n))"

section \<open>Violations\<close>

datatype violation_kind = KindSchema | KindRequired | KindDecode | KindValidate

fun kind_String :: "violation_kind \<Rightarrow> string" where
  "kind_String KindSchema = ''schema''"
| "kind_String KindRequired = ''required''"
| "kind_String KindDecode = ''decode''"
| "kind_String KindValidate = ''validate''"

record violation =
  v_env :: string
  v_field :: string
  v_kind :: violation_kind
  v_err :: goerr

definition violation_Error :: "violation \<Rightarrow> string" where
  "violation_Error v =
     (if v_env v = [] then v_field v @ '': '' @ err_text (v_err v)
      else v_env v @ '' ('' @ v_field v @ ''): '' @ err_text (v_err v))"

definition error_Error :: "violation list \<Rightarrow> string" where
  "error_Error vs =
     ''config: '' @ itoa (int (length vs)) @ '' '' @ (if length vs = 1 then ''problem'' else ''problems'')
       @ concat (map (\<lambda>v. [CHR 0x0A, CHR '' '', CHR '' ''] @ violation_Error v) vs)"

text \<open>\<open>Unwrap\<close> of the error and of a violation: what \<open>errors.Is\<close> reaches.\<close>

definition error_Unwrap :: "violation list \<Rightarrow> goerr list" where
  "error_Unwrap vs = map v_err vs"

section \<open>The walk\<close>

record fld =
  f_name :: string
  f_exported :: bool
  f_env :: "string option"
  f_envPrefix :: "string option"
  f_default :: "string option"
  f_type :: ty

type_synonym structs = "(string \<times> fld list) list"

record binding =
  b_index :: "nat list"
  b_field :: string
  b_env :: string
  b_def :: string
  b_hasDef :: bool
  b_ptr :: bool
  b_dec :: decoder

record block =
  k_index :: "nat list"
  k_field :: string

record walker =
  w_bindings :: "binding list"
  w_blocks :: "block list"
  w_violations :: "violation list"
  w_seen :: "string \<rightharpoonup> string"

definition schema :: "string \<Rightarrow> string \<Rightarrow> string \<Rightarrow> violation" where
  "schema env field msg = \<lparr>v_env = env, v_field = field, v_kind = KindSchema, v_err = Err msg\<rparr>"

definition add :: "violation \<Rightarrow> walker \<Rightarrow> walker" where
  "add v w = w\<lparr>w_violations := w_violations w @ [v]\<rparr>"

text \<open>The struct type a nested field leads to, through at most one pointer.\<close>

fun nested_struct :: "ty \<Rightarrow> string option" where
  "nested_struct (TStruct n) = Some n"
| "nested_struct (TPtr (TStruct n)) = Some n"
| "nested_struct _ = None"

definition isNestedStruct :: "ty \<Rightarrow> bool" where
  "isNestedStruct t \<longleftrightarrow> nested_struct t \<noteq> None"

definition make_binding :: "fld \<Rightarrow> string \<Rightarrow> string \<Rightarrow> nat list \<Rightarrow> decoder \<Rightarrow> binding" where
  "make_binding f fieldPath key fieldIndex dec =
     \<lparr>b_index = fieldIndex, b_field = fieldPath, b_env = key,
      b_def = (case f_default f of None \<Rightarrow> [] | Some d \<Rightarrow> d), b_hasDef = (f_default f \<noteq> None),
      b_ptr = is_pointer (f_type f), b_dec = dec\<rparr>"

lemma make_binding_simps [simp]:
  "b_index (make_binding f fp key fi dec) = fi" "b_field (make_binding f fp key fi dec) = fp"
  "b_env (make_binding f fp key fi dec) = key" "b_dec (make_binding f fp key fi dec) = dec"
  "b_ptr (make_binding f fp key fi dec) = is_pointer (f_type f)"
  "b_hasDef (make_binding f fp key fi dec) = (f_default f \<noteq> None)"
  by (simp_all add: make_binding_def)

text \<open>A field that holds one value.\<close>

definition walk_value :: "std \<Rightarrow> fld \<Rightarrow> string \<Rightarrow> string \<Rightarrow> nat list \<Rightarrow> walker \<Rightarrow> walker" where
  "walk_value std f fieldPath prefix fieldIndex w =
     (case f_env f of
        None \<Rightarrow> add (schema [] fieldPath ''missing env tag; use env:\"-\" to skip this field'') w
      | Some envTag \<Rightarrow>
          if envTag = [] then add (schema [] fieldPath ''env tag is empty'') w
          else let key = prefix @ envTag in
            (case w_seen w key of
               Some owner \<Rightarrow> add (schema key fieldPath (''environment key already bound by '' @ owner)) w
             | None \<Rightarrow>
                 (case decoderFor std (f_type f) of
                    Inl e \<Rightarrow> add \<lparr>v_env = key, v_field = fieldPath, v_kind = KindSchema, v_err = e\<rparr> w
                  | Inr dec \<Rightarrow>
                      w\<lparr>w_seen := (w_seen w)(key \<mapsto> fieldPath),
                        w_bindings := w_bindings w @ [make_binding f fieldPath key fieldIndex dec]\<rparr>)))"

text \<open>
  \<open>walk\<close>, over the fields from the \<open>i\<close>-th on. \<open>active\<close> is the stack of struct types on the path. A
  struct type that is not in the environment has no fields.
\<close>

function walk ::
  "std \<Rightarrow> structs \<Rightarrow> string list \<Rightarrow> fld list \<Rightarrow> nat \<Rightarrow> string \<Rightarrow> string \<Rightarrow> nat list \<Rightarrow> walker \<Rightarrow> walker"
where
  "walk std env active [] i path prefix index w = w"
| "walk std env active (f # fs) i path prefix index w =
     (let fieldPath = path @ ''.'' @ f_name f;
          fieldIndex = index @ [i];
          w' =
            (if \<not> f_exported f then w
             else if f_env f = Some ''-'' then w
             else if f_env f \<noteq> None \<and> f_envPrefix f \<noteq> None
             then add (schema [] fieldPath
                ''has both env and envPrefix; a field is either a value or a nested group'') w
             else (case nested_struct (f_type f) of
                 None \<Rightarrow> walk_value std f fieldPath prefix fieldIndex w
               | Some inner \<Rightarrow>
                   (case f_envPrefix f of
                      None \<Rightarrow> add (schema [] fieldPath
                        ''nested struct needs an envPrefix tag; use envPrefix:\"\" to embed flat'') w
                    | Some prefixTag \<Rightarrow>
                        if inner \<in> set active
                        then add (schema [] fieldPath
                               (''cyclic config type: '' @ inner @ '' contains itself'')) w
                        else let w1 = (if is_pointer (f_type f)
                                 then w\<lparr>w_blocks := w_blocks w @ [\<lparr>k_index = fieldIndex, k_field = fieldPath\<rparr>]\<rparr>
                                 else w)
                          in (case map_of env inner of
                                None \<Rightarrow> w1
                              | Some flds \<Rightarrow>
                                  walk std env (active @ [inner]) flds 0 fieldPath (prefix @ prefixTag) fieldIndex w1))))
      in walk std env active fs (Suc i) path prefix index w')"
  by pat_completeness auto
termination
proof (relation "measures [\<lambda>(std, env, active, fs, i, path, prefix, index, w). card (fst ` set env - set active),
    \<lambda>(std, env, active, fs, i, path, prefix, index, w). length fs]", goal_cases)
  case (2 std env active f fs i path prefix index w fieldPath fieldIndex inner prefixTag w1 flds)
  then have "inner \<in> fst ` set env - set active" by (force dest: map_of_SomeD)
  then have "card (fst ` set env - set (active @ [inner])) < card (fst ` set env - set active)"
    by (intro psubset_card_mono) auto
  then show ?case by simp
qed auto

definition struct_of :: "ty \<Rightarrow> string option" where
  "struct_of t = (case t of TStruct n \<Rightarrow> Some n | TText n k \<Rightarrow> if k = KStruct then Some n else None | _ \<Rightarrow> None)"

definition buildPlan :: "std \<Rightarrow> structs \<Rightarrow> ty \<Rightarrow> string \<Rightarrow> walker" where
  "buildPlan std env t prefix =
     (let w0 = \<lparr>w_bindings = [], w_blocks = [], w_violations = [], w_seen = Map.empty\<rparr>
      in case struct_of t of
           None \<Rightarrow> add (schema [] (type_string t) (''config type must be a struct, got '' @ kind_name t)) w0
         | Some n \<Rightarrow>
             (case map_of env n of None \<Rightarrow> w0
              | Some flds \<Rightarrow> walk std env [n] flds 0 (short_name n) prefix [] w0))"

text \<open>\<open>underBlock\<close>: a proper prefix test on index paths.\<close>

definition underBlock :: "nat list \<Rightarrow> nat list \<Rightarrow> bool" where
  "underBlock bindingIndex blockIndex \<longleftrightarrow>
     \<not> length bindingIndex \<le> length blockIndex \<and> take (length blockIndex) bindingIndex = blockIndex"

section \<open>What the walk keeps\<close>

text \<open>
  Every key is bound once, by the field that claimed it; keys begin with the prefix; every binding
  lies below the place the walk started from.
\<close>

definition walker_inv :: "walker \<Rightarrow> bool" where
  "walker_inv w \<longleftrightarrow> distinct (map b_env (w_bindings w))
     \<and> (\<forall>k. w_seen w k \<noteq> None \<longleftrightarrow> k \<in> b_env ` set (w_bindings w))
     \<and> (\<forall>b \<in> set (w_bindings w). w_seen w (b_env b) = Some (b_field b))
     \<and> (\<forall>b \<in> set (w_bindings w). \<not> b_hasDef b \<longrightarrow> b_def b = [])"

lemma add_frame [simp]:
  "w_bindings (add v w) = w_bindings w" "w_blocks (add v w) = w_blocks w"
  "w_seen (add v w) = w_seen w" "w_violations (add v w) = w_violations w @ [v]"
  by (simp_all add: add_def)

lemma walker_inv_cong:
  "w_bindings w' = w_bindings w \<Longrightarrow> w_seen w' = w_seen w \<Longrightarrow> walker_inv w' = walker_inv w"
  by (simp add: walker_inv_def)

lemma walker_inv_add [simp]: "walker_inv (add v w) = walker_inv w"
  by (rule walker_inv_cong) simp_all

lemma walk_value_cases:
  obtains (rejected) v where "walk_value std f fp prefix fi w = add v w" "v_kind v = KindSchema" "v_field v = fp"
  | (bound) key dec where "walk_value std f fp prefix fi w = w\<lparr>w_seen := (w_seen w)(key \<mapsto> fp),
        w_bindings := w_bindings w @ [make_binding f fp key fi dec]\<rparr>" "has_prefix prefix key"
      "w_seen w key = None" "decoderFor std (f_type f) = Inr dec"
proof (cases "f_env f")
  case None
  then show ?thesis by (intro rejected) (auto simp: walk_value_def schema_def)
next
  case (Some e)
  show ?thesis
  proof (cases "e = [] \<or> w_seen w (prefix @ e) \<noteq> None")
    case True
    then show ?thesis using Some
      by (cases "e = []") (auto simp: walk_value_def schema_def intro: rejected)
  next
    case False
    show ?thesis
    proof (cases "decoderFor std (f_type f)")
      case (Inl err)
      then show ?thesis using Some False by (intro rejected) (auto simp: walk_value_def)
    next
      case (Inr dec)
      then show ?thesis using Some False
        by (intro bound [of "prefix @ e" dec]) (auto simp: walk_value_def has_prefix_def Let_def)
    qed
  qed
qed

lemma walk_value_inv: "walker_inv w \<Longrightarrow> walker_inv (walk_value std f fp prefix fi w)"
  by (cases rule: walk_value_cases [of std f fp prefix fi w])
     (auto simp: walker_inv_def make_binding_def)

text \<open>
  A property of the walker that every single change keeps is kept by the walk. \<open>R\<close> says where the
  walk is: the prefix and the index path it has reached.
\<close>

lemma walk_keeps:
  assumes R: "\<And>pre idx tag i. R pre idx \<Longrightarrow> R (pre @ tag) (idx @ [i])"
    and P_add: "\<And>v w. P w \<Longrightarrow> P (add v w)"
    and P_block: "\<And>k w. P w \<Longrightarrow> P (w\<lparr>w_blocks := w_blocks w @ [k]\<rparr>)"
    and P_value: "\<And>std f fp pre idx i w. R pre idx \<Longrightarrow> P w \<Longrightarrow> P (walk_value std f fp pre (idx @ [i]) w)"
  shows "R prefix index \<Longrightarrow> P w \<Longrightarrow> P (walk std env active fs i path prefix index w)"
proof (induction std env active fs i path prefix index w rule: walk.induct)
  case (2 std env active f fs i path prefix index w)
  note here = "2.prems"
  let ?idx = "index @ [i]" and ?fp = "path @ CHR ''.'' # f_name f"
  have nested: "P (walk std env (active @ [inner]) flds 0 ?fp (prefix @ tag) ?idx w1)"
    if "f_exported f" "f_env f \<noteq> Some ''-''" "\<not> (f_env f \<noteq> None \<and> f_envPrefix f \<noteq> None)"
      "nested_struct (f_type f) = Some inner" "f_envPrefix f = Some tag" "inner \<notin> set active"
      "map_of env inner = Some flds"
      "w1 = (if is_pointer (f_type f) then w\<lparr>w_blocks := w_blocks w @ [\<lparr>k_index = ?idx, k_field = ?fp\<rparr>]\<rparr> else w)"
    for inner tag flds w1
  proof (rule "2.IH"(1) [where x = ?fp, OF _ refl _ that(2-6) that(8,7)])
    show "?fp = path @ ''.'' @ f_name f" by simp
    show "\<not> \<not> f_exported f" using that(1) by simp
    show "R (prefix @ tag) ?idx" by (rule R [OF here(1)])
    show "P w1" using here(2) by (simp add: that(8) P_block)
  qed
  show ?case
    by (subst walk.simps, unfold Let_def, rule "2.IH"(2) [OF refl refl refl [unfolded Let_def] here(1), unfolded Let_def])
       (auto simp: here(2) intro!: P_add P_value [OF here(1)] nested P_block split: option.split)
qed simp

lemma walk_inv: "walker_inv w \<Longrightarrow> walker_inv (walk std env active fs i path prefix index w)"
proof (rule walk_keeps [where R = "\<lambda>pre idx. True"])
  show "\<And>k w. walker_inv w \<Longrightarrow> walker_inv (w\<lparr>w_blocks := w_blocks w @ [k]\<rparr>)"
    by (simp add: walker_inv_def)
qed (simp_all add: walk_value_inv)

lemma walk_prefix:
  assumes "\<forall>b \<in> set (w_bindings w). has_prefix prefix (b_env b)"
  shows "\<forall>b \<in> set (w_bindings (walk std env active fs i path prefix index w)). has_prefix prefix (b_env b)"
proof (rule walk_keeps [where R = "\<lambda>pre idx. has_prefix prefix pre" and P = "\<lambda>w :: walker. \<forall>b \<in> set (w_bindings w). has_prefix prefix (b_env b)"])
  show "\<And>pre idx tag i. has_prefix prefix pre \<Longrightarrow> has_prefix prefix (pre @ tag)"
    by (rule has_prefix_append)
  fix std f fp pre idx i and w :: walker
  assume pre: "has_prefix prefix pre" and w: "\<forall>b \<in> set (w_bindings w). has_prefix prefix (b_env b)"
  show "\<forall>b \<in> set (w_bindings (walk_value std f fp pre (idx @ [i]) w)). has_prefix prefix (b_env b)"
  proof (cases rule: walk_value_cases [of std f fp pre "idx @ [i]" w])
    case (bound key dec)
    have "has_prefix prefix key"
      using pre bound(2) by (rule has_prefix_trans)
    then show ?thesis using w bound(1) by simp
  qed (use w in simp)
qed (use assms in simp_all)

end
