(* ===== verification/Config_Source.thy ===== *)
theory Config_Source
  imports Go_Strings
begin

text \<open>
  Package \<open>config\<close>, \<open>source.go\<close>: where values come from. A \<open>Source\<close> is a function from keys to values or
  absence; \<open>os.ReadFile\<close> is the argument of \<open>Dotenv\<close> that holds what it returned.
\<close>

section \<open>Sources\<close>

type_synonym source = "string \<Rightarrow> string option"

fun Layer :: "source list \<Rightarrow> source" where
  "Layer [] key = None"
| "Layer (s # srcs) key = (case s key of Some v \<Rightarrow> Some v | None \<Rightarrow> Layer srcs key)"

section \<open>Dotenv\<close>

definition dotenv_error :: "string \<Rightarrow> nat \<Rightarrow> string \<Rightarrow> goerr" where
  "dotenv_error path n msg = Err (''config: dotenv '' @ path @ '': line '' @ decimal n @ '': '' @ msg)"

definition unquote :: "string \<Rightarrow> string \<Rightarrow> nat \<Rightarrow> goerr + string" where
  "unquote s path n =
     (if 0 < length s \<and> hd s = CHR 0x22 then
        if length s < 2 \<or> last s \<noteq> CHR 0x22
        then Inl (dotenv_error path n ''unterminated double-quoted value'')
        else (case unquote_chars (butlast (tl s)) of
            None \<Rightarrow> Inl (Wrapped (''config: dotenv '' @ path @ '': line '' @ decimal n
                      @ '': malformed double-quoted value'') (Err ''invalid syntax''))
          | Some v \<Rightarrow> Inr v)
      else if 0 < length s \<and> hd s = CHR 0x27 then
        if length s < 2 \<or> last s \<noteq> CHR 0x27
        then Inl (dotenv_error path n ''unterminated single-quoted value'')
        else Inr (butlast (tl s))
      else Inr s)"

definition dotenv_line ::
  "string \<Rightarrow> nat \<Rightarrow> string \<Rightarrow> (string \<rightharpoonup> string) \<Rightarrow> goerr + (string \<rightharpoonup> string)"
where
  "dotenv_line path n line vals =
     (let trimmed = trim_space line in
      if trimmed = [] \<or> has_prefix ''#'' trimmed then Inr vals
      else case cut (CHR ''='') trimmed of
          (k, rawVal, found) \<Rightarrow>
            if \<not> found then Inl (dotenv_error path n ''not a KEY=VALUE assignment'')
            else let key = trim_space (trim_prefix ''export '' (trim_space k)) in
              if key = [] then Inl (dotenv_error path n ''empty key'')
              else if vals key \<noteq> None then Inl (dotenv_error path n (''duplicate key '' @ key))
              else (case unquote (trim_space rawVal) path n of
                  Inl e \<Rightarrow> Inl e
                | Inr val \<Rightarrow> Inr (vals(key \<mapsto> val))))"

fun dotenv_lines ::
  "string \<Rightarrow> nat \<Rightarrow> string list \<Rightarrow> (string \<rightharpoonup> string) \<Rightarrow> goerr + (string \<rightharpoonup> string)"
where
  "dotenv_lines path n [] vals = Inr vals"
| "dotenv_lines path n (line # lines) vals =
     (case dotenv_line path n line vals of
        Inl e \<Rightarrow> Inl e
      | Inr vals' \<Rightarrow> dotenv_lines path (Suc n) lines vals')"

definition Dotenv :: "string \<Rightarrow> goerr + string \<Rightarrow> goerr + source" where
  "Dotenv path file =
     (case file of
        Inl e \<Rightarrow> Inl (Wrapped ''config: dotenv'' e)
      | Inr b \<Rightarrow> dotenv_lines path 1 (split_on (CHR 0x0A) b) Map.empty)"

section \<open>Written back\<close>












section \<open>Properties\<close>



text \<open>A key between white space of Unicode is read without it: here U+00A0 before it and U+3000 after it.\<close>

lemma dotenv_trims_unicode_space:
  "Dotenv ''.env'' (Inr ([CHR 0xC2, CHR 0xA0] @ ''DSN'' @ [CHR 0xE3, CHR 0x80, CHR 0x80] @ ''= 1 ''))
    = Inr [''DSN'' \<mapsto> ''1'']"
proof -
  have "trim_space ([CHR 0xC2, CHR 0xA0] @ ''DSN'' @ [CHR 0xE3, CHR 0x80, CHR 0x80] @ ''= 1 '') =
      ''DSN'' @ [CHR 0xE3, CHR 0x80, CHR 0x80] @ ''= 1''"
    "trim_space (''DSN'' @ [CHR 0xE3, CHR 0x80, CHR 0x80]) = ''DSN''" "trim_space '' 1'' = ''1''"
    "trim_space ''DSN'' = ''DSN''"
    by (simp_all add: trim_space_def trim_left.simps leading_def spaces_def has_prefix_simps)
  then show ?thesis
    by (simp add: Dotenv_def dotenv_line_def cut_def has_prefix_def trim_prefix_def unquote_def)
qed

text \<open>Layers. A layered source gives each key the value of the first source that has it, so a source
  in front is never shadowed, and an empty value counts as set.\<close>

lemma layer_never_shadows_the_front:
  "Layer (s # srcs) key = (if s key \<noteq> None then s key else Layer srcs key)
    \<and> (Layer (srcs @ srcs') key = (case Layer srcs key of Some v \<Rightarrow> Some v | None \<Rightarrow> Layer srcs' key))
    \<and> (Layer srcs key = None \<longleftrightarrow> (\<forall>s \<in> set srcs. s key = None))"
  by (induction srcs) (auto split: option.split)

end
