(* ===== verification/Config_Load.thy ===== *)
theory Config_Load
  imports Config_Plan Config_Source
begin

text \<open>
  Package \<open>config\<close>, \<open>config.go\<close>: \<open>Load\<close>, stage by stage. The struct that is filled is what was written to
  it: the values by index path, and the optional blocks that were allocated on the way
  (\<open>fieldByIndexAlloc\<close>). \<open>os.LookupEnv\<close> is the argument \<open>os_env\<close>; the caller's \<open>Validate\<close>, if the type has
  one, is the argument \<open>validate\<close>.
\<close>

section \<open>Options\<close>

record load_options =
  lo_src :: source
  lo_prefix :: string

datatype load_option = WithSource source | WithPrefix string

fun apply_load_option :: "load_option \<Rightarrow> load_options \<Rightarrow> load_options" where
  "apply_load_option (WithSource s) o' = o'\<lparr>lo_src := s\<rparr>"
| "apply_load_option (WithPrefix p) o' = o'\<lparr>lo_prefix := p\<rparr>"

section \<open>Resolving and skipping\<close>

definition resolve :: "source \<Rightarrow> binding list \<Rightarrow> string option list" where
  "resolve src bs = map (\<lambda>b. src (b_env b)) bs"

text \<open>The inner loop over the bindings, with its \<open>break\<close>.\<close>

fun block_present :: "block \<Rightarrow> binding list \<Rightarrow> string option list \<Rightarrow> bool" where
  "block_present blk (b # bs) (r # rs) =
     (if underBlock (b_index b) (k_index blk) \<and> r \<noteq> None then True else block_present blk bs rs)"
| "block_present blk _ _ = False"

definition skip_block :: "binding list \<Rightarrow> string option list \<Rightarrow> block \<Rightarrow> bool list \<Rightarrow> bool list" where
  "skip_block bs res blk skip =
     (if block_present blk bs res then skip
      else map (\<lambda>(b, s). if underBlock (b_index b) (k_index blk) then True else s) (zip bs skip))"

definition skips :: "binding list \<Rightarrow> block list \<Rightarrow> string option list \<Rightarrow> bool list" where
  "skips bs blocks res = foldl (\<lambda>skip blk. skip_block bs res blk skip) (replicate (length bs) False) blocks"

section \<open>Decoding into the struct\<close>

record loaded =
  ld_values :: "(nat list \<times> val) list"
  ld_allocated :: "nat list list"

definition empty_struct :: loaded where
  "empty_struct = \<lparr>ld_values = [], ld_allocated = []\<rparr>"

text \<open>Walking to the field allocates the blocks on the path; then the decoder writes it or fails.\<close>

definition fieldByIndexAlloc :: "block list \<Rightarrow> nat list \<Rightarrow> loaded \<Rightarrow> loaded" where
  "fieldByIndexAlloc blocks path v =
     v\<lparr>ld_allocated := ld_allocated v @ filter (underBlock path) (map k_index blocks)\<rparr>"

definition decode_field :: "block list \<Rightarrow> binding \<Rightarrow> string \<Rightarrow> loaded \<Rightarrow> loaded \<times> violation list" where
  "decode_field blocks b raw v =
     (let v1 = fieldByIndexAlloc blocks (b_index b) v in
      case b_dec b raw of
        Inl e \<Rightarrow> (v1, [\<lparr>v_env = b_env b, v_field = b_field b, v_kind = KindDecode, v_err = e\<rparr>])
      | Inr x \<Rightarrow> (v1\<lparr>ld_values := ld_values v1 @ [(b_index b, x)]\<rparr>, []))"

definition required :: "binding \<Rightarrow> violation" where
  "required b = \<lparr>v_env = b_env b, v_field = b_field b, v_kind = KindRequired,
     v_err = Err ''required, not set''\<rparr>"

fun decode_all ::
  "block list \<Rightarrow> binding list \<Rightarrow> string option list \<Rightarrow> bool list \<Rightarrow> loaded \<Rightarrow> violation list
     \<Rightarrow> loaded \<times> violation list"
where
  "decode_all blocks (b # bs) (r # rs) (s # ss) v vs =
     (if s then decode_all blocks bs rs ss v vs
      else case r of
          Some raw \<Rightarrow> (case decode_field blocks b raw v of (v', new) \<Rightarrow> decode_all blocks bs rs ss v' (vs @ new))
        | None \<Rightarrow>
            if b_hasDef b
            then (case decode_field blocks b (b_def b) v of (v', new) \<Rightarrow> decode_all blocks bs rs ss v' (vs @ new))
            else if b_ptr b then decode_all blocks bs rs ss v vs
            else decode_all blocks bs rs ss v (vs @ [required b]))"
| "decode_all blocks _ _ _ v vs = (v, vs)"

definition Load ::
  "std \<Rightarrow> structs \<Rightarrow> source \<Rightarrow> (loaded \<Rightarrow> goerr option) option \<Rightarrow> ty \<Rightarrow> load_option list
     \<Rightarrow> violation list + loaded"
where
  "Load std env os_env validate t opts =
     (let o' = fold apply_load_option opts \<lparr>lo_src = os_env, lo_prefix = []\<rparr>;
          p = buildPlan std env t (lo_prefix o')
      in if w_violations p \<noteq> [] then Inl (w_violations p)
         else let res = resolve (lo_src o') (w_bindings p);
                  skip = skips (w_bindings p) (w_blocks p) res
              in case decode_all (w_blocks p) (w_bindings p) res skip empty_struct [] of
                   (v, vs) \<Rightarrow>
                     if vs \<noteq> [] then Inl vs
                     else case validate of
                         None \<Rightarrow> Inr v
                       | Some f \<Rightarrow>
                           (case f v of
                              None \<Rightarrow> Inr v
                            | Some e \<Rightarrow> Inl [\<lparr>v_env = [], v_field = short_name (type_string t),
                                v_kind = KindValidate, v_err = e\<rparr>]))"

section \<open>The loops against what they compute\<close>

text \<open>A binding sleeps in a block none of whose keys is set.\<close>

definition block_set :: "source \<Rightarrow> binding list \<Rightarrow> block \<Rightarrow> bool" where
  "block_set src bs blk \<longleftrightarrow> list_ex (\<lambda>b. underBlock (b_index b) (k_index blk) \<and> src (b_env b) \<noteq> None) bs"

definition dormant :: "source \<Rightarrow> binding list \<Rightarrow> block list \<Rightarrow> binding \<Rightarrow> bool" where
  "dormant src bs blocks b \<longleftrightarrow>
     list_ex (\<lambda>blk. underBlock (b_index b) (k_index blk) \<and> \<not> block_set src bs blk) blocks"

text \<open>The text a binding gets: the value of its key, else its default.\<close>

definition text_for :: "source \<Rightarrow> binding \<Rightarrow> string option" where
  "text_for src b = (case src (b_env b) of Some raw \<Rightarrow> Some raw
     | None \<Rightarrow> if b_hasDef b then Some (b_def b) else None)"

definition problem :: "source \<Rightarrow> binding \<Rightarrow> violation list" where
  "problem src b =
     (case text_for src b of
        None \<Rightarrow> if b_ptr b then [] else [required b]
      | Some raw \<Rightarrow> (case b_dec b raw of
          Inl e \<Rightarrow> [\<lparr>v_env = b_env b, v_field = b_field b, v_kind = KindDecode, v_err = e\<rparr>]
        | Inr x \<Rightarrow> []))"

definition value_of :: "source \<Rightarrow> binding \<Rightarrow> (nat list \<times> val) list" where
  "value_of src b =
     (case text_for src b of None \<Rightarrow> []
      | Some raw \<Rightarrow> (case b_dec b raw of Inl e \<Rightarrow> [] | Inr x \<Rightarrow> [(b_index b, x)]))"

definition awake :: "source \<Rightarrow> binding list \<Rightarrow> block list \<Rightarrow> binding list" where
  "awake src bs blocks = filter (\<lambda>b. \<not> dormant src bs blocks b) bs"

lemma block_present_resolve:
  "block_present blk bs (resolve src bs) = block_set src bs blk"
  by (induction bs) (auto simp: resolve_def block_set_def)

lemma length_skip_block [simp]: "length skip = length bs \<Longrightarrow> length (skip_block bs res blk skip) = length bs"
  by (simp add: skip_block_def)

lemma skip_block_map:
  "skip_block bs (resolve src bs) blk (map f bs)
     = map (\<lambda>b. f b \<or> (underBlock (b_index b) (k_index blk) \<and> \<not> block_set src bs blk)) bs"
  by (auto simp: skip_block_def block_present_resolve zip_map2 zip_same_conv_map)

lemma skips_eq: "skips bs blocks (resolve src bs) = map (dormant src bs blocks) bs"
proof -
  have "foldl (\<lambda>skip blk. skip_block bs (resolve src bs) blk skip) (map f bs) blocks
      = map (\<lambda>b. f b \<or> dormant src bs blocks b) bs" for f
    by (induction blocks arbitrary: f) (simp_all add: skip_block_map dormant_def disj_assoc)
  from this [of "\<lambda>b. False"] show ?thesis by (simp add: skips_def map_replicate_const)
qed

lemma decode_all_eq:
  "decode_all blocks bs (resolve src bs) (map sleeps bs) v vs =
     (\<lparr>ld_values = ld_values v @ concat (map (value_of src) (filter (\<lambda>b. \<not> sleeps b) bs)),
       ld_allocated = ld_allocated v @ concat (map (\<lambda>b. filter (underBlock (b_index b)) (map k_index blocks))
         (filter (\<lambda>b. text_for src b \<noteq> None) (filter (\<lambda>b. \<not> sleeps b) bs)))\<rparr>,
      vs @ concat (map (problem src) (filter (\<lambda>b. \<not> sleeps b) bs)))"
proof (induction bs arbitrary: v vs)
  case (Cons b bs)
  have "decode_field blocks b raw v =
      (v\<lparr>ld_allocated := ld_allocated v @ filter (underBlock (b_index b)) (map k_index blocks),
         ld_values := ld_values v @ (case b_dec b raw of Inl e \<Rightarrow> [] | Inr x \<Rightarrow> [(b_index b, x)])\<rparr>,
       case b_dec b raw of
         Inl e \<Rightarrow> [\<lparr>v_env = b_env b, v_field = b_field b, v_kind = KindDecode, v_err = e\<rparr>] | Inr x \<Rightarrow> [])" for raw v
    by (simp add: decode_field_def fieldByIndexAlloc_def split: sum.split)
  with Cons show ?case
    by (cases "src (b_env b)") (simp_all add: resolve_def value_of_def problem_def text_for_def)
qed (simp add: resolve_def)

section \<open>Properties\<close>

text \<open>C8: \<open>Load\<close> is all or nothing and reports every problem at once. A type the walk objects to is
  refused under any environment. Otherwise each binding outside the optional blocks nobody opted into
  either gets its value (the key's, even when empty, else its default, else nil behind a pointer) or
  is a problem (missing, or not decodable); if there is any problem the whole list of them is
  returned, in the order of the fields; and the caller's \<open>Validate\<close> sees the struct only when there
  is none.\<close>

theorem load_reports_every_problem:
  "Load std env os_env validate t opts =
     (let o' = fold apply_load_option opts \<lparr>lo_src = os_env, lo_prefix = []\<rparr>;
          p = buildPlan std env t (lo_prefix o');
          bs = awake (lo_src o') (w_bindings p) (w_blocks p);
          problems = concat (map (problem (lo_src o')) bs);
          v = \<lparr>ld_values = concat (map (value_of (lo_src o')) bs),
               ld_allocated = concat (map (\<lambda>b. filter (underBlock (b_index b)) (map k_index (w_blocks p)))
                 (filter (\<lambda>b. text_for (lo_src o') b \<noteq> None) bs))\<rparr>
      in if w_violations p \<noteq> [] then Inl (w_violations p)
         else if problems \<noteq> [] then Inl problems
         else case validate of None \<Rightarrow> Inr v
           | Some f \<Rightarrow> (case f v of None \<Rightarrow> Inr v
               | Some e \<Rightarrow> Inl [\<lparr>v_env = [], v_field = short_name (type_string t),
                   v_kind = KindValidate, v_err = e\<rparr>]))"
  unfolding Load_def Let_def skips_eq decode_all_eq awake_def empty_struct_def prod.case
  by (simp only: loaded.simps append_Nil)

text \<open>C33: an optional block exists exactly when the operator opted into it. After a successful load, the
  pointer of a nested block has been allocated if and only if at least one key of its subtree is set
  in the source; defaults inside the block never bring it to life.\<close>

theorem optional_block_exists_iff_set:
  assumes "Load std env os_env validate t opts = Inr v"
  defines "o' \<equiv> fold apply_load_option opts \<lparr>lo_src = os_env, lo_prefix = []\<rparr>"
  defines "p \<equiv> buildPlan std env t (lo_prefix o')"
  assumes "k \<in> set (w_blocks p)"
  shows "k_index k \<in> set (ld_allocated v)
    \<longleftrightarrow> (\<exists>b \<in> set (w_bindings p). underBlock (b_index b) (k_index k) \<and> lo_src o' (b_env b) \<noteq> None)"
proof -
  let ?src = "lo_src o'"
  let ?bs = "awake ?src (w_bindings p) (w_blocks p)"
  have "ld_allocated v = concat (map (\<lambda>b. filter (underBlock (b_index b)) (map k_index (w_blocks p)))
      (filter (\<lambda>b. text_for ?src b \<noteq> None) ?bs))"
    using assms(1) unfolding Load_def o'_def [symmetric] Let_def p_def [symmetric] skips_eq decode_all_eq awake_def
    by (auto simp: empty_struct_def split: if_splits option.splits)
  then have allocated: "k_index k \<in> set (ld_allocated v)
      \<longleftrightarrow> (\<exists>b \<in> set ?bs. text_for ?src b \<noteq> None \<and> underBlock (b_index b) (k_index k))"
    using assms(4) by auto
  have set_iff: "block_set ?src (w_bindings p) k
      \<longleftrightarrow> (\<exists>b \<in> set (w_bindings p). underBlock (b_index b) (k_index k) \<and> ?src (b_env b) \<noteq> None)"
    by (auto simp: block_set_def list_ex_iff)
  show ?thesis
    unfolding allocated
  proof
    assume "\<exists>b \<in> set ?bs. text_for ?src b \<noteq> None \<and> underBlock (b_index b) (k_index k)"
    then have "block_set ?src (w_bindings p) k"
      using assms(4) by (auto simp: awake_def dormant_def list_ex_iff)
    then show "\<exists>b \<in> set (w_bindings p). underBlock (b_index b) (k_index k) \<and> ?src (b_env b) \<noteq> None"
      by (simp add: set_iff)
  next
    assume "\<exists>b \<in> set (w_bindings p). underBlock (b_index b) (k_index k) \<and> ?src (b_env b) \<noteq> None"
    then obtain b where b: "b \<in> set (w_bindings p)" "underBlock (b_index b) (k_index k)" "?src (b_env b) \<noteq> None"
      by blast
    then have "\<not> dormant ?src (w_bindings p) (w_blocks p) b"
      by (auto simp: dormant_def block_set_def list_ex_iff)
    with b show "\<exists>b \<in> set ?bs. text_for ?src b \<noteq> None \<and> underBlock (b_index b) (k_index k)"
      by (intro bexI [of _ b]) (auto simp: awake_def text_for_def)
  qed
qed

definition demo_std :: std where
  "demo_std = \<lparr>std_float = (\<lambda>bits raw. Inl ErrSyntax), std_duration = (\<lambda>raw. Inl ErrSyntax),
     std_unmarshal = (\<lambda>name raw. Inl ErrSyntax)\<rparr>"

definition demo_structs :: structs where
  "demo_structs =
     [(''Cfg'', [\<lparr>f_name = ''Redis'', f_exported = True, f_env = None, f_envPrefix = Some ''REDIS_'',
        f_default = None, f_type = TPtr (TStruct ''Redis'')\<rparr>]),
      (''Redis'', [\<lparr>f_name = ''Addr'', f_exported = True, f_env = Some ''ADDR'', f_envPrefix = None,
        f_default = Some ''localhost'', f_type = TString ''string''\<rparr>])]"

lemma demo_plan:
  "buildPlan std demo_structs (TStruct ''Cfg'') [] =
     \<lparr>w_bindings = [\<lparr>b_index = [0, 0], b_field = ''Cfg.Redis.Addr'', b_env = ''REDIS_ADDR'',
        b_def = ''localhost'', b_hasDef = True, b_ptr = False, b_dec = (\<lambda>raw. Inr (VString raw))\<rparr>],
      w_blocks = [\<lparr>k_index = [0], k_field = ''Cfg.Redis''\<rparr>], w_violations = [],
      w_seen = [''REDIS_ADDR'' \<mapsto> ''Cfg.Redis.Addr'']\<rparr>"
  by (simp add: buildPlan_def struct_of_def demo_structs_def short_name_def walk_value_def make_binding_def Let_def)

theorem optional_block_exists_iff_set_witness:
  "\<exists>v w. Load demo_std demo_structs Map.empty None (TStruct ''Cfg'') [WithSource [''REDIS_ADDR'' \<mapsto> ''h:1'']] = Inr v
    \<and> [0] \<in> set (ld_allocated v)
    \<and> Load demo_std demo_structs Map.empty None (TStruct ''Cfg'') [] = Inr w \<and> [0] \<notin> set (ld_allocated w)"
proof -
  obtain v where v: "Load demo_std demo_structs Map.empty None (TStruct ''Cfg'')
      [WithSource [''REDIS_ADDR'' \<mapsto> ''h:1'']] = Inr v"
    by (simp add: Load_def demo_plan resolve_def skips_def skip_block_def underBlock_def decode_field_def
        fieldByIndexAlloc_def Let_def)
  obtain w where w: "Load demo_std demo_structs Map.empty None (TStruct ''Cfg'') [] = Inr w"
    by (simp add: Load_def demo_plan resolve_def skips_def skip_block_def underBlock_def decode_field_def
        fieldByIndexAlloc_def Let_def)
  show ?thesis
    using v w optional_block_exists_iff_set [OF v, of "\<lparr>k_index = [0], k_field = ''Cfg.Redis''\<rparr>"]
      optional_block_exists_iff_set [OF w, of "\<lparr>k_index = [0], k_field = ''Cfg.Redis''\<rparr>"]
    by (simp add: demo_plan underBlock_def)
qed

text \<open>C34: the plan. No environment key is bound twice, the keys claimed are exactly the keys bound, and
  every one begins with the prefix \<open>Load\<close> was given; the walk that finds this out ends for every type,
  also for one that contains itself, which it refuses.\<close>

theorem plan_binds_each_key_once:
  "distinct (map b_env (w_bindings (buildPlan std env t prefix)))
    \<and> dom (w_seen (buildPlan std env t prefix)) = b_env ` set (w_bindings (buildPlan std env t prefix))
    \<and> list_all (\<lambda>b. has_prefix prefix (b_env b)) (w_bindings (buildPlan std env t prefix))
    \<and> w_violations (buildPlan std
        [(''Node'', [\<lparr>f_name = ''Next'', f_exported = True, f_env = None, f_envPrefix = Some ''N_'',
           f_default = None, f_type = TPtr (TStruct ''Node'')\<rparr>])] (TStruct ''Node'') prefix) \<noteq> []"
proof (intro conjI)
  let ?w = "\<lparr>w_bindings = [], w_blocks = [], w_violations = [], w_seen = Map.empty\<rparr>"
  have "walker_inv ?w" by (simp add: walker_inv_def)
  then have inv: "walker_inv (buildPlan std env t prefix)"
    by (auto simp: buildPlan_def Let_def walk_inv split: option.split)
  then show "distinct (map b_env (w_bindings (buildPlan std env t prefix)))" by (simp add: walker_inv_def)
  show "dom (w_seen (buildPlan std env t prefix)) = b_env ` set (w_bindings (buildPlan std env t prefix))"
    using inv by (auto simp: walker_inv_def dom_def)
  show "list_all (\<lambda>b. has_prefix prefix (b_env b)) (w_bindings (buildPlan std env t prefix))"
    using walk_prefix [of ?w prefix] by (auto simp: list_all_iff buildPlan_def Let_def split: option.split)
qed (simp add: buildPlan_def struct_of_def)

text \<open>C35: numbers and lists. An integer field of any width reads back every number that fits, written in
  decimal, and refuses every other; a list of integers reads back every list of such numbers joined
  by commas, and the empty text is the empty list, not one empty element.\<close>

theorem integers_and_lists_read_back:
  "(\<exists>dec. decoderFor std (TInt name bits) = Inr dec
      \<and> (\<forall>n. dec (itoa n) = (if - (2 ^ (bits - 1)) \<le> n \<and> n < 2 ^ (bits - 1) then Inr (VInt n)
           else Inl (numError name (itoa n) ErrRange))))
    \<and> (\<exists>dec. decoderFor std (TSlice (TInt name bits)) = Inr dec \<and> dec [] = Inr (VSlice [])
      \<and> (\<forall>ns. ns \<noteq> [] \<and> (\<forall>n \<in> set ns. - (2 ^ (bits - 1)) \<le> n \<and> n < 2 ^ (bits - 1)) \<longrightarrow>
           dec (join_on (CHR '','') (map itoa ns)) = Inr (VSlice (map VInt ns))))"
proof -
  let ?dec = "\<lambda>raw. case parse_int bits raw of Inl e \<Rightarrow> Inl (numError name raw e) | Inr v \<Rightarrow> Inr (VInt v)"
  have elements: "decode_elements ?dec i (map itoa ns) = Inr (map VInt ns)"
    if "\<forall>n \<in> set ns. - (2 ^ (bits - 1)) \<le> n \<and> n < 2 ^ (bits - 1)" for i ns
    using that by (induction ns arbitrary: i) (simp_all add: parse_int_itoa)
  have "decode_slice ?dec (join_on (CHR '','') (map itoa ns)) = Inr (VSlice (map VInt ns))"
    if "ns \<noteq> []" "\<forall>n \<in> set ns. - (2 ^ (bits - 1)) \<le> n \<and> n < 2 ^ (bits - 1)" for ns
  proof -
    have "split_on (CHR '','') (join_on (CHR '','') (map itoa ns)) = map itoa ns"
      using that(1) by (intro split_join) (simp_all add: comma_not_in_itoa)
    moreover have "join_on (CHR '','') (map itoa ns) \<noteq> []"
      using that(1) by (cases ns; cases "tl ns") auto
    ultimately show ?thesis using elements [OF that(2)] by (simp add: decode_slice_def)
  qed
  then show ?thesis by (auto simp: decode_slice_def slice_decoder_def parse_int_itoa)
qed

theorem integers_and_lists_read_back_witness:
  "\<exists>dec. decoderFor demo_std (TSlice (TInt ''int8'' 8)) = Inr dec
    \<and> dec (join_on (CHR '','') (map itoa [1, -128, 127])) = Inr (VSlice [VInt 1, VInt (-128), VInt 127])"
proof -
  let ?in = "\<lambda>ns :: int list. \<forall>n \<in> set ns. - (2 ^ (8 - 1)) \<le> n \<and> n < 2 ^ (8 - 1)"
  obtain dec where dec: "decoderFor demo_std (TSlice (TInt ''int8'' 8)) = Inr dec"
    and reads: "\<forall>ns. ns \<noteq> [] \<and> ?in ns \<longrightarrow> dec (join_on (CHR '','') (map itoa ns)) = Inr (VSlice (map VInt ns))"
    using integers_and_lists_read_back [of demo_std "''int8''" 8] by (elim conjE exE) (rule that)
  have "?in [1, -128, 127]" by simp
  then have "dec (join_on (CHR '','') (map itoa [1, -128, 127])) = Inr (VSlice (map VInt [1, -128, 127]))"
    by (intro reads [rule_format]) simp
  with dec show ?thesis unfolding list.map by blast
qed

end
