(* ===== verification/Http_Handlers.thy ===== *)
theory Http_Handlers
  imports World Middleware Go_Strings
begin

text \<open>
  Package \<open>httpserver\<close>, \<open>accesslog.go\<close> and \<open>recover.go\<close>, and the part of \<open>net/http\<close> under a handler: requests
  are objects (\<open>ServeMux\<close> writes the matched pattern into the instance it is given, \<open>WithContext\<close>
  makes a new one), a response writer is the connection behind the \<open>statusWriter\<close>s wrapped around it,
  and the connection takes any number of informational codes but one final status.
\<close>

section \<open>State\<close>

datatype panic_value = PanicError goerr | PanicOther string

datatype log_value = LStr string | LInt int | LPanic panic_value

record log_line =
  ll_level :: string
  ll_message :: string
  ll_span :: "nat option"
  ll_attrs :: "(string \<times> log_value) list"

record status_writer =
  sw_status :: int
  sw_written :: bool

record hstate =
  hs_now :: time
  hs_next :: nat
  hs_pattern :: "nat \<Rightarrow> string"
  hs_writers :: "nat \<Rightarrow> status_writer"
  hs_informational :: "int list"
  hs_header :: "(string \<times> string) list"
  hs_wire :: "int option"
  hs_body :: string
  hs_log :: "log_line list"
  hs_otel :: "otel_call list"
  hs_head :: bool

record srequest =
  sq_id :: nat
  sq_method :: string
  sq_header :: "string \<Rightarrow> string"
  sq_ctx :: ctx

text \<open>A writer: the identities of the \<open>statusWriter\<close>s around the connection, outermost first.\<close>

type_synonym writer = "nat list"

type_synonym handler = "srequest \<Rightarrow> writer \<Rightarrow> hstate \<Rightarrow> hstate \<times> panic_value option"

section \<open>Writing\<close>

definition informational :: "int \<Rightarrow> bool" where
  "informational code \<longleftrightarrow> 100 \<le> code \<and> code \<le> 199 \<and> code \<noteq> 101"

text \<open>
  The connection: informational codes are sent at once, the first other code is the status, a 204 or
  a 304 takes no body, and the body of the answer to a \<open>HEAD\<close> request (\<open>hs_head\<close>) is not sent. Codes outside 100 to 999, on which \<open>net/http\<close> panics, are excluded by
  \<open>final_act\<close> where it matters.
\<close>

definition conn_write_header :: "int \<Rightarrow> hstate \<Rightarrow> hstate" where
  "conn_write_header code s =
     (if hs_wire s \<noteq> None then s
      else if informational code then s\<lparr>hs_informational := hs_informational s @ [code]\<rparr>
      else s\<lparr>hs_wire := Some code\<rparr>)"

definition conn_write :: "string \<Rightarrow> hstate \<Rightarrow> hstate" where
  "conn_write b s =
     (let s1 = conn_write_header 200 s
      in if hs_wire s1 = Some 204 \<or> hs_wire s1 = Some 304 \<or> hs_head s1 then s1 else s1\<lparr>hs_body := hs_body s1 @ b\<rparr>)"

fun write_header :: "writer \<Rightarrow> int \<Rightarrow> hstate \<Rightarrow> hstate" where
  "write_header [] code s = conn_write_header code s"
| "write_header (l # w) code s =
     (let s1 = (if \<not> sw_written (hs_writers s l)
                then s\<lparr>hs_writers := (hs_writers s)(l := \<lparr>sw_status = code, sw_written = True\<rparr>)\<rparr> else s)
      in write_header w code s1)"

fun write_body :: "writer \<Rightarrow> string \<Rightarrow> hstate \<Rightarrow> hstate" where
  "write_body [] b s = conn_write b s"
| "write_body (l # w) b s =
     (let s1 = (if \<not> sw_written (hs_writers s l)
                then s\<lparr>hs_writers := (hs_writers s)(l := \<lparr>sw_status = 200, sw_written = True\<rparr>)\<rparr> else s)
      in write_body w b s1)"

text \<open>A connection on which the request \<open>r\<close> has been read and nothing answered, and the body that answers it.\<close>

definition awaits :: "srequest \<Rightarrow> hstate \<Rightarrow> bool" where
  "awaits r s \<longleftrightarrow> hs_wire s = None \<and> (hs_head s \<longleftrightarrow> sq_method r = MethodHead)"

definition sent_body :: "srequest \<Rightarrow> string \<Rightarrow> string" where
  "sent_body r b = (if sq_method r = MethodHead then [] else b)"

text \<open>\<open>&statusWriter{ResponseWriter: w, status: http.StatusOK}\<close>.\<close>

definition wrap_writer :: "writer \<Rightarrow> hstate \<Rightarrow> writer \<times> hstate" where
  "wrap_writer w s =
     (hs_next s # w,
      s\<lparr>hs_next := Suc (hs_next s),
        hs_writers := (hs_writers s)(hs_next s := \<lparr>sw_status = 200, sw_written = False\<rparr>)\<rparr>)"

definition log_attrs :: "srequest \<Rightarrow> string \<Rightarrow> string \<Rightarrow> (string \<times> log_value) list \<Rightarrow> hstate \<Rightarrow> hstate" where
  "log_attrs r level msg attrs s =
     s\<lparr>hs_log := hs_log s @ [\<lparr>ll_level = level, ll_message = msg, ll_span = ctx_span (sq_ctx r), ll_attrs = attrs\<rparr>]\<rparr>"

text \<open>What \<open>net/http\<close> does when the outermost handler is back: a plain return without a status is a 200.\<close>

definition conn_finish :: "hstate \<times> panic_value option \<Rightarrow> hstate" where
  "conn_finish res = (case res of (s, None) \<Rightarrow> conn_write_header 200 s | (s, Some v) \<Rightarrow> s)"

section \<open>AccessLog\<close>

definition elapsed_ms :: "time \<Rightarrow> time \<Rightarrow> int" where
  "elapsed_ms now start = sint (time_sub now start) sdiv 1000000"

definition access_attrs :: "srequest \<Rightarrow> nat \<Rightarrow> time \<Rightarrow> hstate \<Rightarrow> (string \<times> log_value) list" where
  "access_attrs r l start s =
     [(''method'', LStr (sq_method r))]
       @ (if hs_pattern s (sq_id r) \<noteq> [] then [(''route'', LStr (hs_pattern s (sq_id r)))] else [])
       @ (if sw_written (hs_writers s l) then [(''status'', LInt (sw_status (hs_writers s l)))] else [])
       @ [(''duration_ms'', LInt (elapsed_ms (hs_now s) start))]"

definition AccessLog :: "handler \<Rightarrow> handler" where
  "AccessLog nxt r w s =
     (let start = hs_now s;
          (sw, s1) = wrap_writer w s;
          (s2, res) = nxt r sw s1
      in (log_attrs r ''INFO'' ''http request'' (access_attrs r (hd sw) start s2) s2, res))"

section \<open>Recover\<close>

definition ErrAbortHandler :: goerr where
  "ErrAbortHandler = Err ''net/http: abort Handler''"

fun is_abort :: "panic_value \<Rightarrow> bool" where
  "is_abort (PanicError e) = err_is e ErrAbortHandler"
| "is_abort (PanicOther v) = False"

definition Recover :: "handler \<Rightarrow> handler" where
  "Recover nxt r w s =
     (let (sw, s1) = wrap_writer w s
      in case nxt r sw s1 of
           (s2, None) \<Rightarrow> (s2, None)
         | (s2, Some v) \<Rightarrow>
             if is_abort v then (s2, Some v)
             else let s3 = log_attrs r ''ERROR'' ''panic serving request''
                        [(''panic'', LPanic v), (''stack'', LStr [])] s2
               in (if \<not> sw_written (hs_writers s3 (hd sw)) then write_header sw 500 s3 else s3, None))"

section \<open>Handlers at the end of a chain\<close>

text \<open>What a handler may do with what it is given, and how it ends.\<close>

datatype act = DoWriteHeader int | DoWrite string | Elapse nat

fun perform :: "writer \<Rightarrow> act \<Rightarrow> hstate \<Rightarrow> hstate" where
  "perform w (DoWriteHeader code) s = write_header w code s"
| "perform w (DoWrite b) s = write_body w b s"
| "perform w (Elapse d) s = s\<lparr>hs_now := hs_now s + int d\<rparr>"

definition script_handler :: "act list \<Rightarrow> panic_value option \<Rightarrow> handler" where
  "script_handler acts res r w s = (fold (perform w) acts s, res)"

text \<open>\<open>ServeMux\<close> on a request it matches: the pattern goes into the request it was handed.\<close>

definition mux :: "string \<Rightarrow> handler \<Rightarrow> handler" where
  "mux pattern h r w s = h r w (s\<lparr>hs_pattern := (hs_pattern s)(sq_id r := pattern)\<rparr>)"

section \<open>Every layer knows the status of the connection\<close>

definition final_act :: "act \<Rightarrow> bool" where
  "final_act a = (case a of DoWriteHeader code \<Rightarrow> \<not> informational code \<and> 100 \<le> code \<and> code \<le> 999 | _ \<Rightarrow> True)"

definition in_step :: "writer \<Rightarrow> hstate \<Rightarrow> bool" where
  "in_step w s \<longleftrightarrow> (\<forall>l \<in> set w. hs_writers s l =
     (case hs_wire s of None \<Rightarrow> \<lparr>sw_status = 200, sw_written = False\<rparr>
      | Some c \<Rightarrow> \<lparr>sw_status = c, sw_written = True\<rparr>))"

definition in_range :: "writer \<Rightarrow> hstate \<Rightarrow> bool" where
  "in_range w s \<longleftrightarrow> (\<forall>l \<in> set w. l < hs_next s)"

lemma write_header_frame [simp]:
  "hs_now (write_header w c s) = hs_now s" "hs_next (write_header w c s) = hs_next s"
  "hs_pattern (write_header w c s) = hs_pattern s" "hs_log (write_header w c s) = hs_log s"
  "hs_otel (write_header w c s) = hs_otel s" "hs_head (write_header w c s) = hs_head s"
  by (induction w c s rule: write_header.induct) (auto simp: conn_write_header_def Let_def)

lemma write_header_keeps [simp]:
  "hs_header (write_header w c s) = hs_header s" "hs_body (write_header w c s) = hs_body s"
  by (induction w c s rule: write_header.induct) (auto simp: conn_write_header_def Let_def)

lemma write_body_frame [simp]:
  "hs_now (write_body w b s) = hs_now s" "hs_next (write_body w b s) = hs_next s"
  "hs_pattern (write_body w b s) = hs_pattern s" "hs_log (write_body w b s) = hs_log s"
  "hs_otel (write_body w b s) = hs_otel s" "hs_head (write_body w b s) = hs_head s"
  by (induction w b s rule: write_body.induct) (auto simp: conn_write_def conn_write_header_def Let_def)

lemma write_header_writers:
  "hs_writers (write_header w c s) l =
     (if l \<in> set w \<and> \<not> sw_written (hs_writers s l) then \<lparr>sw_status = c, sw_written = True\<rparr> else hs_writers s l)"
  by (induction w c s rule: write_header.induct) (auto simp: conn_write_header_def Let_def)

lemma write_body_writers:
  "hs_writers (write_body w b s) l =
     (if l \<in> set w \<and> \<not> sw_written (hs_writers s l) then \<lparr>sw_status = 200, sw_written = True\<rparr> else hs_writers s l)"
  by (induction w b s rule: write_body.induct) (auto simp: conn_write_def conn_write_header_def Let_def)

lemma write_header_wire:
  "hs_wire (write_header w c s) = (if hs_wire s = None \<and> \<not> informational c then Some c else hs_wire s)"
  by (induction w c s rule: write_header.induct) (auto simp: conn_write_header_def Let_def)

lemma write_body_wire:
  "hs_wire (write_body w b s) = (if hs_wire s = None then Some 200 else hs_wire s)"
  by (induction w b s rule: write_body.induct)
     (auto simp: conn_write_def conn_write_header_def informational_def Let_def)

lemma write_body_body:
  "hs_wire s = Some c \<Longrightarrow> c \<noteq> 204 \<Longrightarrow> c \<noteq> 304 \<Longrightarrow> hs_body (write_body w b s) = hs_body s @ (if hs_head s then [] else b)"
  by (induction w b s rule: write_body.induct) (auto simp: conn_write_def conn_write_header_def Let_def)

lemma in_step_write_header:
  "in_step w s \<Longrightarrow> \<not> informational c \<Longrightarrow> set v = set w \<Longrightarrow> in_step w (write_header v c s)"
  by (cases "hs_wire s") (auto simp: in_step_def write_header_writers write_header_wire)

lemma in_step_write_body: "in_step w s \<Longrightarrow> set v = set w \<Longrightarrow> in_step w (write_body v b s)"
  by (cases "hs_wire s") (auto simp: in_step_def write_body_writers write_body_wire)

lemma perform_in_step: "final_act a \<Longrightarrow> in_step w s \<Longrightarrow> in_step w (perform w a s)"
  by (cases a) (auto simp: final_act_def in_step_write_header in_step_write_body, simp add: in_step_def)

lemma script_in_step:
  "list_all final_act acts \<Longrightarrow> in_step w s \<Longrightarrow> in_step w (fold (perform w) acts s)"
  by (induction acts arbitrary: s) (simp_all add: perform_in_step)

lemma perform_frame [simp]:
  "hs_next (perform w a s) = hs_next s" "hs_pattern (perform w a s) = hs_pattern s"
  "hs_log (perform w a s) = hs_log s" "hs_otel (perform w a s) = hs_otel s" "hs_head (perform w a s) = hs_head s"
  by (cases a; simp)+

lemma script_frame [simp]:
  "hs_next (fold (perform w) acts s) = hs_next s" "hs_pattern (fold (perform w) acts s) = hs_pattern s"
  "hs_log (fold (perform w) acts s) = hs_log s" "hs_otel (fold (perform w) acts s) = hs_otel s"
  by (induction acts arbitrary: s) simp_all

end
