(* ===== verification/Telemetry_Server.thy ===== *)
theory Telemetry_Server
  imports Http_Handlers Telemetry_Client
begin

text \<open>
  Package \<open>telemetry\<close>, \<open>server.go\<close> and \<open>extractor.go\<close>: the server middleware over the handlers of
  \<open>Http_Handlers\<close>, the naming of its span, and the log extractor. The middlewares in their documented
  order, in the two wrong ones, and what each makes of a request. \<open>http.StatusText\<close> and the
  OpenTelemetry API are arguments, as in \<open>Telemetry_Client\<close>.
\<close>

section \<open>Span names\<close>

text \<open>\<open>strings.IndexByte\<close>, -1 when the byte does not occur.\<close>

definition index_byte :: "string \<Rightarrow> char \<Rightarrow> int" where
  "index_byte s c =
     (let n = length (takeWhile (\<lambda>x. x \<noteq> c) s) in if n = length s then -1 else int n)"

definition routeHasMethodPrefix :: "string \<Rightarrow> bool" where
  "routeHasMethodPrefix pattern =
     (let i = index_byte pattern CHR '' ''
      in if i \<le> 0 then False else CHR ''/'' \<notin> set (take (nat i) pattern))"

definition span_name :: "string \<Rightarrow> string \<Rightarrow> string" where
  "span_name method pattern =
     (if routeHasMethodPrefix pattern then pattern else method @ '' '' @ pattern)"

section \<open>The middleware\<close>

definition emits :: "otel_call list \<Rightarrow> hstate \<Rightarrow> hstate" where
  "emits cs s = s\<lparr>hs_otel := hs_otel s @ cs\<rparr>"

definition route_attr :: "string \<Rightarrow> string \<times> otel_value" where
  "route_attr p = (''http.route'', OStr p)"

definition server_histogram :: string where
  "server_histogram = ''http.server.request.duration''"

text \<open>\<open>r.WithContext(ctx)\<close>: a new request object that starts with the old one's pattern.\<close>

definition WithContext :: "ctx \<Rightarrow> srequest \<Rightarrow> hstate \<Rightarrow> srequest \<times> hstate" where
  "WithContext c r s =
     (r\<lparr>sq_id := hs_next s, sq_ctx := c\<rparr>,
      s\<lparr>hs_next := Suc (hs_next s), hs_pattern := (hs_pattern s)(hs_next s := hs_pattern s (sq_id r))\<rparr>)"

text \<open>The deferred report: attributes, the span's name and status, the span's calls in order.\<close>

definition server_attrs :: "srequest \<Rightarrow> nat \<Rightarrow> hstate \<Rightarrow> (string \<times> otel_value) list" where
  "server_attrs r l s =
     [method_attr (sq_method r)]
       @ (if hs_pattern s (sq_id r) \<noteq> [] then [route_attr (hs_pattern s (sq_id r))] else [])
       @ (if sw_written (hs_writers s l) then [status_attr (sw_status (hs_writers s l))] else [])"

definition server_calls :: "(int \<Rightarrow> string) \<Rightarrow> srequest \<Rightarrow> nat \<Rightarrow> hstate \<Rightarrow> otel_call list" where
  "server_calls status_text r l s =
     (if hs_pattern s (sq_id r) \<noteq> [] then [SpanSetName (span_name (sq_method r) (hs_pattern s (sq_id r)))] else [])
       @ (if sw_written (hs_writers s l) \<and> 500 \<le> sw_status (hs_writers s l)
          then [SpanSetStatusError (status_text (sw_status (hs_writers s l)))] else [])
       @ [SpanSetAttributes (tl (server_attrs r l s))]"

definition server_report ::
  "(int \<Rightarrow> string) \<Rightarrow> histogram option \<Rightarrow> srequest \<Rightarrow> nat \<Rightarrow> time \<Rightarrow> hstate \<times> panic_value option
     \<Rightarrow> hstate \<times> panic_value option"
where
  "server_report status_text hist r l start out =
     (case out of (s, res) \<Rightarrow>
        case hist_record hist (time_sub (hs_now s) start) (server_attrs r l s) of
          Panic v \<Rightarrow> (emits (server_calls status_text r l s @ [SpanEnd]) s, Some (PanicOther v))
        | Ret cs \<Rightarrow> (emits (server_calls status_text r l s @ cs @ [SpanEnd]) s, res))"

definition Server :: "(int \<Rightarrow> string) \<Rightarrow> otel_globals \<Rightarrow> otel_options \<Rightarrow> handler \<Rightarrow> handler" where
  "Server status_text g o' nxt r w s =
     (let c0 = prop_extract (propagator_of g o') (sq_ctx r) (sq_header r);
          c = tracer_of g o' (length (hs_otel s)) c0;
          s1 = emits [SpanStart (sq_method r) False [method_attr (sq_method r)]] s;
          start = hs_now s1;
          (sw, s2) = wrap_writer w s1;
          (r', s3) = WithContext c r s2
      in server_report status_text (durationHistogram (meter_of g o') server_histogram) r' (hd sw) start
           (nxt r' sw s3))"

section \<open>The log extractor\<close>

definition KeyTraceID :: string where "KeyTraceID = ''trace_id''"
definition KeySpanID :: string where "KeySpanID = ''span_id''"

text \<open>
  \<open>span_context\<close> stands for \<open>trace.SpanContextFromContext\<close> with its validity check (the ids as strings),
  \<open>member\<close> for the value of a baggage member of the context, empty when absent.
\<close>

definition LogExtractor ::
  "(ctx \<Rightarrow> (string \<times> string) option) \<Rightarrow> (ctx \<Rightarrow> string \<Rightarrow> string) \<Rightarrow> string list \<Rightarrow> ctx
     \<Rightarrow> (string \<times> string) list"
where
  "LogExtractor span_context member keys c =
     (case span_context c of None \<Rightarrow> [] | Some (t, i) \<Rightarrow> [(KeyTraceID, t), (KeySpanID, i)])
       @ (if length keys > 0 then concat (map (\<lambda>k. if member c k \<noteq> [] then [(k, member c k)] else []) keys) else [])"

section \<open>What each layer adds\<close>

text \<open>The status a script of final codes leaves on a fresh connection.\<close>

fun answer :: "act list \<Rightarrow> int option" where
  "answer [] = None"
| "answer (DoWriteHeader c # as) = Some c"
| "answer (DoWrite b # as) = Some 200"
| "answer (Elapse d # as) = answer as"

definition elapsed :: "act list \<Rightarrow> int" where
  "elapsed acts = sum_list (map (\<lambda>a. case a of Elapse d \<Rightarrow> int d | _ \<Rightarrow> 0) acts)"

lemma perform_wire_kept: "hs_wire s = Some c \<Longrightarrow> hs_wire (perform w a s) = Some c"
  by (cases a) (simp_all add: write_header_wire write_body_wire)

lemma script_wire_kept: "hs_wire s = Some c \<Longrightarrow> hs_wire (fold (perform w) acts s) = Some c"
  by (induction acts arbitrary: s) (simp_all add: perform_wire_kept)

lemma script_wire:
  "list_all final_act acts \<Longrightarrow> hs_wire s = None \<Longrightarrow> hs_wire (fold (perform w) acts s) = answer acts"
  by (induction acts arbitrary: s rule: answer.induct)
     (simp_all add: final_act_def write_header_wire write_body_wire script_wire_kept)

lemma script_now: "hs_now (fold (perform w) acts s) = hs_now s + elapsed acts"
proof (induction acts arbitrary: s)
  case (Cons a acts)
  then show ?case by (cases a) (simp_all add: elapsed_def)
qed (simp add: elapsed_def)

lemma fresh_in_step:
  "hs_wire s = None \<Longrightarrow> in_step w s \<Longrightarrow> wrap_writer w s = (v, s') \<Longrightarrow> in_range w s
    \<Longrightarrow> in_step v s' \<and> in_range v s'"
  by (fastforce simp: wrap_writer_def in_step_def in_range_def)


section \<open>The documented chain\<close>


definition panic_lines :: "ctx \<Rightarrow> panic_value option \<Rightarrow> log_line list" where
  "panic_lines c res =
     (case res of None \<Rightarrow> []
      | Some v \<Rightarrow> if is_abort v then []
          else [\<lparr>ll_level = ''ERROR'', ll_message = ''panic serving request'', ll_span = ctx_span c,
                 ll_attrs = [(''panic'', LPanic v), (''stack'', LStr [])]\<rparr>])"

definition access_line :: "ctx \<Rightarrow> string \<Rightarrow> string \<Rightarrow> int option \<Rightarrow> int \<Rightarrow> log_line" where
  "access_line c method route status ms =
     \<lparr>ll_level = ''INFO'', ll_message = ''http request'', ll_span = ctx_span c,
      ll_attrs = [(''method'', LStr method)]
        @ (if route \<noteq> [] then [(''route'', LStr route)] else [])
        @ (case status of None \<Rightarrow> [] | Some code \<Rightarrow> [(''status'', LInt code)])
        @ [(''duration_ms'', LInt ms)]\<rparr>"

definition span_attrs :: "string \<Rightarrow> int option \<Rightarrow> (string \<times> otel_value) list" where
  "span_attrs route status =
     (if route \<noteq> [] then [route_attr route] else [])
       @ (case status of None \<Rightarrow> [] | Some code \<Rightarrow> [status_attr code])"

definition server_span ::
  "(int \<Rightarrow> string) \<Rightarrow> histogram \<Rightarrow> string \<Rightarrow> string \<Rightarrow> int option \<Rightarrow> duration \<Rightarrow> otel_call list"
where
  "server_span status_text h method route status d =
     [SpanStart method False [method_attr method]]
       @ (if route \<noteq> [] then [SpanSetName (span_name method route)] else [])
       @ (case status of Some code \<Rightarrow> if 500 \<le> code then [SpanSetStatusError (status_text code)] else [] | None \<Rightarrow> [])
       @ [SpanSetAttributes (span_attrs route status)]
       @ (case h of NoopHistogram \<Rightarrow> []
          | Histogram name \<Rightarrow> [HistRecord name d (method_attr method # span_attrs route status)])
       @ [SpanEnd]"

lemma log_attrs_frame [simp]:
  "hs_now (log_attrs r lv m a s) = hs_now s" "hs_next (log_attrs r lv m a s) = hs_next s"
  "hs_pattern (log_attrs r lv m a s) = hs_pattern s" "hs_writers (log_attrs r lv m a s) = hs_writers s"
  "hs_wire (log_attrs r lv m a s) = hs_wire s" "hs_otel (log_attrs r lv m a s) = hs_otel s"
  "in_step w (log_attrs r lv m a s) = in_step w s"
  by (simp_all add: log_attrs_def in_step_def)

lemma emits_frame [simp]:
  "hs_now (emits cs s) = hs_now s" "hs_next (emits cs s) = hs_next s"
  "hs_pattern (emits cs s) = hs_pattern s" "hs_writers (emits cs s) = hs_writers s"
  "hs_wire (emits cs s) = hs_wire s" "hs_log (emits cs s) = hs_log s"
  "hs_otel (emits cs s) = hs_otel s @ cs" "in_step w (emits cs s) = in_step w s"
  by (simp_all add: emits_def in_step_def)

lemma in_step_status:
  "in_step w s \<Longrightarrow> l \<in> set w \<Longrightarrow>
     hs_writers s l = (case hs_wire s of None \<Rightarrow> \<lparr>sw_status = 200, sw_written = False\<rparr>
       | Some c \<Rightarrow> \<lparr>sw_status = c, sw_written = True\<rparr>)"
  by (simp add: in_step_def)


lemma AccessLog_line:
  assumes nxt: "nxt r (hs_next s # w) (snd (wrap_writer w s)) = (t, out)"
    and step: "in_step (hs_next s # w) t"
    and run: "AccessLog nxt r w s = (u, res)"
  shows "res = out"
    and "u = t\<lparr>hs_log := hs_log t @ [access_line (sq_ctx r) (sq_method r) (hs_pattern t (sq_id r)) (hs_wire t)
                 (elapsed_ms (hs_now t) (hs_now s))]\<rparr>"
  using run nxt in_step_status [OF step, of "hs_next s"]
  by (auto simp: AccessLog_def wrap_writer_def access_attrs_def access_line_def log_attrs_def
      split: option.splits)



lemma Server_report:
  assumes nxt: "nxt (r\<lparr>sq_id := Suc (hs_next s), sq_ctx := tracer_of g o' (length (hs_otel s))
        (prop_extract (propagator_of g o') (sq_ctx r) (sq_header r))\<rparr>) (hs_next s # w)
        (snd (WithContext (tracer_of g o' (length (hs_otel s))
            (prop_extract (propagator_of g o') (sq_ctx r) (sq_header r))) r
          (snd (wrap_writer w (emits [SpanStart (sq_method r) False [method_attr (sq_method r)]] s))))) = (t, out)"
    and step: "in_step (hs_next s # w) t"
    and hist: "durationHistogram (meter_of g o') server_histogram = Some h"
    and otel: "hs_otel t = hs_otel s @ [SpanStart (sq_method r) False [method_attr (sq_method r)]]"
  shows "Server st g o' nxt r w s =
    (t\<lparr>hs_otel := hs_otel s @ server_span st h (sq_method r) (hs_pattern t (Suc (hs_next s))) (hs_wire t)
        (time_sub (hs_now t) (hs_now s))\<rparr>, out)"
  using nxt hist otel in_step_status [OF step, of "hs_next s"]
  by (simp add: Server_def WithContext_def wrap_writer_def server_report_def hist_record_def server_span_def
      server_calls_def server_attrs_def span_attrs_def emits_def Let_def split: option.splits histogram.splits)



definition idle_server :: hstate where
  "idle_server = \<lparr>hs_now = 0, hs_next = 1, hs_pattern = (\<lambda>_. []),
     hs_writers = (\<lambda>_. \<lparr>sw_status = 200, sw_written = False\<rparr>), hs_informational = [], hs_header = [], hs_wire = None,
     hs_body = [], hs_log = [], hs_otel = [], hs_head = False\<rparr>"

definition get_orders :: srequest where
  "get_orders = \<lparr>sq_id = 0, sq_method = ''GET'', sq_header = (\<lambda>_. []), sq_ctx = background\<rparr>"


section \<open>The other orders, and what no order reports\<close>

text \<open>With \<open>Recover\<close> outside \<open>AccessLog\<close>, a handler that panics before answering gives the client its
  500, but the access-log line is written before it and carries no status, and it precedes the
  panic's line.\<close>

lemma recover_outside_hides_the_status:
  assumes silent: "answer acts = None" and final: "list_all final_act acts" and fresh: "hs_wire s = None"
    and abort: "\<not> is_abort v"
    and run: "httpserver_Chain [Recover, AccessLog] (mux pat (script_handler acts (Some v))) r [] s = (t, out)"
  shows "out = None \<and> hs_wire t = Some 500
    \<and> hs_log t = hs_log s
        @ [access_line (sq_ctx r) (sq_method r) pat None (elapsed_ms (hs_now s + elapsed acts) (hs_now s))]
        @ panic_lines (sq_ctx r) (Some v)"
proof -
  let ?n = "hs_next s"
  obtain x1 where x1: "snd (wrap_writer [] s) = x1" "fst (wrap_writer [] s) = [?n]" by (simp add: wrap_writer_def)
  have h1: "hs_wire x1 = None" "in_step [?n] x1" "in_range [?n] x1" "hs_now x1 = hs_now s" "hs_log x1 = hs_log s"
    "hs_next x1 = Suc ?n"
    using fresh x1 by (auto simp: wrap_writer_def in_step_def in_range_def)
  obtain w x2 where wrap: "wrap_writer [?n] x1 = (w, x2)" by fastforce
  have h2: "in_step w x2" "hs_wire x2 = None" "w = [Suc ?n, ?n]" "hs_now x2 = hs_now s" "hs_log x2 = hs_log s"
    using fresh_in_step [OF h1(1,2) wrap h1(3)] wrap h1 by (auto simp: wrap_writer_def)
  let ?m = "x2\<lparr>hs_pattern := (hs_pattern x2)(sq_id r := pat)\<rparr>"
  let ?x3 = "fold (perform w) acts ?m"
  have x3: "mux pat (script_handler acts (Some v)) r w x2 = (?x3, Some v)"
    by (simp add: mux_def script_handler_def)
  have step: "in_step w ?x3" by (rule script_in_step [OF final]) (use h2 in \<open>simp add: in_step_def\<close>)
  have facts: "hs_wire ?x3 = None" "hs_now ?x3 = hs_now s + elapsed acts" "hs_log ?x3 = hs_log s"
    "hs_pattern ?x3 (sq_id r) = pat"
    using script_wire [OF final, of ?m] silent h2 by (simp_all add: script_now)
  obtain u e where mid: "AccessLog (mux pat (script_handler acts (Some v))) r [?n] x1 = (u, e)" by fastforce
  have "mux pat (script_handler acts (Some v)) r (hs_next x1 # [?n]) (snd (wrap_writer [?n] x1)) = (?x3, Some v)"
    using x3 by (simp add: wrap h2(3) h1(6))
  note line = AccessLog_line [OF this _ mid]
  have u: "e = Some v" "hs_wire u = None" "in_step [?n] u"
    "hs_log u = hs_log s @ [access_line (sq_ctx r) (sq_method r) pat None (elapsed_ms (hs_now s + elapsed acts) (hs_now s))]"
    using line step facts h1 by (simp_all add: h2(3) in_step_def)
  have "\<not> sw_written (hs_writers u ?n)"
    using in_step_status [OF u(3), of ?n] u(2) by simp
  then show ?thesis
    using run mid x1 u abort
    by (auto simp: handlers.chain_Cons handlers.chain_Nil Recover_def panic_lines_def write_header_wire
        conn_write_header_def informational_def log_attrs_def Let_def split_beta)
qed


lemma recover_outside_hides_the_status_witness:
  "hs_log (fst (httpserver_Chain [Recover, AccessLog] (mux ''GET /orders'' (script_handler [] (Some (PanicOther ''boom''))))
      get_orders [] idle_server))
     = [access_line background ''GET'' ''GET /orders'' None 0] @ panic_lines background (Some (PanicOther ''boom''))"
proof -
  let ?run = "httpserver_Chain [Recover, AccessLog]
    (mux ''GET /orders'' (script_handler [] (Some (PanicOther ''boom'')))) get_orders [] idle_server"
  obtain t out where run: "?run = (t, out)" by fastforce
  have "hs_wire idle_server = None" "elapsed_ms 0 0 = 0" "elapsed [] = 0"
    by (simp_all add: idle_server_def elapsed_ms_def time_sub_def elapsed_def max_int64_def min_int64_def)
  then show ?thesis
    using recover_outside_hides_the_status [OF _ _ _ _ run]
    unfolding run fst_conv by (simp add: idle_server_def get_orders_def)
qed

text \<open>\<open>AccessLog\<close> outside \<open>Server\<close> loses both: for a matched handler that answers, the span still has
  the route in its name and attributes, while the access-log line has no route and is not in the
  span's context (the mux wrote the pattern into the request \<open>Server\<close> made).\<close>

lemma accesslog_outside_loses_route_and_span:
  assumes final: "list_all final_act acts" and fresh: "hs_wire s = None"
    and known: "sq_id r < hs_next s" and unmatched: "hs_pattern s (sq_id r) = []"
    and hist: "durationHistogram (meter_of g o') server_histogram = Some h"
    and run: "httpserver_Chain [AccessLog, Server st g o'] (mux pat (script_handler acts None)) r [] s = (t, out)"
  shows "hs_log t = hs_log s
      @ [access_line (sq_ctx r) (sq_method r) [] (answer acts) (elapsed_ms (hs_now s + elapsed acts) (hs_now s))]
    \<and> hs_otel t = hs_otel s @ server_span st h (sq_method r) pat (answer acts)
        (time_sub (hs_now s + elapsed acts) (hs_now s))"
proof -
  let ?n = "hs_next s"
  let ?r = "(sq_method r)"
  obtain x1 where x1: "snd (wrap_writer [] s) = x1" by simp
  have h1: "hs_wire x1 = None" "in_step [?n] x1" "hs_now x1 = hs_now s" "hs_log x1 = hs_log s"
    "hs_next x1 = Suc ?n" "hs_otel x1 = hs_otel s" "hs_pattern x1 = hs_pattern s"
    using fresh x1 by (auto simp: wrap_writer_def in_step_def)
  define c where "c = tracer_of g o' (length (hs_otel x1)) (prop_extract (propagator_of g o') (sq_ctx r) (sq_header r))"
  define x2 where "x2 = snd (WithContext c r (snd (wrap_writer [?n] (emits [SpanStart ?r False [method_attr ?r]] x1))))"
  define r' where "r' = r\<lparr>sq_id := Suc (Suc ?n), sq_ctx := c\<rparr>"
  let ?w = "[Suc ?n, ?n]"
  let ?x3 = "fold (perform ?w) acts (x2\<lparr>hs_pattern := (hs_pattern x2)(sq_id r' := pat)\<rparr>)"
  have h2: "hs_wire x2 = None" "in_step ?w x2" "hs_now x2 = hs_now s" "hs_log x2 = hs_log s"
    "hs_otel x2 = hs_otel s @ [SpanStart ?r False [method_attr ?r]]" "hs_pattern x2 (sq_id r) = []"
    using h1 known unmatched by (auto simp: x2_def WithContext_def wrap_writer_def emits_def in_step_def)
  have body: "mux pat (script_handler acts None) r' ?w x2 = (?x3, None)"
    by (simp add: mux_def script_handler_def)
  have step: "in_step ?w ?x3"
    by (rule script_in_step [OF final]) (use h2(2) in \<open>simp add: in_step_def\<close>)
  have wire: "hs_wire ?x3 = answer acts" by (rule script_wire [OF final]) (simp add: h2)
  define y where "y = ?x3\<lparr>hs_otel := hs_otel s @ server_span st h ?r pat (answer acts)
    (time_sub (hs_now s + elapsed acts) (hs_now s))\<rparr>"
  have "Server st g o' (mux pat (script_handler acts None)) r [?n] x1
      = (?x3\<lparr>hs_otel := hs_otel x1 @ server_span st h ?r (hs_pattern ?x3 (Suc (hs_next x1))) (hs_wire ?x3)
          (time_sub (hs_now ?x3) (hs_now x1))\<rparr>, None)"
  proof (rule Server_report)
    show "mux pat (script_handler acts None)
        (r\<lparr>sq_id := Suc (hs_next x1), sq_ctx := tracer_of g o' (length (hs_otel x1))
          (prop_extract (propagator_of g o') (sq_ctx r) (sq_header r))\<rparr>) (hs_next x1 # [?n])
        (snd (WithContext (tracer_of g o' (length (hs_otel x1))
            (prop_extract (propagator_of g o') (sq_ctx r) (sq_header r))) r
          (snd (wrap_writer [?n] (emits [SpanStart ?r False [method_attr ?r]] x1))))) = (?x3, None)"
      using body by (simp only: r'_def c_def x2_def h1)
  qed (use step hist h2 h1 in \<open>simp_all\<close>)
  then have server: "Server st g o' (mux pat (script_handler acts None)) r [?n] x1 = (y, None)"
    using h1 h2 wire by (simp add: y_def script_now r'_def)
  have "in_step [?n] y" "hs_wire y = answer acts" "hs_now y = hs_now s + elapsed acts"
    "hs_log y = hs_log s" "hs_pattern y (sq_id r) = []"
    using step known h2 wire by (simp_all add: y_def in_step_def script_now r'_def)
  with AccessLog_line [of "Server st g o' (mux pat (script_handler acts None))" r s "[]" y None t out] server x1 run
  show ?thesis
    by (simp add: handlers.chain_Cons handlers.chain_Nil) (simp add: y_def)
qed

lemma accesslog_outside_loses_route_and_span_witness:
  "hs_log (fst (httpserver_Chain [AccessLog, Server no_text demo_globals zero_otel]
      (mux ''GET /orders'' (script_handler [DoWriteHeader 404] None)) get_orders [] idle_server))
     = [access_line background ''GET'' [] (Some 404) 0]"
proof -
  let ?run = "httpserver_Chain [AccessLog, Server no_text demo_globals zero_otel]
      (mux ''GET /orders'' (script_handler [DoWriteHeader 404] None)) get_orders [] idle_server"
  obtain t out where run: "?run = (t, out)" by fastforce
  have "list_all final_act [DoWriteHeader 404]" "hs_wire idle_server = None" "elapsed_ms 0 0 = 0"
    "elapsed [DoWriteHeader 404] = 0" "sq_id get_orders < hs_next idle_server" "hs_pattern idle_server (sq_id get_orders) = []"
    "durationHistogram (meter_of demo_globals zero_otel) server_histogram = Some (Histogram server_histogram)"
    by (simp_all add: final_act_def informational_def idle_server_def get_orders_def elapsed_ms_def time_sub_def
        elapsed_def max_int64_def min_int64_def durationHistogram_def meter_of_def zero_otel_def demo_globals_def)
  then show ?thesis
    using accesslog_outside_loses_route_and_span [OF _ _ _ _ _ run]
    unfolding run fst_conv by (simp add: idle_server_def get_orders_def)
qed

end
