(* ===== verification/Observability_Gaps.thy ===== *)
theory Observability_Gaps
  imports Telemetry_Server
begin

text \<open>
  Two responses the access log does not describe: a handler that returns without writing, and one that
  sends an informational code first. Both are outside \<open>documented_chain_reports_what_the_client_got\<close>,
  the first because the status comes after the handler, the second because the code is not final.
\<close>

definition logged_statuses :: "hstate \<Rightarrow> log_value list" where
  "logged_statuses s = concat (map (\<lambda>l. map snd (filter (\<lambda>(k, v). k = ''status'') (ll_attrs l))) (hs_log s))"

lemma silent_handler_is_an_unreported_200:
  "hs_wire (conn_finish (AccessLog (mux ''GET /x'' (script_handler [] None)) get_orders [] idle_server)) = Some 200
    \<and> logged_statuses (conn_finish (AccessLog (mux ''GET /x'' (script_handler [] None)) get_orders [] idle_server)) = []"
  by (simp add: AccessLog_def mux_def script_handler_def wrap_writer_def idle_server_def get_orders_def log_attrs_def
      access_attrs_def conn_finish_def conn_write_header_def informational_def logged_statuses_def)

lemma informational_code_is_taken_for_the_status:
  "hs_wire (fst (AccessLog (mux ''GET /x'' (script_handler [DoWriteHeader 103, DoWriteHeader 404] None)) get_orders [] idle_server))
      = Some 404
    \<and> logged_statuses (fst (AccessLog (mux ''GET /x'' (script_handler [DoWriteHeader 103, DoWriteHeader 404] None))
        get_orders [] idle_server)) = [LInt 103]
    \<and> hs_wire (conn_finish (Recover (mux ''GET /x'' (script_handler [DoWriteHeader 103] (Some (PanicOther ''boom''))))
        get_orders [] idle_server)) = Some 200"
  by (simp add: AccessLog_def Recover_def mux_def script_handler_def wrap_writer_def idle_server_def get_orders_def
      log_attrs_def access_attrs_def conn_write_header_def conn_finish_def informational_def logged_statuses_def Let_def)

end
