(* ===== verification/Http_Server.thy ===== *)
theory Http_Server
  imports Http_Handlers Machine
begin

text \<open>
  Package \<open>httpserver\<close>, \<open>server.go\<close>: \<open>Server\<close> with its critical sections, and the world it works in: the
  listeners of the operating system, the \<open>http.Server\<close> underneath, the goroutines that run \<open>Serve\<close>.
  Calls of \<open>Start\<close> and \<open>Shutdown\<close> from several goroutines interleave between the sections the mutex
  protects. What \<open>net\<close> and \<open>net/http\<close> promise is part of the steps: \<open>Serve\<close> on a server that is shutting
  down closes its listener and returns \<open>ErrServerClosed\<close>, \<open>http.Server.Shutdown\<close> closes the listeners
  being served, and an accept loop whose listener is closed returns.
\<close>

section \<open>Construction\<close>

record server_options =
  so_Addr :: string
  so_ReadHeaderTimeout :: duration
  so_ReadTimeout :: duration
  so_WriteTimeout :: duration
  so_IdleTimeout :: duration
  so_MaxHeaderBytes :: int
  so_OnServeError :: bool

text \<open>The fields of the \<open>http.Server\<close> that \<open>New\<close> sets.\<close>

record http_server =
  hv_Handler :: handler
  hv_ReadHeaderTimeout :: duration
  hv_ReadTimeout :: duration
  hv_WriteTimeout :: duration
  hv_IdleTimeout :: duration
  hv_MaxHeaderBytes :: int

record server =
  sv_srv :: http_server
  sv_opts :: server_options
  sv_ln :: "nat option"
  sv_addr :: string
  sv_shutDown :: bool

definition defaultReadHeaderTimeout :: duration where
  "defaultReadHeaderTimeout = 10 * second"

definition errAlreadyShutDown :: goerr where
  "errAlreadyShutDown =
     Err ''httpserver: Server already shut down; construct a new Server instead of calling Start again''"

definition ErrServerClosed :: goerr where
  "ErrServerClosed = Err ''http: Server closed''"

definition server_New :: "handler \<Rightarrow> server_options \<Rightarrow> server" where
  "server_New h opts =
     (let rht = (if so_ReadHeaderTimeout opts = 0 then defaultReadHeaderTimeout else so_ReadHeaderTimeout opts)
      in \<lparr>sv_srv = \<lparr>hv_Handler = h, hv_ReadHeaderTimeout = rht, hv_ReadTimeout = so_ReadTimeout opts,
            hv_WriteTimeout = so_WriteTimeout opts, hv_IdleTimeout = so_IdleTimeout opts,
            hv_MaxHeaderBytes = so_MaxHeaderBytes opts\<rparr>,
          sv_opts = opts, sv_ln = None, sv_addr = so_Addr opts, sv_shutDown = False\<rparr>)"

section \<open>The critical sections\<close>

text \<open>\<open>Start\<close> up to the bind: the context, then the \<open>shutDown\<close> flag. \<open>Some\<close> is the error it returns.\<close>

definition start_check :: "goerr option \<Rightarrow> server \<Rightarrow> goerr option" where
  "start_check ctx_error s =
     (case ctx_error of Some e \<Rightarrow> Some e
      | None \<Rightarrow> if sv_shutDown s then Some errAlreadyShutDown else None)"

definition start_bound :: "nat \<Rightarrow> string \<Rightarrow> server \<Rightarrow> server" where
  "start_bound ln addr s = s\<lparr>sv_ln := Some ln, sv_addr := addr\<rparr>"

text \<open>What the goroutine does with the error \<open>Serve\<close> returned.\<close>

definition serve_returned :: "server \<Rightarrow> goerr \<Rightarrow> goerr option" where
  "serve_returned s e =
     (if err_is e ErrServerClosed then None else if so_OnServeError (sv_opts s) then Some e else None)"

definition shutdown_section :: "server \<Rightarrow> server \<times> bool" where
  "shutdown_section s =
     (let started = (sv_ln s \<noteq> None) in (if started then s\<lparr>sv_shutDown := True\<rparr> else s, started))"

definition Addr :: "server \<Rightarrow> string" where
  "Addr s = sv_addr s"

section \<open>The world around it\<close>

datatype serving = NotYet | Serving | Done goerr

datatype server_event =
    StartReturned "goerr option"
  | ShutdownReturned "goerr option"
  | OnServeError nat goerr

text \<open>
  Listeners and serving goroutines go in pairs, numbered in the order they were created. The two
  counters are the calls of \<open>Start\<close> between the check and the bind, and the calls of \<open>Shutdown\<close> between
  the section and \<open>http.Server.Shutdown\<close>; \<open>sw_draining\<close> those that wait for requests in flight.
\<close>

record server_world =
  sw_server :: server
  sw_open :: "bool list"
  sw_addrs :: "string list"
  sw_serving :: "serving list"
  sw_closing :: bool
  sw_starts :: nat
  sw_shutdowns :: nat
  sw_draining :: nat
  sw_log :: "server_event list"

definition server_init :: "server \<Rightarrow> server_world" where
  "server_init s = \<lparr>sw_server = s, sw_open = [], sw_addrs = [], sw_serving = [], sw_closing = False,
     sw_starts = 0, sw_shutdowns = 0, sw_draining = 0, sw_log = []\<rparr>"

datatype server_action =
    CallStart "goerr option"
  | Bind "goerr + string"
  | EnterServe nat
  | AcceptFails nat goerr
  | CallShutdown
  | CloseServer
  | ShutdownEnds "goerr option"
  | CloseListener

definition sw_event :: "server_event \<Rightarrow> server_world \<Rightarrow> server_world" where
  "sw_event e w = w\<lparr>sw_log := sw_log w @ [e]\<rparr>"

text \<open>Goroutine \<open>g\<close> ends with an error: its listener is closed and the callback runs, if it should.\<close>

definition serve_ends :: "nat \<Rightarrow> goerr \<Rightarrow> server_world \<Rightarrow> server_world" where
  "serve_ends g e w =
     (let w1 = w\<lparr>sw_serving := (sw_serving w)[g := Done e], sw_open := (sw_open w)[g := False]\<rparr>
      in case serve_returned (sw_server w) e of None \<Rightarrow> w1 | Some e' \<Rightarrow> sw_event (OnServeError g e') w1)"

fun server_step :: "server_action \<Rightarrow> server_world \<Rightarrow> server_world option" where
  "server_step (CallStart ctx_error) w =
     Some (case start_check ctx_error (sw_server w) of
             Some e \<Rightarrow> sw_event (StartReturned (Some e)) w
           | None \<Rightarrow> w\<lparr>sw_starts := Suc (sw_starts w)\<rparr>)"
| "server_step (Bind res) w =
     (case sw_starts w of 0 \<Rightarrow> None
      | Suc n \<Rightarrow>
          let w1 = w\<lparr>sw_starts := n\<rparr>
          in Some (case res of
               Inl e \<Rightarrow> sw_event (StartReturned (Some e)) w1
             | Inr addr \<Rightarrow>
                 sw_event (StartReturned None)
                   (w1\<lparr>sw_server := start_bound (length (sw_open w)) addr (sw_server w),
                       sw_open := sw_open w @ [True], sw_addrs := sw_addrs w @ [addr],
                       sw_serving := sw_serving w @ [NotYet]\<rparr>)))"
| "server_step (EnterServe g) w =
     (if g < length (sw_serving w) \<and> sw_serving w ! g = NotYet
      then Some (if sw_closing w then serve_ends g ErrServerClosed w
                 else w\<lparr>sw_serving := (sw_serving w)[g := Serving]\<rparr>)
      else None)"
| "server_step (AcceptFails g e) w =
     (if g < length (sw_serving w) \<and> sw_serving w ! g = Serving \<and> \<not> err_is e ErrServerClosed
      then Some (serve_ends g (if sw_closing w then ErrServerClosed else e) w)
      else None)"
| "server_step CallShutdown w =
     (case shutdown_section (sw_server w) of
        (s, started) \<Rightarrow>
          Some (if started then w\<lparr>sw_server := s, sw_shutdowns := Suc (sw_shutdowns w)\<rparr>
                else sw_event (ShutdownReturned None) (w\<lparr>sw_server := s\<rparr>)))"
| "server_step CloseServer w =
     (case sw_shutdowns w of 0 \<Rightarrow> None
      | Suc n \<Rightarrow> Some (w\<lparr>sw_shutdowns := n, sw_draining := Suc (sw_draining w), sw_closing := True,
          sw_open := map (\<lambda>(o', g). o' \<and> g \<noteq> Serving) (zip (sw_open w) (sw_serving w))\<rparr>))"
| "server_step (ShutdownEnds res) w =
     (case sw_draining w of 0 \<Rightarrow> None
      | Suc n \<Rightarrow> Some (sw_event (ShutdownReturned res) (w\<lparr>sw_draining := n\<rparr>)))"
| "server_step CloseListener w =
     Some (case sv_ln (sw_server w) of None \<Rightarrow> w | Some i \<Rightarrow> w\<lparr>sw_open := (sw_open w)[i := False]\<rparr>)"

abbreviation server_steps :: "server_action list \<Rightarrow> server_world \<Rightarrow> server_world option" where
  "server_steps \<equiv> run_all server_step"

section \<open>What every step keeps\<close>

text \<open>One listener per goroutine, the last one is the server's, and \<open>Addr\<close> is its address.\<close>

definition listeners_inv :: "string \<Rightarrow> server_world \<Rightarrow> bool" where
  "listeners_inv configured w \<longleftrightarrow>
     length (sw_addrs w) = length (sw_serving w) \<and> length (sw_open w) = length (sw_serving w)
     \<and> sv_ln (sw_server w) = (if sw_serving w = [] then None else Some (length (sw_serving w) - 1))
     \<and> Addr (sw_server w) = last (configured # sw_addrs w)"

text \<open>The flag is raised before the server closes, and only for a server that was started.\<close>

fun serve_ok :: "bool \<Rightarrow> bool \<Rightarrow> serving \<Rightarrow> bool" where
  "serve_ok closing accepting NotYet \<longleftrightarrow> True"
| "serve_ok closing accepting Serving \<longleftrightarrow> (closing \<longrightarrow> \<not> accepting)"
| "serve_ok closing accepting (Done e) \<longleftrightarrow> \<not> accepting \<and> (err_is e ErrServerClosed \<longrightarrow> closing)"

definition closing_inv :: "server_world \<Rightarrow> bool" where
  "closing_inv w \<longleftrightarrow>
     (sw_closing w \<or> 0 < sw_shutdowns w \<longrightarrow> sv_shutDown (sw_server w))
     \<and> (sv_shutDown (sw_server w) \<longrightarrow> sv_ln (sw_server w) \<noteq> None)
     \<and> (\<forall>g < length (sw_serving w). serve_ok (sw_closing w) (sw_open w ! g) (sw_serving w ! g))"

definition reported :: "server_world \<Rightarrow> (nat \<times> goerr) list" where
  "reported w = concat (map (\<lambda>ev. case ev of OnServeError g e \<Rightarrow> [(g, e)] | _ \<Rightarrow> []) (sw_log w))"

definition report_inv :: "server_world \<Rightarrow> bool" where
  "report_inv w \<longleftrightarrow> distinct (map fst (reported w))
     \<and> (\<forall>g e. (g, e) \<in> set (reported w) \<longleftrightarrow>
          g < length (sw_serving w) \<and> sw_serving w ! g = Done e \<and> \<not> err_is e ErrServerClosed
          \<and> so_OnServeError (sv_opts (sw_server w)))"

definition starts_returned :: "server_world \<Rightarrow> goerr option list" where
  "starts_returned w = concat (map (\<lambda>ev. case ev of StartReturned r \<Rightarrow> [r] | _ \<Rightarrow> []) (sw_log w))"

text \<open>What is read off the log only changes with the log.\<close>

lemma reported_frame [simp]:
  "reported (w\<lparr>sw_server := x\<rparr>) = reported w" "reported (w\<lparr>sw_open := os\<rparr>) = reported w"
  "reported (w\<lparr>sw_addrs := ads\<rparr>) = reported w" "reported (w\<lparr>sw_serving := gs\<rparr>) = reported w"
  "reported (w\<lparr>sw_closing := b\<rparr>) = reported w" "reported (w\<lparr>sw_starts := n\<rparr>) = reported w"
  "reported (w\<lparr>sw_shutdowns := n\<rparr>) = reported w" "reported (w\<lparr>sw_draining := n\<rparr>) = reported w"
  by (simp_all add: reported_def)

lemma starts_returned_frame [simp]:
  "starts_returned (w\<lparr>sw_server := x\<rparr>) = starts_returned w" "starts_returned (w\<lparr>sw_open := os\<rparr>) = starts_returned w"
  "starts_returned (w\<lparr>sw_serving := gs\<rparr>) = starts_returned w" "starts_returned (w\<lparr>sw_closing := b\<rparr>) = starts_returned w"
  "starts_returned (w\<lparr>sw_shutdowns := n\<rparr>) = starts_returned w" "starts_returned (w\<lparr>sw_draining := n\<rparr>) = starts_returned w"
  by (simp_all add: starts_returned_def)

lemma starts_returned_event [simp]:
  "starts_returned (sw_event ev w) = starts_returned w @ (case ev of StartReturned r \<Rightarrow> [r] | _ \<Rightarrow> [])"
  by (simp add: starts_returned_def sw_event_def split: server_event.split)

lemma reported_event [simp]:
  "reported (sw_event ev w) = reported w @ (case ev of OnServeError g e \<Rightarrow> [(g, e)] | _ \<Rightarrow> [])"
  by (simp add: reported_def sw_event_def split: server_event.split)

lemma sw_event_frame [simp]:
  "sw_server (sw_event ev w) = sw_server w" "sw_open (sw_event ev w) = sw_open w"
  "sw_addrs (sw_event ev w) = sw_addrs w" "sw_serving (sw_event ev w) = sw_serving w"
  "sw_closing (sw_event ev w) = sw_closing w" "sw_starts (sw_event ev w) = sw_starts w"
  "sw_shutdowns (sw_event ev w) = sw_shutdowns w" "sw_draining (sw_event ev w) = sw_draining w"
  "sw_log (sw_event ev w) = sw_log w @ [ev]"
  by (simp_all add: sw_event_def)

lemma serve_ends_frame [simp]:
  "sw_server (serve_ends g e w) = sw_server w" "sw_addrs (serve_ends g e w) = sw_addrs w"
  "sw_open (serve_ends g e w) = (sw_open w)[g := False]"
  "sw_serving (serve_ends g e w) = (sw_serving w)[g := Done e]"
  "sw_closing (serve_ends g e w) = sw_closing w" "sw_starts (serve_ends g e w) = sw_starts w"
  "sw_shutdowns (serve_ends g e w) = sw_shutdowns w" "sw_draining (serve_ends g e w) = sw_draining w"
  by (simp_all add: serve_ends_def Let_def split: option.split)

lemma reported_serve_ends:
  "reported (serve_ends g e w) = reported w @
     (if err_is e ErrServerClosed \<or> \<not> so_OnServeError (sv_opts (sw_server w)) then [] else [(g, e)])"
  by (simp add: serve_ends_def serve_returned_def Let_def)

lemma serve_ends_closing:
  assumes "closing_inv w" and "err_is e ErrServerClosed \<longrightarrow> sw_closing w"
    and "length (sw_open w) = length (sw_serving w)"
  shows "closing_inv (serve_ends g e w)"
proof -
  have "serve_ok (sw_closing w) ((sw_open w)[g := False] ! k) ((sw_serving w)[g := Done e] ! k)"
    if "k < length (sw_serving w)" for k
    using assms that by (cases "k = g") (simp_all add: closing_inv_def)
  with assms(1) show ?thesis by (simp add: closing_inv_def)
qed

lemma serve_ends_report:
  assumes inv: "report_inv w" and g: "g < length (sw_serving w)" "\<forall>e'. sw_serving w ! g \<noteq> Done e'"
  shows "report_inv (serve_ends g e w)"
proof -
  have none: "(g, e') \<notin> set (reported w)" for e'
    using inv g by (simp add: report_inv_def)
  then have fresh: "g \<notin> fst ` set (reported w)" by force
  have "(k, e') \<in> set (reported (serve_ends g e w)) \<longleftrightarrow>
      k < length (sw_serving w) \<and> (sw_serving w)[g := Done e] ! k = Done e' \<and> \<not> err_is e' ErrServerClosed
      \<and> so_OnServeError (sv_opts (sw_server w))" for k e'
  proof (cases "k = g")
    case True
    with none g(1) show ?thesis by (auto simp: reported_serve_ends)
  next
    case False
    with inv show ?thesis by (simp add: reported_serve_ends report_inv_def)
  qed
  moreover have "distinct (map fst (reported (serve_ends g e w)))"
    using inv fresh by (simp add: reported_serve_ends report_inv_def)
  ultimately show ?thesis by (simp add: report_inv_def)
qed

lemma listeners_inv_step:
  assumes "listeners_inv c w" and "server_step a w = Some w'"
  shows "listeners_inv c w'"
proof (cases a)
  case (Bind res)
  with assms show ?thesis
    by (cases "sw_starts w"; cases res)
       (auto simp: listeners_inv_def start_bound_def Addr_def Let_def)
qed (use assms in \<open>auto simp: listeners_inv_def start_check_def shutdown_section_def Addr_def Let_def
      split: option.splits nat.splits if_splits\<close>)

lemma serve_ok_not_accepting: "serve_ok c o' x \<Longrightarrow> serve_ok c False x"
  by (cases x) auto

lemma serve_ok_closing: "serve_ok c o' x \<Longrightarrow> serve_ok True (o' \<and> x \<noteq> Serving) x"
  by (cases x) auto

lemma closing_inv_closed_listener:
  assumes "listeners_inv c w" "closing_inv w"
  shows "closing_inv (w\<lparr>sw_open := (sw_open w)[i := False]\<rparr>)"
proof -
  have "serve_ok (sw_closing w) ((sw_open w)[i := False] ! g) (sw_serving w ! g)" if "g < length (sw_serving w)" for g
    using assms that by (cases "g = i") (auto simp: closing_inv_def listeners_inv_def intro: serve_ok_not_accepting)
  with assms(2) show ?thesis by (simp add: closing_inv_def)
qed

lemma closing_inv_step:
  assumes "listeners_inv c w" and inv: "closing_inv w" and step: "server_step a w = Some w'"
  shows "closing_inv w'"
proof (cases a)
  case (Bind res)
  with assms show ?thesis
    by (cases "sw_starts w"; cases res)
       (auto simp: closing_inv_def listeners_inv_def start_bound_def nth_append Let_def less_Suc_eq)
next
  case (EnterServe g)
  have len: "length (sw_open w) = length (sw_serving w)" using assms(1) by (simp add: listeners_inv_def)
  from EnterServe step inv serve_ends_closing [OF inv _ len, of ErrServerClosed g] show ?thesis
    by (cases "sw_closing w") (auto simp: closing_inv_def nth_list_update split: if_splits)
next
  case (AcceptFails g e)
  have len: "length (sw_open w) = length (sw_serving w)" using assms(1) by (simp add: listeners_inv_def)
  from AcceptFails step serve_ends_closing [OF inv _ len, of ErrServerClosed g] serve_ends_closing [OF inv _ len, of e g]
  show ?thesis by (auto split: if_splits)
next
  case CloseServer
  have "serve_ok True (sw_open w ! g \<and> sw_serving w ! g \<noteq> Serving) (sw_serving w ! g)"
    if "g < length (sw_serving w)" for g
    by (rule serve_ok_closing [of "sw_closing w"]) (use inv that in \<open>simp add: closing_inv_def\<close>)
  with CloseServer assms show ?thesis
    by (auto simp: closing_inv_def listeners_inv_def split: nat.splits)
next
  case CloseListener
  with step inv closing_inv_closed_listener [OF assms(1,2)] show ?thesis by (auto split: option.splits)
qed (use inv step in \<open>auto simp: closing_inv_def shutdown_section_def Let_def
      split: option.splits nat.splits if_splits\<close>)

lemma report_inv_cong:
  "report_inv w \<Longrightarrow> reported w' = reported w \<Longrightarrow> sw_serving w' = sw_serving w
    \<Longrightarrow> sv_opts (sw_server w') = sv_opts (sw_server w) \<Longrightarrow> report_inv w'"
  by (simp add: report_inv_def)

lemma report_inv_bound:
  assumes "report_inv w" "reported w' = reported w" "sw_serving w' = sw_serving w @ [NotYet]"
    "sv_opts (sw_server w') = sv_opts (sw_server w)"
  shows "report_inv w'"
  using assms(1) unfolding report_inv_def assms(2-4) by (auto simp: nth_append less_Suc_eq)

lemma report_inv_serving:
  assumes "report_inv w" "sw_serving w ! g = NotYet"
  shows "report_inv (w\<lparr>sw_serving := (sw_serving w)[g := Serving]\<rparr>)"
proof -
  have "(sw_serving w)[g := Serving] ! k = Done e \<longleftrightarrow> sw_serving w ! k = Done e" if "k < length (sw_serving w)" for k e
    using that assms(2) by (cases "k = g") simp_all
  with assms(1) show ?thesis by (auto simp: report_inv_def)
qed

lemma report_inv_step:
  assumes inv: "report_inv w" and step: "server_step a w = Some w'"
  shows "report_inv w'"
proof (cases a)
  case (Bind res)
  show ?thesis
  proof (cases res)
    case (Inl e)
    with Bind step show ?thesis by (auto intro!: report_inv_cong [OF inv] split: nat.splits)
  next
    case (Inr addr)
    with Bind step show ?thesis
      by (intro report_inv_bound [OF inv]) (auto simp: start_bound_def Let_def split: nat.splits)
  qed
next
  case (EnterServe g)
  with step serve_ends_report [OF inv, of g ErrServerClosed] report_inv_serving [OF inv, of g] show ?thesis
    by (auto split: if_splits)
next
  case (AcceptFails g e)
  with step serve_ends_report [OF inv, of g ErrServerClosed] serve_ends_report [OF inv, of g e]
  show ?thesis by (auto split: if_splits)
qed (use step in \<open>auto simp: shutdown_section_def Let_def intro!: report_inv_cong [OF inv]
      split: option.splits nat.splits if_splits\<close>)

definition server_inv :: "string \<Rightarrow> server_world \<Rightarrow> bool" where
  "server_inv c w \<longleftrightarrow> listeners_inv c w \<and> closing_inv w \<and> report_inv w"

lemma server_inv_step: "server_inv c w \<Longrightarrow> server_step a w = Some w' \<Longrightarrow> server_inv c w'"
  by (auto simp: server_inv_def intro: listeners_inv_step closing_inv_step report_inv_step)

lemma server_inv_init: "server_inv (so_Addr opts) (server_init (server_New h opts))"
  by (simp add: server_inv_def listeners_inv_def closing_inv_def report_inv_def reported_def server_init_def
      server_New_def Let_def Addr_def)

interpretation server_runs: invariant server_step "server_init (server_New h opts)" "server_inv (so_Addr opts)" for h opts
  by unfold_locales (rule server_inv_init, rule server_inv_step)

lemmas server_inv_reach = server_runs.stays [OF server_inv_init]

section \<open>A closed server stays closed\<close>



lemma starts_returned_serve_ends [simp]: "starts_returned (serve_ends g e w) = starts_returned w"
  by (simp add: serve_ends_def Let_def split: option.split)








definition demo_server :: server where
  "demo_server = server_New (\<lambda>r w s. (s, None)) \<lparr>so_Addr = '':0'', so_ReadHeaderTimeout = 0, so_ReadTimeout = 0,
     so_WriteTimeout = 0, so_IdleTimeout = 0, so_MaxHeaderBytes = 0, so_OnServeError = True\<rparr>"



text \<open>
  A \<open>Start\<close> that overlaps a \<open>Shutdown\<close>. Two calls of \<open>Start\<close> pass the check, one binds, the server is
  shut down, and then the other binds: it returns nil and \<open>Addr\<close> shows its address, while its goroutine
  ends with \<open>ErrServerClosed\<close> and nothing is reported. And when the only \<open>Start\<close> is past its check, a
  \<open>Shutdown\<close> finds no listener and returns nil, after which that \<open>Start\<close> binds and serves.
\<close>

lemma start_races_shutdown:
  "\<exists>w. server_steps [CallStart None, CallStart None, Bind (Inr '':1''), EnterServe 0, CallShutdown, CloseServer,
        ShutdownEnds None, Bind (Inr '':2''), EnterServe 1] (server_init demo_server) = Some w
    \<and> sw_log w = [StartReturned None, ShutdownReturned None, StartReturned None]
    \<and> Addr (sw_server w) = '':2'' \<and> sw_serving w ! 1 = Done ErrServerClosed"
  "\<exists>w. server_steps [CallStart None, CallShutdown, Bind (Inr '':1''), EnterServe 0] (server_init demo_server) = Some w
    \<and> sw_log w = [ShutdownReturned None, StartReturned None] \<and> sw_serving w = [Serving] \<and> sw_open w = [True]"
  by (simp_all add: server_init_def demo_server_def server_New_def start_check_def start_bound_def serve_ends_def
      serve_returned_def shutdown_section_def Addr_def ErrServerClosed_def sw_event_def Let_def)

text \<open>C29: a listener that dies is reported. In every interleaving, \<open>OnServeError\<close> (if set) has been called
  exactly for the goroutines whose \<open>Serve\<close> returned something other than \<open>ErrServerClosed\<close>, once each,
  with that error; a goroutine ends with \<open>ErrServerClosed\<close> only after a \<open>Shutdown\<close> of a started server;
  while none has been asked for, a failing accept loop calls it at once. \<open>Addr\<close> is the address of the
  last bind, and the configured one before the first.\<close>

theorem listener_failures_reach_the_callback:
  assumes "server_steps as (server_init (server_New h opts)) = Some w"
  shows "distinct (map fst (reported w))
    \<and> (\<forall>g e. (g, e) \<in> set (reported w) \<longleftrightarrow> g < length (sw_serving w) \<and> sw_serving w ! g = Done e
          \<and> \<not> err_is e ErrServerClosed \<and> so_OnServeError (sv_opts (sw_server w)))
    \<and> (\<forall>g < length (sw_serving w). \<forall>e. sw_serving w ! g = Done e \<and> err_is e ErrServerClosed
          \<longrightarrow> sw_closing w \<and> sv_shutDown (sw_server w) \<and> sv_ln (sw_server w) \<noteq> None)
    \<and> (\<forall>g e w'. server_step (AcceptFails g e) w = Some w' \<and> so_OnServeError (sv_opts (sw_server w)) \<and> \<not> sw_closing w
          \<longrightarrow> sw_log w' = sw_log w @ [OnServeError g e])
    \<and> Addr (sw_server w) = last (so_Addr opts # sw_addrs w)"
proof -
  have inv: "server_inv (so_Addr opts) w" by (rule server_inv_reach [OF assms])
  have closed: "sw_closing w \<and> sv_shutDown (sw_server w) \<and> sv_ln (sw_server w) \<noteq> None"
    if "g < length (sw_serving w)" "sw_serving w ! g = Done e" "err_is e ErrServerClosed" for g e
  proof -
    have "serve_ok (sw_closing w) (sw_open w ! g) (sw_serving w ! g)"
      using inv that(1) by (simp add: server_inv_def closing_inv_def)
    with inv that(2,3) show ?thesis by (simp add: server_inv_def closing_inv_def)
  qed
  moreover have "sw_log w' = sw_log w @ [OnServeError g e]"
    if "server_step (AcceptFails g e) w = Some w'" "so_OnServeError (sv_opts (sw_server w))" "\<not> sw_closing w" for g e w'
    using that by (auto simp: serve_ends_def serve_returned_def Let_def split: if_splits)
  ultimately show ?thesis
    using inv unfolding server_inv_def report_inv_def listeners_inv_def by blast
qed

theorem listener_failures_reach_the_callback_witness:
  "\<exists>w. server_steps [CallStart None, Bind (Inr ''127.0.0.1:8080''), EnterServe 0, CloseListener,
        AcceptFails 0 (Err ''closed'')] (server_init demo_server) = Some w
    \<and> distinct (map fst (reported w)) \<and> reported w = [(0, Err ''closed'')]"
proof -
  obtain w where w: "server_steps [CallStart None, Bind (Inr ''127.0.0.1:8080''), EnterServe 0, CloseListener,
        AcceptFails 0 (Err ''closed'')] (server_init demo_server) = Some w" "reported w = [(0, Err ''closed'')]"
    by (simp add: server_init_def demo_server_def server_New_def start_check_def start_bound_def serve_ends_def
        serve_returned_def reported_def ErrServerClosed_def sw_event_def Let_def)
  with listener_failures_reach_the_callback [OF w(1) [unfolded demo_server_def]] show ?thesis by blast
qed

end
