(* ===== verification/Health.thy ===== *)
theory Health
  imports Http_Handlers
begin

text \<open>
  Package \<open>httpserver\<close>, \<open>health.go\<close> and \<open>admin.go\<close>: gates with their readiness checks, the three probes
  and the routes that serve them. A check is a function of its context and the time it is called at,
  with the time it takes; it may panic. \<open>OnCheckError\<close> is what the callback does to the world. The body
  of a 503 is the JSON of \<open>encoding/json\<close>.
\<close>

section \<open>Gates\<close>

datatype check_result = CheckPasses | CheckFails goerr | CheckPanics panic_value

type_synonym check = "ctx \<Rightarrow> time \<Rightarrow> nat \<times> check_result"

record gate =
  gt_open :: bool
  gt_OnCheckError :: "(string \<Rightarrow> goerr \<Rightarrow> hstate \<Rightarrow> hstate) option"
  gt_checks :: "(string \<times> check) list"

definition checkTimeout :: duration where
  "checkTimeout = 2 * second"

definition zero_gate :: gate where
  "zero_gate = \<lparr>gt_open = False, gt_OnCheckError = None, gt_checks = []\<rparr>"

definition gate_Set :: "bool \<Rightarrow> gate \<Rightarrow> gate" where
  "gate_Set ok g = g\<lparr>gt_open := ok\<rparr>"

section \<open>The failing response\<close>

text \<open>
  A string in \<open>encoding/json\<close>: the characters of HTML and the two line separators of Unicode are escaped,
  and a byte that starts no rune becomes U+FFFD.
\<close>

definition json_char :: "char \<Rightarrow> string" where
  "json_char c =
     (let n = (of_char c :: nat) in
      if n = 34 \<or> n = 92 then [CHR 0x5C, c]
      else if n = 8 then [CHR 0x5C, CHR ''b'']
      else if n = 9 then [CHR 0x5C, CHR ''t'']
      else if n = 10 then [CHR 0x5C, CHR ''n'']
      else if n = 12 then [CHR 0x5C, CHR ''f'']
      else if n = 13 then [CHR 0x5C, CHR ''r'']
      else if n < 32 \<or> n = 38 \<or> n = 60 \<or> n = 62
      then [CHR 0x5C, CHR ''u'', CHR ''0'', CHR ''0'', hex_digit (n div 16), hex_digit (n mod 16)]
      else [c])"

definition json_rune :: "string \<Rightarrow> string" where
  "json_rune p =
     (case p of [c] \<Rightarrow> if 128 \<le> (of_char c :: nat) then CHR 0x5C # ''ufffd'' else json_char c
      | _ \<Rightarrow> if p = [CHR 0xE2, CHR 0x80, CHR 0xA8] then CHR 0x5C # ''u2028''
             else if p = [CHR 0xE2, CHR 0x80, CHR 0xA9] then CHR 0x5C # ''u2029'' else p)"

definition json_string :: "string \<Rightarrow> string" where
  "json_string s = [CHR 0x22] @ concat (map json_rune (runes s)) @ [CHR 0x22]"

lemma json_string_rewrites:
  "json_string [CHR ''a'', CHR 0xE2, CHR 0x80, CHR 0xA8] = [CHR 0x22] @ ''a'' @ CHR 0x5C # ''u2028'' @ [CHR 0x22]"
  "json_string [CHR 0xC3, CHR 0xA9, CHR 0xC3] = [CHR 0x22, CHR 0xC3, CHR 0xA9, CHR 0x5C] @ ''ufffd'' @ [CHR 0x22]"
  by (simp_all add: json_string_def json_rune_def json_char_def rune_length_def first_byte_def byte_between_def Let_def)

text \<open>\<open>json.NewEncoder(w).Encode\<close> of the struct with the one field \<open>failed\<close>.\<close>

definition json_failed :: "string list \<Rightarrow> string" where
  "json_failed names =
     CHR ''{'' # json_string ''failed'' @ '':['' @ join_on (CHR '','') (map json_string names) @ '']}'' @ [CHR 0x0A]"

section \<open>Serving\<close>

text \<open>The loop over the checks, with the names that failed so far; a panicking check unwinds it.\<close>

fun run_checks ::
  "gate \<Rightarrow> ctx \<Rightarrow> (string \<times> check) list \<Rightarrow> string list \<Rightarrow> hstate \<Rightarrow> hstate \<times> (string list + panic_value)"
where
  "run_checks g c [] failed s = (s, Inl failed)"
| "run_checks g c ((name, fn) # cs) failed s =
     (let cctx = with_timeout c checkTimeout (hs_now s) (hs_next s)
      in case fn cctx (hs_now s) of
           (d, res) \<Rightarrow>
             let s1 = s\<lparr>hs_next := Suc (hs_next s), hs_now := hs_now s + int d\<rparr>
             in (case res of
                   CheckPanics v \<Rightarrow> (s1, Inr v)
                 | CheckPasses \<Rightarrow> run_checks g c cs failed s1
                 | CheckFails e \<Rightarrow>
                     run_checks g c cs (failed @ [name])
                       (case gt_OnCheckError g of None \<Rightarrow> s1 | Some f \<Rightarrow> f name e s1)))"

definition set_header :: "string \<Rightarrow> string \<Rightarrow> hstate \<Rightarrow> hstate" where
  "set_header k v s = s\<lparr>hs_header := filter (\<lambda>(k', v'). k' \<noteq> k) (hs_header s) @ [(k, v)]\<rparr>"

definition gate_ServeHTTP :: "gate \<Rightarrow> handler" where
  "gate_ServeHTTP g r w s =
     (if \<not> gt_open g then (write_header w 503 s, None)
      else case run_checks g (sq_ctx r) (gt_checks g) [] s of
          (s1, Inr v) \<Rightarrow> (s1, Some v)
        | (s1, Inl failed) \<Rightarrow>
            if length failed = 0 then (write_header w 200 s1, None)
            else (write_body w (json_failed failed)
                   (write_header w 503 (set_header ''Content-Type'' ''application/json'' s1)), None))"

section \<open>The three probes\<close>

record health =
  h_Started :: gate
  h_Live :: gate
  h_Ready :: gate

definition NewHealth :: health where
  "NewHealth = (let h = \<lparr>h_Started = zero_gate, h_Live = zero_gate, h_Ready = zero_gate\<rparr>
     in h\<lparr>h_Live := gate_Set True (h_Live h)\<rparr>)"

definition AddReadyCheck :: "string \<Rightarrow> check \<Rightarrow> health \<Rightarrow> health" where
  "AddReadyCheck name fn h =
     h\<lparr>h_Ready := (h_Ready h)\<lparr>gt_checks := gt_checks (h_Ready h) @ [(name, fn)]\<rparr>\<rparr>"

definition health_Up :: "health \<Rightarrow> health" where
  "health_Up h = h\<lparr>h_Started := gate_Set True (h_Started h), h_Ready := gate_Set True (h_Ready h)\<rparr>"

definition health_Drain :: "health \<Rightarrow> health" where
  "health_Drain h = h\<lparr>h_Ready := gate_Set False (h_Ready h)\<rparr>"

text \<open>
  \<open>AdminMux\<close>: the gate behind each pattern, and \<open>ServeMux\<close> on the three patterns. A \<open>GET\<close> pattern also
  matches \<open>HEAD\<close>; another method on a known path is a 405, another path a 404, and neither answer has a
  pattern.
\<close>

definition http_error :: "writer \<Rightarrow> string \<Rightarrow> int \<Rightarrow> hstate \<Rightarrow> hstate" where
  "http_error w msg code s =
     write_body w (msg @ [CHR 0x0A])
       (write_header w code
         (set_header ''X-Content-Type-Options'' ''nosniff''
           (set_header ''Content-Type'' ''text/plain; charset=utf-8'' s)))"

definition not_found :: handler where
  "not_found r w s = (http_error w ''404 page not found'' 404 s, None)"

definition method_not_allowed :: "string \<Rightarrow> handler" where
  "method_not_allowed methods r w s = (http_error w ''Method Not Allowed'' 405 (set_header ''Allow'' methods s), None)"

text \<open>A pattern with a method, on a request whose path it matches.\<close>

definition allowing :: "(srequest \<Rightarrow> bool) \<Rightarrow> string \<Rightarrow> handler \<Rightarrow> handler" where
  "allowing ok methods h r = (if ok r then h r else mux [] (method_not_allowed methods) r)"

definition get_or_head :: "srequest \<Rightarrow> bool" where
  "get_or_head r \<longleftrightarrow> sq_method r = MethodGet \<or> sq_method r = MethodHead"

definition admin_routes :: "(string \<times> (health \<Rightarrow> gate)) list" where
  "admin_routes = [(''/healthz'', h_Live), (''/readyz'', h_Ready), (''/startupz'', h_Started)]"

definition AdminMux :: "health \<Rightarrow> string \<Rightarrow> handler" where
  "AdminMux h path r w s =
     (case map_of admin_routes path of
        None \<Rightarrow> mux [] not_found r w s
      | Some sel \<Rightarrow>
          allowing get_or_head ''GET, HEAD'' (mux (''GET '' @ path) (gate_ServeHTTP (sel h))) r w s)"

section \<open>What a probe answers\<close>

text \<open>
  The checks called one after the other, each with a fresh deadline of two seconds: those that fail, in
  order, and the panic that ended it, if one did.
\<close>

fun checked :: "ctx \<Rightarrow> time \<Rightarrow> nat \<Rightarrow> (string \<times> check) list \<Rightarrow> (string \<times> goerr) list \<times> panic_value option" where
  "checked c now tok [] = ([], None)"
| "checked c now tok ((name, fn) # cs) =
     (case fn (with_timeout c checkTimeout now tok) now of
        (d, CheckPanics v) \<Rightarrow> ([], Some v)
      | (d, CheckPasses) \<Rightarrow> checked c (now + int d) (Suc tok) cs
      | (d, CheckFails e) \<Rightarrow> apfst (Cons (name, e)) (checked c (now + int d) (Suc tok) cs))"

text \<open>A callback that writes a line for each failure, as the services' loggers do.\<close>

definition log_failures :: "(string \<Rightarrow> goerr \<Rightarrow> log_line) \<Rightarrow> string \<Rightarrow> goerr \<Rightarrow> hstate \<Rightarrow> hstate" where
  "log_failures line name e s = s\<lparr>hs_log := hs_log s @ [line name e]\<rparr>"

definition failure_lines :: "(string \<Rightarrow> goerr \<Rightarrow> log_line) option \<Rightarrow> (string \<times> goerr) list \<Rightarrow> log_line list" where
  "failure_lines cb fs = (case cb of None \<Rightarrow> [] | Some line \<Rightarrow> map (\<lambda>(n, e). line n e) fs)"

lemma run_checks_eq:
  assumes "gt_OnCheckError g = map_option log_failures cb"
  shows "\<exists>t. run_checks g c cs failed s
        = (t, case checked c (hs_now s) (hs_next s) cs of
                (fs, None) \<Rightarrow> Inl (failed @ map fst fs) | (fs, Some v) \<Rightarrow> Inr v)
    \<and> hs_log t = hs_log s @ failure_lines cb (fst (checked c (hs_now s) (hs_next s) cs))
    \<and> hs_wire t = hs_wire s \<and> hs_body t = hs_body s \<and> hs_header t = hs_header s \<and> hs_head t = hs_head s"
proof (induction cs arbitrary: failed s)
  case Nil
  then show ?case by (simp add: failure_lines_def split: option.split)
next
  case (Cons p cs)
  obtain name fn where p: "p = (name, fn)" by fastforce
  obtain d res where fn: "fn (with_timeout c checkTimeout (hs_now s) (hs_next s)) (hs_now s) = (d, res)"
    by fastforce
  let ?s1 = "s\<lparr>hs_next := Suc (hs_next s), hs_now := hs_now s + int d\<rparr>"
  show ?case
  proof (cases res)
    case CheckPasses
    with Cons.IH [of failed ?s1] show ?thesis by (simp add: p fn Let_def)
  next
    case (CheckFails e)
    show ?thesis
    proof (cases cb)
      case None
      with CheckFails Cons.IH [of "failed @ [name]" ?s1] show ?thesis
        by (simp add: p fn Let_def assms failure_lines_def split_beta split: option.splits)
    next
      case (Some line)
      with CheckFails Cons.IH [of "failed @ [name]" "log_failures line name e ?s1"] show ?thesis
        by (simp add: p fn Let_def assms log_failures_def failure_lines_def split_beta split: option.splits)
    qed
  next
    case (CheckPanics v)
    then show ?thesis by (simp add: p fn Let_def failure_lines_def split: option.split)
  qed
qed

text \<open>C30: what a gate answers to a request. A closed gate is a 503 without a body and calls no check. An
  open one calls its checks in order, each with its own deadline of two seconds from the moment it is
  called; when none panics it answers 200 if none failed, and otherwise 503 with the names of those that
  failed, in order, as JSON (to a \<open>HEAD\<close>, the status alone). A check that panics ends the request there,
  unanswered, with its panic. The errors go to \<open>OnCheckError\<close> alone, one call for each failure, and
  nowhere when there is no callback, as in the gates of \<open>NewHealth\<close>; the callback here is one that logs.
  The response is a function of the names.\<close>

theorem gate_answers_by_name:
  assumes "awaits r s" and "gt_OnCheckError g = map_option log_failures cb"
    and "checked (sq_ctx r) (hs_now s) (hs_next s) (gt_checks g) = (fs, panic)"
    and "gate_ServeHTTP g r w s = (t, res)"
  shows "(gt_open g \<longrightarrow> res = panic
      \<and> hs_wire t = (if panic \<noteq> None then None else Some (if fs = [] then 200 else 503))
      \<and> hs_body t = hs_body s @ (if panic \<noteq> None \<or> fs = [] then [] else sent_body r (json_failed (map fst fs)))
      \<and> hs_log t = hs_log s @ failure_lines cb fs)
    \<and> (\<not> gt_open g \<longrightarrow> res = None \<and> t = write_header w 503 s \<and> hs_wire t = Some 503)"
proof -
  obtain u where u: "run_checks g (sq_ctx r) (gt_checks g) [] s
        = (u, case panic of None \<Rightarrow> Inl (map fst fs) | Some v \<Rightarrow> Inr v)"
    "hs_log u = hs_log s @ failure_lines cb fs" "hs_wire u = None" "hs_body u = hs_body s" "hs_head u = hs_head s"
    using run_checks_eq [OF assms(2), of "sq_ctx r" "gt_checks g" "[]" s] assms(1,3) by (auto simp: awaits_def)
  show ?thesis
    using assms(1,4) u
    by (cases panic)
       (auto simp: gate_ServeHTTP_def awaits_def sent_body_def write_header_wire write_body_wire informational_def
         set_header_def write_body_body [where c = 503])
qed

definition demo_gate :: gate where
  "demo_gate = \<lparr>gt_open = True, gt_OnCheckError = None,
     gt_checks = [(''db'', \<lambda>c t. (1, CheckPasses)), (''queue'', \<lambda>c t. (2, CheckFails DeadlineExceeded))]\<rparr>"

definition fresh_connection :: hstate where
  "fresh_connection = \<lparr>hs_now = 0, hs_next = 1, hs_pattern = (\<lambda>_. []),
     hs_writers = (\<lambda>_. \<lparr>sw_status = 200, sw_written = False\<rparr>), hs_informational = [], hs_header = [],
     hs_wire = None, hs_body = [], hs_log = [], hs_otel = [], hs_head = False\<rparr>"

theorem gate_answers_by_name_witness:
  "hs_body (fst (gate_ServeHTTP demo_gate \<lparr>sq_id = 0, sq_method = ''GET'', sq_header = (\<lambda>_. []), sq_ctx = background\<rparr>
      [] fresh_connection)) = json_failed [''queue'']"
proof -
  let ?r = "\<lparr>sq_id = 0, sq_method = ''GET'', sq_header = (\<lambda>_. []), sq_ctx = background\<rparr>"
  have facts: "awaits ?r fresh_connection" "gt_OnCheckError demo_gate = map_option log_failures None"
    "checked (sq_ctx ?r) (hs_now fresh_connection) (hs_next fresh_connection) (gt_checks demo_gate)
      = ([(''queue'', DeadlineExceeded)], None)"
    by (simp_all add: awaits_def demo_gate_def fresh_connection_def MethodHead_def)
  obtain t res where run: "gate_ServeHTTP demo_gate ?r [] fresh_connection = (t, res)" by fastforce
  from gate_answers_by_name [OF facts run] show ?thesis
    unfolding run by (simp add: fresh_connection_def demo_gate_def sent_body_def MethodHead_def)
qed

section \<open>Liveness depends on nothing\<close>

text \<open>Whatever is done to the three probes through the API: \<open>Live\<close> and \<open>Started\<close> never carry a check,
  and \<open>Live\<close> stays open.\<close>

datatype health_op = AddCheck string check | GoUp | GoDown

fun health_do :: "health_op \<Rightarrow> health \<Rightarrow> health" where
  "health_do (AddCheck n f) h = AddReadyCheck n f h"
| "health_do GoUp h = health_Up h"
| "health_do GoDown h = health_Drain h"

lemma live_depends_on_nothing:
  "h_Live (fold health_do ops NewHealth) = gate_Set True zero_gate
    \<and> gt_checks (h_Started (fold health_do ops NewHealth)) = []"
proof -
  have "h_Live (fold health_do ops h) = h_Live h \<and> gt_checks (h_Started (fold health_do ops h)) = gt_checks (h_Started h)" for h
  proof (induction ops arbitrary: h)
    case (Cons x ops)
    then show ?case
      by (cases x) (simp_all add: AddReadyCheck_def health_Up_def health_Drain_def gate_Set_def)
  qed simp
  then show ?thesis by (simp add: NewHealth_def zero_gate_def gate_Set_def)
qed

end
