(* ===== verification/Probes.thy ===== *)
theory Probes
  imports Health Lifecycle_Props
begin

text \<open>
  The wiring the two packages are made for: \<open>lc.OnStarted(h.Up)\<close> and \<open>lc.OnDrain(h.Drain)\<close>. The probes of
  a running service are what the hooks it has called made of the fresh ones; hooks are names, \<open>up\<close>
  and \<open>dr\<close> are those of the two methods.
\<close>

fun probe_event :: "func \<Rightarrow> func \<Rightarrow> health \<Rightarrow> event \<Rightarrow> health" where
  "probe_event up dr h (EvStartedHook f) = (if f = up then health_Up h else h)"
| "probe_event up dr h (EvDrainHook f) = (if f = dr then health_Drain h else h)"
| "probe_event up dr h _ = h"

definition probes :: "func \<Rightarrow> func \<Rightarrow> health \<Rightarrow> run \<Rightarrow> health" where
  "probes up dr h s = foldl (probe_event up dr) h (map snd (r_log s))"

lemma probes_log_event [simp]:
  "probes up dr h (log_event e s) = probe_event up dr (probes up dr h s) e"
  by (simp add: probes_def log_event_def)

lemma probes_logf [simp]: "probes up dr h (logf m a s) = probes up dr h s"
  by (simp add: logf_def)

lemma probes_update [simp]:
  "probes up dr h (s\<lparr>r_pc := x\<rparr>) = probes up dr h s" "probes up dr h (s\<lparr>r_gs := gs\<rparr>) = probes up dr h s"
  "probes up dr h (s\<lparr>r_errs := es\<rparr>) = probes up dr h s" "probes up dr h (s\<lparr>r_cancelled := b\<rparr>) = probes up dr h s"
  "probes up dr h (s\<lparr>r_started := st\<rparr>) = probes up dr h s" "probes up dr h (s\<lparr>r_now := t\<rparr>) = probes up dr h s"
  "probes up dr h (s\<lparr>r_start_err := oe\<rparr>) = probes up dr h s" "probes up dr h (s\<lparr>r_stop_errs := el\<rparr>) = probes up dr h s"
  "probes up dr h (s\<lparr>r_lc := l\<rparr>) = probes up dr h s"
  by (simp_all add: probes_def)

lemma probes_begin_drain [simp]: "probes up dr h (begin_drain s) = probes up dr h s"
  by (simp add: begin_drain_def)

text \<open>Readiness and startup, by the point \<open>Run\<close> has reached.\<close>

definition ready :: "health \<Rightarrow> bool" where "ready h = gt_open (h_Ready h)"
definition started :: "health \<Rightarrow> bool" where "started h = gt_open (h_Started h)"
definition live :: "health \<Rightarrow> bool" where "live h = gt_open (h_Live h)"

lemmas probe_defs = ready_def started_def live_def health_Up_def health_Drain_def gate_Set_def

lemma probe_methods [simp]:
  "ready (health_Up h)" "started (health_Up h)" "live (health_Up h) = live h"
  "\<not> ready (health_Drain h)" "started (health_Drain h) = started h" "live (health_Drain h) = live h"
  by (simp_all add: probe_defs)

definition probe_inv :: "func \<Rightarrow> func \<Rightarrow> health \<Rightarrow> run \<Rightarrow> bool" where
  "probe_inv up dr h0 s \<longleftrightarrow>
     (let h = probes up dr h0 s; us = lc_startedHooks (r_lc s); ds = lc_drainHooks (r_lc s) in
      live h \<and>
      (case r_pc s of
         StartedHooks k \<Rightarrow> ready h = (up \<in> set (take k us)) \<and> started h = (up \<in> set (take k us))
       | Waiting \<Rightarrow> ready h \<and> started h
       | DrainHooks k \<Rightarrow> ready h = (dr \<notin> set (take k ds)) \<and> started h
       | Sleeping t \<Rightarrow> \<not> ready h \<and> started h
       | NextStop m \<Rightarrow> \<not> ready h \<and> started h = (r_start_err s = None)
       | Stopping n \<Rightarrow> \<not> ready h \<and> started h = (r_start_err s = None)
       | Result e \<Rightarrow> \<not> ready h
       | _ \<Rightarrow> \<not> ready h \<and> \<not> started h))"

definition wired :: "func \<Rightarrow> func \<Rightarrow> lifecycle \<Rightarrow> bool" where
  "wired up dr l \<longleftrightarrow> up \<in> set (lc_startedHooks l) \<and> dr \<in> set (lc_drainHooks l)"

lemma take_Suc_set: "k < length xs \<Longrightarrow> set (take (Suc k) xs) = insert (xs ! k) (set (take k xs))"
  by (simp add: take_Suc_conv_app_nth)

lemma probe_inv_main:
  assumes inv: "probe_inv up dr h s" and hook: "hook_inv s" and wired: "wired up dr (r_lc s)"
    and step: "main_step s = Some s'"
  shows "probe_inv up dr h s'"
proof (cases "r_pc s")
  case (StartedHooks k)
  with assms show ?thesis
    by (auto simp: probe_inv_def main_step_def take_Suc_set hook_inv_def wired_def Let_def split: if_splits)
next
  case (DrainHooks k)
  with assms show ?thesis
    by (auto simp: probe_inv_def main_step_def take_Suc_set hook_inv_def wired_def Let_def split: if_splits)
qed (use assms in \<open>auto simp: probe_inv_def main_step_def hook_inv_def wired_def Let_def
      split: if_splits option.splits nat.splits\<close>)

lemma probes_goroutine:
  assumes "call_start p s = Some s' \<or> start_returns p res s = Some s'
    \<or> call_stop p s = Some s' \<or> stop_returns p res s = Some s'"
  shows "probes up dr h s' = probes up dr h s"
  using assms
  by (elim disjE; auto simp: call_start_def start_returns_def call_stop_def stop_returns_def Let_def
      split: pc.splits if_splits option.splits)+

lemma probe_inv_cong:
  assumes "r_pc s' = r_pc s" "r_start_err s' = r_start_err s" "probes up dr h s' = probes up dr h s"
    "lc_startedHooks (r_lc s') = lc_startedHooks (r_lc s)" "lc_drainHooks (r_lc s') = lc_drainHooks (r_lc s)"
  shows "probe_inv up dr h s' = probe_inv up dr h s"
  by (cases "r_pc s") (simp_all add: probe_inv_def assms)

lemma probe_inv_goroutine:
  assumes "call_start p s = Some s' \<or> start_returns p res s = Some s'
    \<or> call_stop p s = Some s' \<or> stop_returns p res s = Some s'"
    and "probe_inv up dr h s" "wired up dr (r_lc s)"
  shows "probe_inv up dr h s' \<and> wired up dr (r_lc s')"
  using goroutine_frame [OF assms(1)] probes_goroutine [OF assms(1)] assms(2,3)
  by (simp add: probe_inv_cong [of s' s])

lemma probe_inv_step:
  assumes "probe_inv up dr h s" "hook_inv s" "wired up dr (r_lc s)" "run_step a s = Some s'"
  shows "probe_inv up dr h s' \<and> wired up dr (r_lc s')"
proof (cases a)
  case Main
  then have "r_lc s' = r_lc s" using assms(4)
    by (auto simp: main_step_def Let_def split: pc.splits if_splits option.splits nat.splits)
  with Main show ?thesis using assms probe_inv_main by simp
next
  case SelectCtx
  then show ?thesis using assms by (auto simp: probe_inv_def select_ctx_def Let_def split: if_splits)
next
  case SelectFatal
  then show ?thesis using assms by (auto simp: probe_inv_def select_fatal_def Let_def split: if_splits)
next
  case (Tick d)
  then show ?thesis using assms probe_inv_cong [of s' s up dr h] by auto
next
  case (CallFatal e)
  then show ?thesis using assms probe_inv_cong [of s' s up dr h] by (auto simp: wired_def)
next
  case (CallStart p)
  then show ?thesis using probe_inv_goroutine [of p s s' None] assms by simp
next
  case (StartReturns p res)
  then show ?thesis using probe_inv_goroutine [of p s s' res] assms by simp
next
  case (CallStop p)
  then show ?thesis using probe_inv_goroutine [of p s s' None] assms by simp
next
  case (StopReturns p res)
  then show ?thesis using probe_inv_goroutine [of p s s' res] assms by simp
qed

interpretation probing: supported run_step "run_init l c now" hook_inv
    "\<lambda>s. wired up dr l \<and> \<not> ready h \<and> \<not> started h \<and> live h \<longrightarrow> probe_inv up dr h s \<and> wired up dr (r_lc s)"
  for l c now up dr h
  by unfold_locales (simp add: probe_inv_def run_init_def probes_def, blast dest: probe_inv_step)

lemma probe_inv_reach:
  assumes "run_reach l c now s" and "wired up dr l" and "\<not> ready h" "\<not> started h" "live h"
  shows "probe_inv up dr h s \<and> wired up dr (r_lc s)"
  using probing.also_holds [OF assms(1)] assms(2-5) by blast

text \<open>The health a service starts with: fresh probes, and readiness checks.\<close>

definition checked_health :: "(string \<times> check) list \<Rightarrow> health" where
  "checked_health cs = fold (\<lambda>(n, f). AddReadyCheck n f) cs NewHealth"

lemma add_check_probes [simp]:
  "ready (AddReadyCheck n f h) = ready h" "started (AddReadyCheck n f h) = started h"
  "live (AddReadyCheck n f h) = live h"
  by (simp_all add: AddReadyCheck_def probe_defs)

lemma checked_health_probes [simp]:
  "\<not> ready (checked_health cs)" "\<not> started (checked_health cs)" "live (checked_health cs)"
proof -
  have "ready (fold (\<lambda>(n, f). AddReadyCheck n f) cs h) = ready h
      \<and> started (fold (\<lambda>(n, f). AddReadyCheck n f) cs h) = started h
      \<and> live (fold (\<lambda>(n, f). AddReadyCheck n f) cs h) = live h" for h
    by (induction cs arbitrary: h) (simp_all add: split_beta)
  then show "\<not> ready (checked_health cs)" "\<not> started (checked_health cs)" "live (checked_health cs)"
    by (simp_all add: checked_health_def probe_defs NewHealth_def zero_gate_def)
qed

text \<open>Open readiness means that everything is up.\<close>

lemma ready_all_up:
  assumes "wf_lifecycle l" and "wired up dr l" and "run_reach l c now s" and "ready (probes up dr (checked_health cs) s)"
    and "i < length (r_comps s)"
  shows "life_of s i = Up"
  using probe_inv_reach [OF assms(3,2), of "checked_health cs"] life_inv_reach [OF assms(1,3)] assms(4,5)
  by (cases "r_pc s") (auto simp: probe_inv_def life_defs)

text \<open>C20: with \<open>h.Up\<close> registered by \<open>OnStarted\<close> and \<open>h.Drain\<close> by \<open>OnDrain\<close>, in every interleaving of \<open>Run\<close>:
  the readiness gate is open only while every component is up and none has been asked to stop; while
  \<open>Run\<close> waits for its shutdown readiness and startup are both open; once the stopping has begun
  readiness is closed for good; a startup that failed never opened anything; and liveness is open
  throughout.\<close>

theorem readiness_follows_the_lifecycle:
  assumes "wf_lifecycle l" and "wired up dr l" and "run_reach l c now s"
    and "h = probes up dr (checked_health cs) s"
  shows "live h
    \<and> (ready h \<longrightarrow> (\<forall>i < length (r_comps s). life_of s i = Up))
    \<and> (r_pc s = Waiting \<longrightarrow> ready h \<and> started h)
    \<and> (\<forall>n. r_pc s = Stopping n \<or> (\<exists>e. r_pc s = Result e) \<longrightarrow> \<not> ready h)
    \<and> (\<forall>n. r_pc s = Stopping n \<and> start_failures (r_comps s) (r_log s) \<noteq> [] \<longrightarrow> \<not> started h)"
proof -
  have inv: "probe_inv up dr (checked_health cs) s"
    using probe_inv_reach [OF assms(3,2)] by simp
  have "\<forall>i < length (r_comps s). life_of s i = Up" if "ready h"
    using ready_all_up [OF assms(1-3), of cs] that by (simp add: assms(4))
  moreover have "\<not> started h" if "r_pc s = Stopping n" "start_failures (r_comps s) (r_log s) \<noteq> []" for n
  proof -
    have "r_start_err s \<noteq> None"
      using error_inv_reach [OF assms(3)] that by (auto simp: error_inv_def reports_starts_def split: option.splits)
    with inv that(1) show ?thesis by (simp add: probe_inv_def assms(4) Let_def)
  qed
  ultimately show ?thesis
    using inv by (auto simp: probe_inv_def assms(4) Let_def)
qed

theorem readiness_follows_the_lifecycle_witness:
  "\<exists>s. run_steps booted (run_init demo demo_ctx 0) = Some s
    \<and> ready (probes 90 91 (checked_health []) s) \<and> life_of s 1 = Up"
proof -
  have "(case run_steps booted (run_init demo demo_ctx 0) of None \<Rightarrow> False
    | Some s \<Rightarrow> r_pc s = Waiting \<and> length (r_comps s) = 2)" by code_simp
  then obtain s where s: "run_steps booted (run_init demo demo_ctx 0) = Some s" "r_pc s = Waiting"
    "length (r_comps s) = 2"
    by (auto split: option.splits)
  have "wired 90 91 demo" unfolding wired_def by code_simp
  from readiness_follows_the_lifecycle [OF wf_demo this reachesI [OF s(1)] refl] s
  show ?thesis by auto
qed

end
