(* ===== verification/Contract.thy ===== *)
theory Contract
  imports Go_Strings
begin

text \<open>
  Package \<open>contract\<close>, \<open>contract.go\<close>: the error vocabulary, and the helpers of package \<open>testkit\<close>
  (\<open>assert.go\<close>) that read it. The interfaces \<open>Coded\<close> and \<open>Detailed\<close> are what a \<open>goerr\<close> answers;
  \<open>errors.As\<close> looks for them depth first. A test's \<open>TB\<close> is what it was told: nothing, or the message
  of the \<open>Fatalf\<close> that ended it.
\<close>

definition KeyCode :: string where
  "KeyCode = ''code''"

section \<open>The interfaces\<close>

text \<open>\<open>ErrorCode\<close> of an error that is itself \<open>Coded\<close>, \<open>ErrorParams\<close> of one that is itself \<open>Detailed\<close>.\<close>

fun Coded :: "goerr \<Rightarrow> string option" where
  "Coded (ContractErr m c ps) = Some c"
| "Coded e = None"

fun Detailed :: "goerr \<Rightarrow> (string \<times> param) list option" where
  "Detailed (ContractErr m c ps) = ps"
| "Detailed e = None"

text \<open>\<open>errors.As\<close>: the first error of the tree, in preorder, that has what is asked for.\<close>

fun first_some :: "'a option list \<Rightarrow> 'a option" where
  "first_some [] = None"
| "first_some (Some x # xs) = Some x"
| "first_some (None # xs) = first_some xs"

fun err_as :: "(goerr \<Rightarrow> 'a option) \<Rightarrow> goerr \<Rightarrow> 'a option" where
  "err_as f (Wrapped m e) = (case f (Wrapped m e) of Some x \<Rightarrow> Some x | None \<Rightarrow> err_as f e)"
| "err_as f (Joined es) = (case f (Joined es) of Some x \<Rightarrow> Some x | None \<Rightarrow> first_some (map (err_as f) es))"
| "err_as f (Err m) = f (Err m)"
| "err_as f (ContractErr m c ps) = f (ContractErr m c ps)"

section \<open>Assertions\<close>

definition Code :: "goerr option \<Rightarrow> string \<times> bool" where
  "Code err =
     (case err of None \<Rightarrow> ([], False)
      | Some e \<Rightarrow> (case err_as Coded e of None \<Rightarrow> ([], False) | Some c \<Rightarrow> (c, True)))"

definition error_v :: "goerr option \<Rightarrow> string" where
  "error_v err = (case err of None \<Rightarrow> ''<nil>'' | Some e \<Rightarrow> err_text e)"

definition AssertCode :: "goerr option \<Rightarrow> string \<Rightarrow> string option" where
  "AssertCode err want =
     (case Code err of (got, ok) \<Rightarrow>
        if \<not> ok then Some (''error does not carry a contract code: '' @ error_v err)
        else if got \<noteq> want then Some (''error code = '' @ go_quote got @ '', want '' @ go_quote want)
        else None)"

text \<open>\<open>fmt.Sprintf("%v")\<close> of a scalar.\<close>

fun render_param :: "param \<Rightarrow> string" where
  "render_param (PStr s) = s"
| "render_param (PInt n) = itoa n"
| "render_param (PBool b) = (if b then ''true'' else ''false'')"

definition toComparable :: "(string \<times> param) list \<Rightarrow> (string \<times> string) list" where
  "toComparable m = map (\<lambda>(k, v). (k, render_param v)) m"

text \<open>\<open>maps.Equal\<close>: the same number of keys, and every key of the one has its value in the other.\<close>

definition maps_Equal :: "(string \<times> string) list \<Rightarrow> (string \<times> string) list \<Rightarrow> bool" where
  "maps_Equal m1 m2 \<longleftrightarrow> length m1 = length m2 \<and> list_all (\<lambda>(k, v). map_of m2 k = Some v) m1"

text \<open>\<open>AssertParams\<close>; \<open>show\<close> stands for the rendering of a map in the message.\<close>

definition AssertParams ::
  "((string \<times> param) list \<Rightarrow> string) \<Rightarrow> goerr option \<Rightarrow> (string \<times> param) list \<Rightarrow> string option"
where
  "AssertParams show_map err want =
     (case (case err of None \<Rightarrow> None | Some e \<Rightarrow> err_as Detailed e) of
        None \<Rightarrow> Some (''error does not carry contract params: '' @ error_v err)
      | Some got \<Rightarrow>
          if \<not> maps_Equal (toComparable got) (toComparable want)
          then Some (''error params = '' @ show_map got @ '', want '' @ show_map want)
          else None)"

section \<open>What the assertions accept\<close>

text \<open>Wrapping with context hides nothing.\<close>

fun wrap :: "string list \<Rightarrow> goerr \<Rightarrow> goerr" where
  "wrap [] e = e"
| "wrap (m # ms) e = Wrapped m (wrap ms e)"

lemma err_as_wrap [simp]:
  "err_as Coded (wrap ms e) = err_as Coded e" "err_as Detailed (wrap ms e) = err_as Detailed e"
  by (induction ms) simp_all

lemma maps_Equal_iff:
  assumes "distinct (map fst m1)" "distinct (map fst m2)"
  shows "maps_Equal m1 m2 \<longleftrightarrow> map_of m1 = map_of m2"
proof
  assume eq: "maps_Equal m1 m2"
  then have sub: "fst ` set m1 \<subseteq> fst ` set m2"
    by (auto simp: maps_Equal_def list_all_iff dest!: map_of_SomeD)
  have "card (fst ` set m1) = card (fst ` set m2)"
    using eq distinct_card [OF assms(1)] distinct_card [OF assms(2)] by (simp add: maps_Equal_def)
  then have dom: "fst ` set m1 = fst ` set m2" by (intro card_subset_eq sub) simp_all
  show "map_of m1 = map_of m2"
  proof
    fix k show "map_of m1 k = map_of m2 k"
    proof (cases "map_of m1 k")
      case None
      then show ?thesis using dom by (metis map_of_eq_None_iff)
    next
      case (Some v)
      then have "(k, v) \<in> set m1" by (rule map_of_SomeD)
      with eq Some show ?thesis by (auto simp: maps_Equal_def list_all_iff)
    qed
  qed
next
  assume eq: "map_of m1 = map_of m2"
  have "fst ` set m1 = fst ` set m2" using eq by (metis dom_map_of_conv_image_fst)
  then have "length m1 = length m2"
    using distinct_card [OF assms(1)] distinct_card [OF assms(2)] by simp
  moreover have "map_of m2 k = Some v" if "(k, v) \<in> set m1" for k v
    using that eq assms(1) by (metis map_of_is_SomeI)
  ultimately show "maps_Equal m1 m2" by (auto simp: maps_Equal_def list_all_iff)
qed

lemma toComparable_keys: "map fst (toComparable m) = map fst m"
  by (induction m) (auto simp: toComparable_def)

lemma map_of_toComparable: "map_of (toComparable m) k = map_option render_param (map_of m k)"
  by (induction m) (auto simp: toComparable_def)

text \<open>The assertions on contract errors. \<open>AssertCode\<close> passes exactly when an error of the tree has a
  code and the first such has the one wanted, however deep it is wrapped; \<open>AssertParams\<close> passes exactly
  when one carries params and these are the wanted ones, as functions from key to rendered value: a
  missing, a different and an extra param all fail.\<close>

lemma assertions_are_exact:
  assumes "distinct (map fst want)" and "\<And>got. err_as Detailed e = Some got \<Longrightarrow> distinct (map fst got)"
  shows "(AssertCode (Some (wrap ms e)) code = None \<longleftrightarrow> err_as Coded e = Some code)
    \<and> (AssertParams f (Some (wrap ms e)) want = None \<longleftrightarrow>
         (\<exists>got. err_as Detailed e = Some got
            \<and> (\<forall>k. map_option render_param (map_of got k) = map_option render_param (map_of want k))))
    \<and> AssertCode None code \<noteq> None \<and> AssertParams f None want \<noteq> None"
proof -
  have "maps_Equal (toComparable got) (toComparable want)
      \<longleftrightarrow> (\<forall>k. map_option render_param (map_of got k) = map_option render_param (map_of want k))"
    if "err_as Detailed e = Some got" for got
    using maps_Equal_iff [of "toComparable got" "toComparable want"] assms(1) assms(2) [OF that]
    by (simp add: toComparable_keys fun_eq_iff map_of_toComparable)
  then show ?thesis
    by (auto simp: AssertCode_def AssertParams_def Code_def split: option.splits)
qed

lemma assertions_are_exact_witness:
  "AssertCode (Some (wrap [''placing order''] (ContractErr ''too many'' ''order.too_many_items''
      (Some [(''max'', PInt 100), (''got'', PInt 250)])))) ''order.too_many_items'' = None
   \<and> AssertParams (\<lambda>m. []) (Some (wrap [''placing order''] (ContractErr ''too many'' ''order.too_many_items''
      (Some [(''max'', PInt 100), (''got'', PInt 250)])))) [(''max'', PInt 100)] \<noteq> None"
proof -
  let ?e = "ContractErr ''too many'' ''order.too_many_items'' (Some [(''max'', PInt 100), (''got'', PInt 250)])"
  have want: "distinct (map fst [(''max'', PInt 100)])" by simp
  have got: "err_as Detailed ?e = Some g \<Longrightarrow> distinct (map fst g)" for g by auto
  have "map_option render_param (map_of [(''max'', PInt 100), (''got'', PInt 250)] ''got'')
      \<noteq> map_option render_param (map_of [(''max'', PInt 100)] ''got'')" by simp
  with assertions_are_exact [of "[(''max'', PInt 100)]" ?e "[''placing order'']" "''order.too_many_items''" "\<lambda>m. []",
      OF want got]
  show ?thesis by auto
qed

end
