(* ===== verification/Logging.thy ===== *)
theory Logging
  imports Http "HOL-Library.Multiset"
begin

text \<open>
  Package \<open>logging\<close>: the handler that puts extractor attributes at the top level, over any \<open>slog.Handler\<close>.
  The interface is a record of methods, \<open>slog_ops\<close>; what \<open>log/slog\<close> asks of an implementation is the
  locale \<open>slog_handler\<close>, in which the handler is proved correct; \<open>slog.JSONHandler\<close>, the one
  \<open>logging.New\<close> uses, is an instance. Where an attribute ends up is its path of groups.
\<close>

section \<open>The interface of handlers\<close>

type_synonym 'v attr = "string \<times> 'v"

record 'v log_record =
  rec_level :: int
  rec_message :: string
  rec_attrs :: "'v attr list"

text \<open>The methods of a handler \<open>'h\<close>; \<open>'o\<close> is what a \<open>Handle\<close> call does: the line and the error.\<close>

record ('h, 'v, 'o) slog_ops =
  op_Enabled :: "ctx \<Rightarrow> int \<Rightarrow> 'h \<Rightarrow> bool"
  op_WithAttrs :: "'v attr list \<Rightarrow> 'h \<Rightarrow> 'h"
  op_WithGroup :: "string \<Rightarrow> 'h \<Rightarrow> 'h"
  op_Handle :: "ctx \<Rightarrow> 'v log_record \<Rightarrow> 'h \<Rightarrow> 'o"

section \<open>The handler\<close>

type_synonym 'v extractor = "ctx \<Rightarrow> 'v attr list"

record 'v op =
  op_group :: string
  op_attrs :: "'v attr list"

definition op_apply :: "('h, 'v, 'o) slog_ops \<Rightarrow> 'v op \<Rightarrow> 'h \<Rightarrow> 'h" where
  "op_apply I o' h = (if op_group o' \<noteq> [] then op_WithGroup I (op_group o') h else op_WithAttrs I (op_attrs o') h)"

record ('h, 'v) log_handler =
  lh_next :: 'h
  lh_ex :: "'v extractor list"
  lh_ops :: "'v op list"

definition NewHandler :: "'h \<Rightarrow> 'v extractor list \<Rightarrow> ('h, 'v) log_handler" where
  "NewHandler nxt ex = \<lparr>lh_next = nxt, lh_ex = ex, lh_ops = []\<rparr>"

definition log_Enabled :: "('h, 'v, 'o) slog_ops \<Rightarrow> ctx \<Rightarrow> int \<Rightarrow> ('h, 'v) log_handler \<Rightarrow> bool" where
  "log_Enabled I c l h = op_Enabled I c l (lh_next h)"

definition log_WithAttrs :: "('h, 'v, 'o) slog_ops \<Rightarrow> 'v attr list \<Rightarrow> ('h, 'v) log_handler \<Rightarrow> ('h, 'v) log_handler" where
  "log_WithAttrs I attrs h =
     (if attrs = [] then h
      else if lh_ex h = [] then NewHandler (op_WithAttrs I attrs (lh_next h)) []
      else h\<lparr>lh_ops := lh_ops h @ [\<lparr>op_group = [], op_attrs = attrs\<rparr>]\<rparr>)"

definition log_WithGroup :: "('h, 'v, 'o) slog_ops \<Rightarrow> string \<Rightarrow> ('h, 'v) log_handler \<Rightarrow> ('h, 'v) log_handler" where
  "log_WithGroup I name h =
     (if name = [] then h
      else if lh_ex h = [] then NewHandler (op_WithGroup I name (lh_next h)) []
      else h\<lparr>lh_ops := lh_ops h @ [\<lparr>op_group = name, op_attrs = []\<rparr>]\<rparr>)"

text \<open>The two loops over the extractors.\<close>

fun extend_record :: "'v extractor list \<Rightarrow> ctx \<Rightarrow> 'v log_record \<Rightarrow> 'v log_record" where
  "extend_record [] c r = r"
| "extend_record (e # es) c r =
     extend_record es c (let attrs = e c in if 0 < length attrs then r\<lparr>rec_attrs := rec_attrs r @ attrs\<rparr> else r)"

fun extend_handler :: "('h, 'v, 'o) slog_ops \<Rightarrow> 'v extractor list \<Rightarrow> ctx \<Rightarrow> 'h \<Rightarrow> 'h" where
  "extend_handler I [] c n = n"
| "extend_handler I (e # es) c n =
     extend_handler I es c (let attrs = e c in if 0 < length attrs then op_WithAttrs I attrs n else n)"

definition log_Handle :: "('h, 'v, 'o) slog_ops \<Rightarrow> ctx \<Rightarrow> 'v log_record \<Rightarrow> ('h, 'v) log_handler \<Rightarrow> 'o" where
  "log_Handle I c r h =
     (if lh_ops h = []
      then if lh_ex h = [] then op_Handle I c r (lh_next h)
        else op_Handle I c (extend_record (lh_ex h) c r) (lh_next h)
      else op_Handle I c r (fold (op_apply I) (lh_ops h) (extend_handler I (lh_ex h) c (lh_next h))))"

text \<open>The handler is a \<open>slog.Handler\<close> again.\<close>

definition log_ops :: "('h, 'v, 'o) slog_ops \<Rightarrow> (('h, 'v) log_handler, 'v, 'o) slog_ops" where
  "log_ops I = \<lparr>op_Enabled = log_Enabled I, op_WithAttrs = log_WithAttrs I, op_WithGroup = log_WithGroup I,
     op_Handle = log_Handle I\<rparr>"

section \<open>Loggers\<close>

text \<open>What \<open>slog.Logger\<close> does with a handler: \<open>With\<close>, \<open>WithGroup\<close>, and a log call.\<close>

datatype 'v derivation = With "'v attr list" | InGroup string

fun derive :: "('h, 'v, 'o) slog_ops \<Rightarrow> 'v derivation \<Rightarrow> 'h \<Rightarrow> 'h" where
  "derive I (With attrs) h = (if attrs = [] then h else op_WithAttrs I attrs h)"
| "derive I (InGroup name) h = (if name = [] then h else op_WithGroup I name h)"

definition derived :: "('h, 'v, 'o) slog_ops \<Rightarrow> 'v derivation list \<Rightarrow> 'h \<Rightarrow> 'h" where
  "derived I ds h = fold (derive I) ds h"

definition logger_Log ::
  "('h, 'v, 'o) slog_ops \<Rightarrow> 'h \<Rightarrow> ctx \<Rightarrow> int \<Rightarrow> string \<Rightarrow> 'v attr list \<Rightarrow> 'o option"
where
  "logger_Log I h c level msg attrs =
     (if op_Enabled I c level h
      then Some (op_Handle I c \<lparr>rec_level = level, rec_message = msg, rec_attrs = attrs\<rparr> h) else None)"

section \<open>The contract of a handler, and what it gives\<close>

text \<open>
  What \<open>log/slog\<close> promises of a handler: attributes go where its scope says (the groups opened so
  far), only \<open>WithGroup\<close> changes that, and a line holds what was preset and what its record brings.
\<close>

locale slog_handler =
  fixes I :: "('h, 'v, 'o) slog_ops"
    and scope :: "'h \<Rightarrow> 's"
    and put :: "'s \<Rightarrow> 'v attr \<Rightarrow> string list \<times> 'v attr"
    and preset :: "'h \<Rightarrow> (string list \<times> 'v attr) multiset"
    and located :: "'o \<Rightarrow> (string list \<times> 'v attr) multiset"
  assumes scope_attrs: "scope (op_WithAttrs I as h) = scope h"
    and preset_attrs: "preset (op_WithAttrs I as h) = preset h + image_mset (put (scope h)) (mset as)"
    and scope_group: "scope h = scope h' \<Longrightarrow> scope (op_WithGroup I name h) = scope (op_WithGroup I name h')"
    and preset_group: "preset (op_WithGroup I name h) = preset h"
    and located_handle: "located (op_Handle I c r h) = preset h + image_mset (put (scope h)) (mset (rec_attrs r))"
    and enabled_attrs: "op_Enabled I c l (op_WithAttrs I as h) = op_Enabled I c l h"
    and enabled_group: "op_Enabled I c l (op_WithGroup I name h) = op_Enabled I c l h"
begin

lemma extended: "scope (extend_handler I es c n) = scope n"
    "preset (extend_handler I es c n) = preset n + image_mset (put (scope n)) (mset (concat (map (\<lambda>e. e c) es)))"
  by (induction es arbitrary: n) (auto simp: scope_attrs preset_attrs Let_def)

lemma extend_record_attrs: "rec_attrs (extend_record es c r) = rec_attrs r @ concat (map (\<lambda>e. e c) es)"
  by (induction es c r rule: extend_record.induct) (auto simp: Let_def)

text \<open>Two handlers in the same scope stay so, and keep what one has more than the other.\<close>

lemma replay:
  assumes "scope a = scope b" and "preset a = preset b + extra"
  shows "scope (fold (op_apply I) ops a) = scope (fold (op_apply I) ops b)
    \<and> preset (fold (op_apply I) ops a) = preset (fold (op_apply I) ops b) + extra"
  using assms
proof (induction ops arbitrary: a b)
  case (Cons x ops)
  have "scope (op_apply I x a) = scope (op_apply I x b)"
    "preset (op_apply I x a) = preset (op_apply I x b) + extra"
    using Cons.prems scope_group [of a b]
    by (simp_all add: op_apply_def scope_attrs preset_attrs preset_group ac_simps)
  with Cons.IH show ?case by simp
qed simp

lemma derived_eager:
  "lh_ex h = [] \<Longrightarrow> lh_ops h = [] \<Longrightarrow> derived (log_ops I) ds h = NewHandler (derived I ds (lh_next h)) []"
proof (induction ds arbitrary: h)
  case (Cons d ds)
  then show ?case
    by (cases d) (auto simp: derived_def log_ops_def log_WithAttrs_def log_WithGroup_def NewHandler_def)
qed (simp add: derived_def NewHandler_def)

lemma derived_deferred:
  assumes "lh_ex h \<noteq> []"
  shows "lh_ex (derived (log_ops I) ds h) = lh_ex h \<and> lh_next (derived (log_ops I) ds h) = lh_next h
    \<and> fold (op_apply I) (lh_ops (derived (log_ops I) ds h)) n = derived I ds (fold (op_apply I) (lh_ops h) n)"
  using assms
proof (induction ds arbitrary: h)
  case (Cons d ds)
  let ?h = "derive (log_ops I) d h"
  have "lh_ex ?h = lh_ex h" "lh_next ?h = lh_next h"
    "fold (op_apply I) (lh_ops ?h) n = derive I d (fold (op_apply I) (lh_ops h) n)"
    using Cons.prems by (cases d; auto simp: log_ops_def log_WithAttrs_def log_WithGroup_def op_apply_def)+
  with Cons.IH [of ?h] Cons.prems show ?case by (simp add: derived_def)
qed (simp add: derived_def)

text \<open>The handler against the plain one: the same attributes, and the extracted ones at the root.\<close>

lemma enriched:
  "located (op_Handle (log_ops I) c r (derived (log_ops I) ds (NewHandler n ex)))
     = located (op_Handle I c r (derived I ds n))
       + image_mset (put (scope n)) (mset (concat (map (\<lambda>e. e c) ex)))"
proof (cases "ex = []")
  case True
  then show ?thesis
    using derived_eager [of "NewHandler n ex" ds] by (simp add: NewHandler_def log_ops_def log_Handle_def)
next
  case False
  let ?h = "derived (log_ops I) ds (NewHandler n ex)"
  have h: "lh_ex ?h = ex" "lh_next ?h = n" "\<And>m. fold (op_apply I) (lh_ops ?h) m = derived I ds m"
    using derived_deferred [of "NewHandler n ex" ds] False by (simp_all add: NewHandler_def)
  show ?thesis
  proof (cases "lh_ops ?h = []")
    case True
    with h(3) have "derived I ds n = n" by (metis fold_simps(1))
    with True h False show ?thesis
      by (simp add: log_ops_def log_Handle_def located_handle extend_record_attrs)
  next
    case ops: False
    have "scope (fold (op_apply I) (lh_ops ?h) (extend_handler I ex c n)) = scope (fold (op_apply I) (lh_ops ?h) n)
      \<and> preset (fold (op_apply I) (lh_ops ?h) (extend_handler I ex c n))
        = preset (fold (op_apply I) (lh_ops ?h) n) + image_mset (put (scope n)) (mset (concat (map (\<lambda>e. e c) ex)))"
      by (rule replay [OF extended])
    with ops h show ?thesis
      by (simp add: log_ops_def log_Handle_def located_handle add.commute add.left_commute)
  qed
qed

lemma plain: "op_Handle (log_ops I) c r (derived (log_ops I) ds (NewHandler n [])) = op_Handle I c r (derived I ds n)"
  using derived_eager [of "NewHandler n []" ds] by (simp add: NewHandler_def log_ops_def log_Handle_def)

lemma enabled_derived:
  "op_Enabled (log_ops I) c l (derived (log_ops I) ds (NewHandler n ex)) = op_Enabled I c l n"
proof -
  have eager: "op_Enabled I c l (derived I ds m) = op_Enabled I c l m" for m
    unfolding derived_def
  proof (induction ds arbitrary: m)
    case (Cons d ds)
    then show ?case by (cases d) (simp_all add: enabled_attrs enabled_group)
  qed simp
  show ?thesis
    using derived_eager [of "NewHandler n ex" ds] derived_deferred [of "NewHandler n ex" ds] eager
    by (cases "ex = []") (simp_all add: NewHandler_def log_ops_def log_Enabled_def)
qed

end

section \<open>The JSON handler\<close>

text \<open>
  \<open>slog.JSONHandler\<close> with the options \<open>New\<close> passes on. A line is its level, its message and its
  attributes with their paths, in the order they are written; attributes preset by \<open>WithAttrs\<close> come
  first, and \<open>ReplaceAttr\<close> sees every one with its path.
\<close>

record 'v json_options =
  jo_Level :: int
  jo_AddSource :: bool
  jo_ReplaceAttr :: "(string list \<Rightarrow> 'v attr \<Rightarrow> 'v attr) option"

record 'v json_handler =
  jh_opts :: "'v json_options"
  jh_groups :: "string list"
  jh_preset :: "(string list \<times> 'v attr) list"

record 'v line =
  ln_level :: int
  ln_message :: string
  ln_source :: bool
  ln_attrs :: "(string list \<times> 'v attr) list"

definition NewJSONHandler :: "'v json_options \<Rightarrow> 'v json_handler" where
  "NewJSONHandler opts = \<lparr>jh_opts = opts, jh_groups = [], jh_preset = []\<rparr>"

definition json_located :: "'v json_handler \<Rightarrow> 'v attr list \<Rightarrow> (string list \<times> 'v attr) list" where
  "json_located h as =
     map (\<lambda>a. (jh_groups h, case jo_ReplaceAttr (jh_opts h) of None \<Rightarrow> a | Some f \<Rightarrow> f (jh_groups h) a)) as"

definition json_ops :: "('v json_handler, 'v, 'v line) slog_ops" where
  "json_ops =
     \<lparr>op_Enabled = (\<lambda>c l h. jo_Level (jh_opts h) \<le> l),
      op_WithAttrs = (\<lambda>as h. h\<lparr>jh_preset := jh_preset h @ json_located h as\<rparr>),
      op_WithGroup = (\<lambda>name h. h\<lparr>jh_groups := jh_groups h @ [name]\<rparr>),
      op_Handle = (\<lambda>c r h. \<lparr>ln_level = rec_level r, ln_message = rec_message r,
        ln_source = jo_AddSource (jh_opts h), ln_attrs = jh_preset h @ json_located h (rec_attrs r)\<rparr>)\<rparr>"

text \<open>\<open>slog.LevelInfo\<close> and \<open>slog.LevelDebug\<close>.\<close>

definition LevelInfo :: int where "LevelInfo = 0"
definition LevelDebug :: int where "LevelDebug = -4"

record 'v logging_options =
  lo_Level :: "int option"
  lo_AddSource :: bool
  lo_ReplaceAttr :: "(string list \<Rightarrow> 'v attr \<Rightarrow> 'v attr) option"

definition logging_New :: "'v logging_options \<Rightarrow> 'v extractor list \<Rightarrow> ('v json_handler, 'v) log_handler" where
  "logging_New opts ex =
     (let level = (case lo_Level opts of None \<Rightarrow> LevelInfo | Some l \<Rightarrow> l);
          base = NewJSONHandler \<lparr>jo_Level = level, jo_AddSource = lo_AddSource opts, jo_ReplaceAttr = lo_ReplaceAttr opts\<rparr>
      in NewHandler base ex)"

text \<open>The JSON handler keeps the contract; its scope is its options and the groups opened so far.\<close>

definition json_put :: "'v json_options \<times> string list \<Rightarrow> 'v attr \<Rightarrow> string list \<times> 'v attr" where
  "json_put sc a = (snd sc, case jo_ReplaceAttr (fst sc) of None \<Rightarrow> a | Some f \<Rightarrow> f (snd sc) a)"

interpretation json: slog_handler json_ops "\<lambda>h. (jh_opts h, jh_groups h)" json_put
    "\<lambda>h. mset (jh_preset h)" "\<lambda>l. mset (ln_attrs l)"
  by unfold_locales (simp_all add: json_ops_def json_located_def json_put_def [abs_def] cong: option.case_cong)

text \<open>C31: the logger \<open>New\<close> returns, derived by any sequence of \<open>With\<close> and \<open>WithGroup\<close>. A line it writes has the
  attributes the plain JSON handler would write after the same derivation, at the same places, and
  besides exactly what the extractors derive from the context of the call, outside every group,
  on the fast and on the slow path; it is enabled for the same levels; and with no extractor its
  output is that of the plain handler.\<close>

theorem correlation_is_top_level:
  "(let base = lh_next (logging_New opts ex); h = derived (log_ops json_ops) ds (logging_New opts ex) in
      mset (ln_attrs (op_Handle (log_ops json_ops) c r h))
        = mset (ln_attrs (op_Handle json_ops c r (derived json_ops ds base)))
          + image_mset (json_put (jh_opts base, [])) (mset (concat (map (\<lambda>e. e c) ex)))
    \<and> op_Enabled (log_ops json_ops) c l h = op_Enabled json_ops c l base)
   \<and> op_Handle (log_ops json_ops) c r (derived (log_ops json_ops) ds (logging_New opts []))
      = op_Handle json_ops c r (derived json_ops ds (lh_next (logging_New opts [])))"
proof -
  have new: "logging_New opts es = NewHandler (lh_next (logging_New opts es)) es"
    "jh_groups (lh_next (logging_New opts es)) = []" for es
    by (simp_all add: logging_New_def NewHandler_def NewJSONHandler_def Let_def)
  show ?thesis
    using json.enriched [of c r ds "lh_next (logging_New opts ex)" ex]
      json.enabled_derived [of c l ds "lh_next (logging_New opts ex)" ex]
      json.plain [of c r ds "lh_next (logging_New opts [])"]
    unfolding Let_def new(1) [symmetric] new(2) by blast
qed

end
