(* ===== verification/Kit_Logger.thy ===== *)
theory Kit_Logger
  imports Logging Telemetry_Server
begin

text \<open>
  Package \<open>kit\<close>, \<open>logger.go\<close>: the logger with the trace correlation of \<open>telemetry.LogExtractor\<close>.
\<close>

record logger_options =
  lg_Logging :: "string logging_options"
  lg_Baggage :: "string list"

definition NewLogger ::
  "(ctx \<Rightarrow> (string \<times> string) option) \<Rightarrow> (ctx \<Rightarrow> string \<Rightarrow> string) \<Rightarrow> logger_options
     \<Rightarrow> (string json_handler, string) log_handler"
where
  "NewLogger span_context member o' = logging_New (lg_Logging o') [LogExtractor span_context member (lg_Baggage o')]"

text \<open>The members of the baggage that were asked for and are there.\<close>

definition allowed :: "(string \<Rightarrow> string) \<Rightarrow> string list \<Rightarrow> (string \<times> string) list" where
  "allowed member keys = map (\<lambda>k. (k, member k)) (filter (\<lambda>k. member k \<noteq> []) keys)"

lemma LogExtractor_eq:
  "LogExtractor span_context member keys c =
     (case span_context c of None \<Rightarrow> [] | Some (t, i) \<Rightarrow> [(KeyTraceID, t), (KeySpanID, i)]) @ allowed (member c) keys"
proof -
  have "concat (map (\<lambda>k. if member c k \<noteq> [] then [(k, member c k)] else []) ks) = allowed (member c) ks" for ks
    by (induction ks) (simp_all add: allowed_def)
  then show ?thesis
    by (cases keys) (simp_all add: LogExtractor_def allowed_def)
qed

text \<open>A logger from \<open>NewLogger\<close>, however derived. Every line made inside a span carries the ids of that
  span outside every group; whatever the baggage of the request holds, only the members named in
  \<open>Baggage\<close> that are set are added, under their own names, and nothing else is; a line made outside a
  span carries no ids, not zero ones.\<close>

lemma kit_logger_correlates:
  assumes "lo_ReplaceAttr (lg_Logging o') = None"
    and "base = lh_next (NewLogger span_context member o')"
  shows "mset (ln_attrs (op_Handle (log_ops json_ops) c r (derived (log_ops json_ops) ds (NewLogger span_context member o'))))
    = mset (ln_attrs (op_Handle json_ops c r (derived json_ops ds base)))
      + image_mset (Pair []) (mset ((case span_context c of None \<Rightarrow> []
            | Some (t, i) \<Rightarrow> [(KeyTraceID, t), (KeySpanID, i)]) @ allowed (member c) (lg_Baggage o')))"
proof -
  have new: "NewLogger span_context member o' = NewHandler base [LogExtractor span_context member (lg_Baggage o')]"
    by (simp add: assms(2) NewLogger_def logging_New_def NewHandler_def Let_def)
  have "json_put (jh_opts base, jh_groups base) = Pair []"
    using assms(1) by (auto simp: assms(2) NewLogger_def logging_New_def NewHandler_def NewJSONHandler_def
        json_put_def fun_eq_iff Let_def)
  then show ?thesis
    using json.enriched [of c r ds base "[LogExtractor span_context member (lg_Baggage o')]"]
    by (simp add: new LogExtractor_eq)
qed

lemma kit_logger_correlates_witness:
  "mset (ln_attrs (op_Handle (log_ops json_ops) background \<lparr>rec_level = 0, rec_message = ''m'', rec_attrs = [(''k'', ''v'')]\<rparr>
      (derived (log_ops json_ops) [InGroup ''g'']
        (NewLogger (\<lambda>c. Some (''t1'', ''s1'')) (\<lambda>c k. if k = ''tenant'' then ''acme'' else [])
          \<lparr>lg_Logging = \<lparr>lo_Level = None, lo_AddSource = False, lo_ReplaceAttr = None\<rparr>, lg_Baggage = [''tenant'', ''user'']\<rparr>))))
   = mset [([''g''], ''k'', ''v''), ([], ''trace_id'', ''t1''), ([], ''span_id'', ''s1''), ([], ''tenant'', ''acme'')]"
proof -
  let ?opts = "\<lparr>lo_Level = None, lo_AddSource = False, lo_ReplaceAttr = None\<rparr>"
  let ?o = "\<lparr>lg_Logging = ?opts, lg_Baggage = [''tenant'', ''user'']\<rparr>"
  let ?base = "NewJSONHandler \<lparr>jo_Level = LevelInfo, jo_AddSource = False, jo_ReplaceAttr = None\<rparr>"
  have base: "?base = lh_next (NewLogger (\<lambda>c. Some (''t1'', ''s1'')) (\<lambda>c k. if k = ''tenant'' then ''acme'' else []) ?o)"
    by (simp add: NewLogger_def logging_New_def NewHandler_def Let_def)
  have plain: "ln_attrs (op_Handle json_ops background \<lparr>rec_level = 0, rec_message = ''m'', rec_attrs = [(''k'', ''v'')]\<rparr>
      (derived json_ops [InGroup ''g''] ?base)) = [([''g''], ''k'', ''v'')]"
    by (simp add: derived_def json_ops_def NewJSONHandler_def json_located_def)
  show ?thesis
    by (subst kit_logger_correlates [OF _ base]) (simp_all only: plain, simp_all add: allowed_def KeyTraceID_def KeySpanID_def)
qed

end
