(* ===== verification/Config_Secret.thy ===== *)
theory Config_Secret
  imports Go_Strings
begin

text \<open>
  Package \<open>config\<close>, \<open>secret.go\<close>: \<open>Secret\<close>, with the part of package \<open>fmt\<close> that decides which of its methods is
  called: \<open>GoString\<close> for \<open>%#v\<close>, \<open>String\<close> for the verbs that are valid for strings, for any other verb the
  error form, which prints the operand without its methods, and for \<open>%%\<close> the form for an extra operand.
\<close>

datatype secret = Secret (secret_string: string)

definition redacted :: string where
  "redacted = ''[REDACTED]''"

definition secret_String :: "secret \<Rightarrow> string" where "secret_String s = redacted"
definition secret_GoString :: "secret \<Rightarrow> string" where "secret_GoString s = redacted"
definition secret_LogValue :: "secret \<Rightarrow> string" where "secret_LogValue s = redacted"
definition secret_MarshalText :: "secret \<Rightarrow> string" where "secret_MarshalText s = redacted"

section \<open>Formatting\<close>

definition hex_string :: "(nat \<Rightarrow> char) \<Rightarrow> string \<Rightarrow> string" where
  "hex_string digit s = concat (map (\<lambda>c. [digit (of_char c div 16), digit (of_char c mod 16)]) s)"

definition upper_hex_digit :: "nat \<Rightarrow> char" where
  "upper_hex_digit d = char_of (if d < 10 then 48 + d else 55 + d)"

text \<open>\<open>fmt.Sprintf\<close> of the one verb, with or without \<open>#\<close>.\<close>

definition secret_Sprintf :: "bool \<Rightarrow> char \<Rightarrow> secret \<Rightarrow> string" where
  "secret_Sprintf sharp verb s =
     (if verb = CHR ''%'' then ''%%!(EXTRA config.Secret='' @ secret_String s @ '')''
      else if verb = CHR ''T'' then ''config.Secret''
      else if verb = CHR ''v'' \<and> sharp then secret_GoString s
      else if verb = CHR ''v'' \<or> verb = CHR ''s'' then secret_String s
      else if verb = CHR ''q'' \<and> sharp then [CHR 0x60] @ secret_String s @ [CHR 0x60]
      else if verb = CHR ''q'' then go_quote (secret_String s)
      else if verb = CHR ''x'' then (if sharp then ''0x'' else []) @ hex_string hex_digit (secret_String s)
      else if verb = CHR ''X'' then (if sharp then ''0X'' else []) @ hex_string upper_hex_digit (secret_String s)
      else ''%!'' @ [verb] @ ''(config.Secret='' @ secret_string s @ '')'')"

text \<open>What a \<open>Secret\<close> shows. Its text, JSON and log forms do not depend on its value, nor does any
  \<open>Sprintf\<close> with one of the verbs \<open>v\<close>, \<open>s\<close>, \<open>q\<close>, \<open>x\<close>, \<open>X\<close>, \<open>T\<close> and \<open>%\<close>, with or without \<open>#\<close>; with any other verb the
  whole value is in the output. The explicit conversion reads it back.\<close>

lemma secret_is_redacted_for_string_verbs:
  "secret_MarshalText (Secret a) = secret_MarshalText (Secret b)
    \<and> secret_LogValue (Secret a) = secret_LogValue (Secret b)
    \<and> (\<forall>verb. (verb \<in> set ''vsqxXT%'') = (\<forall>a b. secret_Sprintf sharp verb (Secret a) = secret_Sprintf sharp verb (Secret b)))
    \<and> (\<exists>pre post. secret_Sprintf sharp (CHR ''d'') (Secret a) = pre @ a @ post)
    \<and> secret_string (Secret a) = a"
proof (intro conjI allI)
  fix verb
  show "(verb \<in> set ''vsqxXT%'') = (\<forall>a b. secret_Sprintf sharp verb (Secret a) = secret_Sprintf sharp verb (Secret b))"
  proof
    assume "verb \<in> set ''vsqxXT%''"
    then show "\<forall>a b. secret_Sprintf sharp verb (Secret a) = secret_Sprintf sharp verb (Secret b)"
      by (auto simp: secret_Sprintf_def secret_String_def secret_GoString_def)
  next
    assume same: "\<forall>a b. secret_Sprintf sharp verb (Secret a) = secret_Sprintf sharp verb (Secret b)"
    show "verb \<in> set ''vsqxXT%''"
    proof (rule ccontr)
      assume "verb \<notin> set ''vsqxXT%''"
      then show False using same [rule_format, of "''a''" "''b''"] by (simp add: secret_Sprintf_def)
    qed
  qed
  show "\<exists>pre post. secret_Sprintf sharp (CHR ''d'') (Secret a) = pre @ a @ post"
    by (rule exI [of _ "''%!d(config.Secret=''"], rule exI [of _ "'')''"]) (simp add: secret_Sprintf_def)
qed (simp_all add: secret_MarshalText_def secret_LogValue_def)

end
