(* ===== verification/Served.thy ===== *)
theory Served
  imports Health Contract Telemetry_Server "HOL-Library.List_Lexorder" "HOL-Library.Char_ord"
begin

text \<open>
  What the two example services share at their HTTP end: the JSON their handlers write, and what the
  server middlewares make of a handler that answers once and returns.
\<close>

section \<open>JSON\<close>

text \<open>
  \<open>encoding/json\<close> on the values the examples encode: objects with their members in the order given
  (structs), maps with scalar values with their keys sorted; strings as in \<open>Health\<close>. \<open>Encoder.Encode\<close>
  writes the value and a newline in one call.
\<close>

definition json_object :: "(string \<times> string) list \<Rightarrow> string" where
  "json_object ms = CHR ''{'' # join_on (CHR '','') (map (\<lambda>(k, v). json_string k @ CHR '':'' # v) ms) @ ''}''"

fun json_param :: "param \<Rightarrow> string" where
  "json_param (PStr s) = json_string s"
| "json_param (PInt n) = itoa n"
| "json_param (PBool b) = (if b then ''true'' else ''false'')"

definition json_map :: "(string \<times> param) list \<Rightarrow> string" where
  "json_map ps = json_object (map (\<lambda>(k, v). (k, json_param v)) (sort_key fst ps))"

definition writeJSON :: "writer \<Rightarrow> int \<Rightarrow> string \<Rightarrow> hstate \<Rightarrow> hstate" where
  "writeJSON w status v s =
     write_body w (v @ [CHR 0x0A]) (write_header w status (set_header ''Content-Type'' ''application/json'' s))"

text \<open>A log call without a context: \<open>log.Info\<close>, \<open>log.Error\<close>.\<close>

definition log_plain :: "string \<Rightarrow> string \<Rightarrow> (string \<times> log_value) list \<Rightarrow> hstate \<Rightarrow> hstate" where
  "log_plain level msg attrs s =
     s\<lparr>hs_log := hs_log s @ [\<lparr>ll_level = level, ll_message = msg, ll_span = None, ll_attrs = attrs\<rparr>]\<rparr>"

section \<open>Handlers that answer once\<close>

text \<open>
  \<open>answers_once h r pat code body lines\<close>: whatever request object and context \<open>h\<close> sees the request \<open>r\<close>
  in, behind any writers on a connection that awaits the answer, it matches the route \<open>pat\<close>, sends the
  status \<open>code\<close> with the body (to a \<open>HEAD\<close> the status alone), logs these lines in that context, and
  returns.
\<close>

definition answers_once ::
  "handler \<Rightarrow> srequest \<Rightarrow> string \<Rightarrow> int \<Rightarrow> string \<Rightarrow> (ctx \<Rightarrow> log_line list) \<Rightarrow> bool"
where
  "answers_once h r pat code body lines \<longleftrightarrow>
     (\<forall>i c w s. awaits r s \<longrightarrow> in_step w s \<longrightarrow>
        (\<exists>t. h (r\<lparr>sq_id := i, sq_ctx := c\<rparr>) w s = (t, None) \<and> in_step w t \<and> hs_wire t = Some code
           \<and> hs_body t = hs_body s @ sent_body r body \<and> hs_log t = hs_log s @ lines c \<and> hs_now t = hs_now s
           \<and> hs_otel t = hs_otel s \<and> hs_pattern t = (hs_pattern s)(i := pat)))"

lemma answers_onceD:
  assumes "answers_once h r pat code body lines" "awaits r s" "in_step w s"
  obtains t where "h (r\<lparr>sq_id := i, sq_ctx := c\<rparr>) w s = (t, None)" "in_step w t" "hs_wire t = Some code"
    "hs_body t = hs_body s @ sent_body r body" "hs_log t = hs_log s @ lines c" "hs_now t = hs_now s"
    "hs_otel t = hs_otel s" "hs_pattern t = (hs_pattern s)(i := pat)"
  using assms unfolding answers_once_def by metis

lemma wrapped_writer:
  assumes "awaits r s" "in_step w s"
  shows "fst (wrap_writer w s) = hs_next s # w" "in_step (hs_next s # w) (snd (wrap_writer w s))"
    "awaits r (snd (wrap_writer w s))" "hs_body (snd (wrap_writer w s)) = hs_body s"
    "hs_log (snd (wrap_writer w s)) = hs_log s" "hs_now (snd (wrap_writer w s)) = hs_now s"
    "hs_otel (snd (wrap_writer w s)) = hs_otel s" "hs_pattern (snd (wrap_writer w s)) = hs_pattern s"
  using assms by (auto simp: wrap_writer_def in_step_def awaits_def)

lemma in_step_tail: "in_step (l # w) s \<Longrightarrow> in_step w s"
  by (simp add: in_step_def)

lemma elapsed_ms_same [simp]: "elapsed_ms t t = 0" "time_sub t t = 0"
  by (simp_all add: elapsed_ms_def time_sub_def max_int64_def min_int64_def)

lemma writeJSON_answer:
  assumes "awaits r s" "in_step w s" "\<not> informational code" "code \<noteq> 204" "code \<noteq> 304"
  shows "in_step w (writeJSON w code v s)" "hs_wire (writeJSON w code v s) = Some code"
    "hs_body (writeJSON w code v s) = hs_body s @ sent_body r (v @ [CHR 0x0A])" "hs_log (writeJSON w code v s) = hs_log s"
    "hs_now (writeJSON w code v s) = hs_now s" "hs_otel (writeJSON w code v s) = hs_otel s"
    "hs_pattern (writeJSON w code v s) = hs_pattern s"
proof -
  let ?s = "write_header w code (set_header ''Content-Type'' ''application/json'' s)"
  have "in_step w (set_header ''Content-Type'' ''application/json'' s)"
    using assms(2) by (simp add: in_step_def set_header_def)
  then have step: "in_step w ?s" using assms(3) by (intro in_step_write_header) simp_all
  have wire: "hs_wire ?s = Some code" using assms by (simp add: write_header_wire set_header_def awaits_def)
  show "in_step w (writeJSON w code v s)" using step by (simp add: writeJSON_def in_step_write_body)
  show "hs_wire (writeJSON w code v s) = Some code" using wire by (simp add: writeJSON_def write_body_wire)
  show "hs_body (writeJSON w code v s) = hs_body s @ sent_body r (v @ [CHR 0x0A])"
    using write_body_body [OF wire assms(4,5)] assms(1) by (simp add: writeJSON_def set_header_def sent_body_def awaits_def)
qed (simp_all add: writeJSON_def set_header_def)

text \<open>\<open>http.Error\<close>, and with it \<open>http.NotFound\<close>.\<close>

lemma http_error_answer:
  assumes "awaits r s" "in_step w s" "\<not> informational code" "code \<noteq> 204" "code \<noteq> 304"
  shows "in_step w (http_error w msg code s)" "hs_wire (http_error w msg code s) = Some code"
    "hs_body (http_error w msg code s) = hs_body s @ sent_body r (msg @ [CHR 0x0A])" "hs_log (http_error w msg code s) = hs_log s"
    "hs_now (http_error w msg code s) = hs_now s" "hs_otel (http_error w msg code s) = hs_otel s"
    "hs_pattern (http_error w msg code s) = hs_pattern s"
proof -
  let ?h = "set_header ''X-Content-Type-Options'' ''nosniff''
           (set_header ''Content-Type'' ''text/plain; charset=utf-8'' s)"
  have "in_step w ?h" using assms(2) by (simp add: in_step_def set_header_def)
  then have step: "in_step w (write_header w code ?h)" using assms(3) by (intro in_step_write_header) simp_all
  have wire: "hs_wire (write_header w code ?h) = Some code" using assms by (simp add: write_header_wire set_header_def awaits_def)
  show "in_step w (http_error w msg code s)" using step by (simp add: http_error_def in_step_write_body)
  show "hs_wire (http_error w msg code s) = Some code" using wire by (simp add: http_error_def write_body_wire)
  show "hs_body (http_error w msg code s) = hs_body s @ sent_body r (msg @ [CHR 0x0A])"
    using write_body_body [OF wire assms(4,5)] assms(1) by (simp add: http_error_def set_header_def sent_body_def awaits_def)
qed (simp_all add: http_error_def set_header_def)

text \<open>\<open>ServeMux\<close>: the pattern is recorded in the request the handler sees.\<close>

lemma answers_once_mux:
  assumes "\<And>i c w s. awaits r s \<Longrightarrow> in_step w s \<Longrightarrow>
      \<exists>t. h (r\<lparr>sq_id := i, sq_ctx := c\<rparr>) w s = (t, None) \<and> in_step w t \<and> hs_wire t = Some code
        \<and> hs_body t = hs_body s @ sent_body r body \<and> hs_log t = hs_log s @ lines c \<and> hs_now t = hs_now s
        \<and> hs_otel t = hs_otel s \<and> hs_pattern t = hs_pattern s"
  shows "answers_once (mux pat h) r pat code body lines"
  unfolding answers_once_def
proof (intro allI impI)
  fix i c w s
  assume "awaits r s" "in_step w s"
  with assms [where s = "s\<lparr>hs_pattern := (hs_pattern s)(i := pat)\<rparr>" and w = w and i = i and c = c]
  show "\<exists>t. mux pat h (r\<lparr>sq_id := i, sq_ctx := c\<rparr>) w s = (t, None) \<and> in_step w t \<and> hs_wire t = Some code
      \<and> hs_body t = hs_body s @ sent_body r body \<and> hs_log t = hs_log s @ lines c \<and> hs_now t = hs_now s
      \<and> hs_otel t = hs_otel s \<and> hs_pattern t = (hs_pattern s)(i := pat)"
    by (simp add: mux_def in_step_def awaits_def)
qed

text \<open>The answers of \<open>ServeMux\<close> itself.\<close>

lemma error_answers_once:
  assumes "\<And>r w s. h r w s = (http_error w msg code (pre s), None)" and "pre = id \<or> pre = set_header k v"
    and "\<not> informational code" "code \<noteq> 204" "code \<noteq> 304"
  shows "answers_once (mux [] h) r [] code (msg @ [CHR 0x0A]) (\<lambda>c. [])"
proof (rule answers_once_mux)
  fix i c w s
  assume fresh: "awaits r s" "in_step w s"
  then have "awaits r (pre s)" "in_step w (pre s)"
    using assms(2) by (auto simp: set_header_def awaits_def in_step_def)
  from http_error_answer [OF this assms(3-5), of msg] assms(2)
  show "\<exists>t. h (r\<lparr>sq_id := i, sq_ctx := c\<rparr>) w s = (t, None) \<and> in_step w t \<and> hs_wire t = Some code
      \<and> hs_body t = hs_body s @ sent_body r (msg @ [CHR 0x0A]) \<and> hs_log t = hs_log s @ [] \<and> hs_now t = hs_now s
      \<and> hs_otel t = hs_otel s \<and> hs_pattern t = hs_pattern s"
    unfolding assms(1) by (auto simp: set_header_def)
qed

lemma not_found_answers_once:
  "answers_once (mux [] not_found) r [] 404 (''404 page not found'' @ [CHR 0x0A]) (\<lambda>c. [])"
  by (rule error_answers_once [where pre = id]) (simp_all add: not_found_def informational_def)

lemma method_not_allowed_answers_once:
  "answers_once (mux [] (method_not_allowed methods)) r [] 405 (''Method Not Allowed'' @ [CHR 0x0A]) (\<lambda>c. [])"
  by (rule error_answers_once [where pre = "set_header ''Allow'' methods" and k = "''Allow''" and v = methods])
     (simp_all add: method_not_allowed_def informational_def)

lemma allowing_answers_once:
  assumes "\<And>i c. ok (r\<lparr>sq_id := i, sq_ctx := c\<rparr>) = ok r"
    and "answers_once (if ok r then h else mux [] (method_not_allowed methods)) r pat code body lines"
  shows "answers_once (allowing ok methods h) r pat code body lines"
  using assms by (simp add: answers_once_def allowing_def split: if_splits)

text \<open>The middlewares on such a handler.\<close>

lemma answers_once_Recover:
  assumes "answers_once h r pat code body lines"
  shows "answers_once (Recover h) r pat code body lines"
  unfolding answers_once_def
proof (intro allI impI)
  fix i c w s
  assume fresh: "awaits r s" "in_step w s"
  note wrap = wrapped_writer [OF this]
  from answers_onceD [OF assms wrap(3,2), where i = i and c = c]
  obtain t where "h (r\<lparr>sq_id := i, sq_ctx := c\<rparr>) (hs_next s # w) (snd (wrap_writer w s)) = (t, None)"
    "in_step (hs_next s # w) t" "hs_wire t = Some code" "hs_body t = hs_body s @ sent_body r body"
    "hs_log t = hs_log s @ lines c" "hs_now t = hs_now s" "hs_otel t = hs_otel s"
    "hs_pattern t = (hs_pattern s)(i := pat)"
    unfolding wrap by metis
  with wrap(1) show "\<exists>t. Recover h (r\<lparr>sq_id := i, sq_ctx := c\<rparr>) w s = (t, None) \<and> in_step w t
      \<and> hs_wire t = Some code \<and> hs_body t = hs_body s @ sent_body r body \<and> hs_log t = hs_log s @ lines c
      \<and> hs_now t = hs_now s \<and> hs_otel t = hs_otel s \<and> hs_pattern t = (hs_pattern s)(i := pat)"
    by (cases "wrap_writer w s") (auto simp: Recover_def intro: in_step_tail)
qed

text \<open>A handler that panics before it has answered, and what \<open>Recover\<close> makes of it.\<close>

definition panics_silently :: "handler \<Rightarrow> srequest \<Rightarrow> string \<Rightarrow> panic_value \<Rightarrow> bool" where
  "panics_silently h r pat v \<longleftrightarrow>
     (\<forall>i c w s. awaits r s \<longrightarrow> in_step w s \<longrightarrow>
        h (r\<lparr>sq_id := i, sq_ctx := c\<rparr>) w s = (s\<lparr>hs_pattern := (hs_pattern s)(i := pat)\<rparr>, Some v))"

lemma answers_once_Recover_panic:
  assumes "panics_silently h r pat v" "\<not> is_abort v"
  shows "answers_once (Recover h) r pat 500 [] (\<lambda>c. panic_lines c (Some v))"
  unfolding answers_once_def
proof (intro allI impI)
  fix i c w s
  let ?r = "r\<lparr>sq_id := i, sq_ctx := c\<rparr>"
  assume fresh: "awaits r s" "in_step w s"
  note wrap = wrapped_writer [OF this]
  let ?t = "(snd (wrap_writer w s))\<lparr>hs_pattern := (hs_pattern s)(i := pat)\<rparr>"
  let ?u = "log_attrs ?r ''ERROR'' ''panic serving request'' [(''panic'', LPanic v), (''stack'', LStr [])] ?t"
  have h: "h ?r (hs_next s # w) (snd (wrap_writer w s)) = (?t, Some v)"
    using assms(1) wrap by (simp add: panics_silently_def)
  have u: "hs_wire ?u = None" "in_step (hs_next s # w) ?u"
    using wrap(2,3) by (simp_all add: in_step_def awaits_def)
  have "\<not> sw_written (hs_writers ?u (hs_next s))"
    using in_step_status [OF u(2), of "hs_next s"] u(1) by simp
  then have "Recover h ?r w s = (write_header (hs_next s # w) 500 ?u, None)"
    using h assms(2) wrap(1) by (cases "wrap_writer w s") (simp add: Recover_def Let_def)
  moreover have "in_step w (write_header (hs_next s # w) 500 ?u)"
    by (rule in_step_tail, rule in_step_write_header [OF u(2)]) (simp_all add: informational_def)
  moreover have "hs_wire (write_header (hs_next s # w) 500 ?u) = Some 500"
    using u(1) by (simp add: write_header_wire informational_def del: log_attrs_frame)
  ultimately show "\<exists>t. Recover h ?r w s = (t, None) \<and> in_step w t \<and> hs_wire t = Some 500
      \<and> hs_body t = hs_body s @ sent_body r [] \<and> hs_log t = hs_log s @ panic_lines c (Some v)
      \<and> hs_now t = hs_now s \<and> hs_otel t = hs_otel s \<and> hs_pattern t = (hs_pattern s)(i := pat)"
    using wrap(4-7) assms(2) by (auto simp: panic_lines_def log_attrs_def sent_body_def simp del: write_header.simps)
qed

lemma answers_once_AccessLog:
  assumes "answers_once h r pat code body lines"
  shows "answers_once (AccessLog h) r pat code body (\<lambda>c. lines c @ [access_line c (sq_method r) pat (Some code) 0])"
  unfolding answers_once_def
proof (intro allI impI)
  fix i c w s
  let ?r = "r\<lparr>sq_id := i, sq_ctx := c\<rparr>"
  assume fresh: "awaits r s" "in_step w s"
  note wrap = wrapped_writer [OF this]
  from answers_onceD [OF assms wrap(3,2), where i = i and c = c]
  obtain t where t: "h ?r (hs_next s # w) (snd (wrap_writer w s)) = (t, None)"
    "in_step (hs_next s # w) t" "hs_wire t = Some code" "hs_body t = hs_body s @ sent_body r body"
    "hs_log t = hs_log s @ lines c" "hs_now t = hs_now s" "hs_otel t = hs_otel s"
    "hs_pattern t = (hs_pattern s)(i := pat)"
    unfolding wrap by metis
  obtain u res where run: "AccessLog h ?r w s = (u, res)" by fastforce
  from AccessLog_line [OF t(1,2) run] t
  show "\<exists>t. AccessLog h ?r w s = (t, None) \<and> in_step w t \<and> hs_wire t = Some code
      \<and> hs_body t = hs_body s @ sent_body r body \<and> hs_log t = hs_log s @ (lines c @ [access_line c (sq_method r) pat (Some code) 0])
      \<and> hs_now t = hs_now s \<and> hs_otel t = hs_otel s \<and> hs_pattern t = (hs_pattern s)(i := pat)"
    unfolding run by (simp add: in_step_def)
qed

text \<open>\<open>telemetry.Server\<close> around it: the whole exchange.\<close>

lemma served:
  assumes once: "answers_once h r pat code body lines" and fresh: "awaits r s"
    and hist: "durationHistogram (meter_of g o') server_histogram = Some hg"
    and ctx: "c = tracer_of g o' (length (hs_otel s)) (prop_extract (propagator_of g o') (sq_ctx r) (sq_header r))"
    and run: "Server st g o' h r [] s = (t, out)"
  shows "out = None \<and> hs_wire t = Some code \<and> hs_body t = hs_body s @ sent_body r body \<and> hs_log t = hs_log s @ lines c
    \<and> hs_otel t = hs_otel s @ server_span st hg (sq_method r) pat (Some code) 0"
proof -
  define n where "n = hs_next s"
  define s3 where "s3 = snd (WithContext c r
    (snd (wrap_writer [] (emits [SpanStart (sq_method r) False [method_attr (sq_method r)]] s))))"
  have s3: "awaits r s3" "in_step [n] s3" "hs_now s3 = hs_now s" "hs_log s3 = hs_log s" "hs_body s3 = hs_body s"
    "hs_otel s3 = hs_otel s @ [SpanStart (sq_method r) False [method_attr (sq_method r)]]"
    using fresh by (simp_all add: s3_def n_def WithContext_def wrap_writer_def in_step_def emits_def awaits_def)
  obtain u where u: "h (r\<lparr>sq_id := Suc n, sq_ctx := c\<rparr>) [n] s3 = (u, None)" "in_step [n] u" "hs_wire u = Some code"
    "hs_body u = hs_body s3 @ sent_body r body" "hs_log u = hs_log s3 @ lines c" "hs_now u = hs_now s3"
    "hs_otel u = hs_otel s3" "hs_pattern u = (hs_pattern s3)(Suc n := pat)"
    by (rule answers_onceD [OF once s3(1,2)])
  have "Server st g o' h r [] s
      = (u\<lparr>hs_otel := hs_otel s @ server_span st hg (sq_method r) (hs_pattern u (Suc (hs_next s))) (hs_wire u)
          (time_sub (hs_now u) (hs_now s))\<rparr>, None)"
  proof (rule Server_report [where w = "[]"])
    show "h (r\<lparr>sq_id := Suc (hs_next s), sq_ctx := tracer_of g o' (length (hs_otel s))
          (prop_extract (propagator_of g o') (sq_ctx r) (sq_header r))\<rparr>) [hs_next s]
        (snd (WithContext (tracer_of g o' (length (hs_otel s))
            (prop_extract (propagator_of g o') (sq_ctx r) (sq_header r))) r
          (snd (wrap_writer [] (emits [SpanStart (sq_method r) False [method_attr (sq_method r)]] s))))) = (u, None)"
      using u(1) by (simp only: s3_def ctx n_def)
  qed (use u(2,7) s3(6) hist in \<open>simp_all add: n_def\<close>)
  with run have "t = u\<lparr>hs_otel := hs_otel s @ server_span st hg (sq_method r) (hs_pattern u (Suc (hs_next s)))
      (hs_wire u) (time_sub (hs_now u) (hs_now s))\<rparr>" "out = None"
    by simp_all
  with u s3 show ?thesis by (simp add: n_def)
qed

end
