(* ===== verification/Orders.thy ===== *)
theory Orders
  imports Served
begin

text \<open>
  \<open>examples/orders\<close>: the store, the service with its error types, the typed middleware, and the HTTP
  handler (\<open>orders.go\<close>, \<open>store.go\<close>, \<open>middleware.go\<close>, \<open>server.go\<close>). An order is held by pointer, so the
  map may hold nil. The map is never written after \<open>NewStore\<close>, and a request reads the \<open>open\<close> flag once:
  the store of a request is the store at that moment. The wildcard's value is an argument, \<open>None\<close> for a
  path that does not match, which \<open>ServeMux\<close> answers itself (\<open>miss\<close>: a 404, or the redirection of a path
  that is not clean); a path that matches is refused when the method does not.
\<close>

section \<open>Domain\<close>

record order =
  order_ID :: string
  order_Qty :: int

record get_order_request =
  req_ID :: string

definition notFoundError :: "string \<Rightarrow> goerr" where
  "notFoundError i = ContractErr (''order '' @ i @ '' not found'') ''order_not_found'' None"

definition idTooLongError :: "int \<Rightarrow> int \<Rightarrow> goerr" where
  "idTooLongError mx got =
     ContractErr (''id length '' @ itoa got @ '' exceeds max '' @ itoa mx) ''id_too_long''
       (Some [(''max'', PInt mx), (''got'', PInt got)])"

section \<open>Store\<close>

record store =
  store_orders :: "string \<Rightarrow> order option option"
  store_open :: bool

definition NewStore :: "(string \<Rightarrow> order option option) option \<Rightarrow> store" where
  "NewStore orders = \<lparr>store_orders = (case orders of None \<Rightarrow> Map.empty | Some m \<Rightarrow> m), store_open = False\<rparr>"

definition store_Open :: "store \<Rightarrow> store \<times> goerr option" where
  "store_Open st = (st\<lparr>store_open := True\<rparr>, None)"

definition store_Close :: "store \<Rightarrow> store \<times> goerr option" where
  "store_Close st = (st\<lparr>store_open := False\<rparr>, None)"

definition store_Get :: "store \<Rightarrow> string \<Rightarrow> order option \<times> bool" where
  "store_Get st i =
     (if \<not> store_open st then (None, False)
      else case store_orders st i of None \<Rightarrow> (None, False) | Some o' \<Rightarrow> (o', True))"

section \<open>Service and typed middleware\<close>

type_synonym order_call = "(ctx, get_order_request, order option) call_handler"

definition GetOrder :: "store \<Rightarrow> order_call" where
  "GetOrder st c req =
     (case store_Get st (req_ID req) of (o', ok) \<Rightarrow>
        if \<not> ok then Ret (None, Some (notFoundError (req_ID req))) else Ret (o', None))"

definition RejectEmptyID :: "order_call \<Rightarrow> order_call" where
  "RejectEmptyID nxt c req = (if req_ID req = [] then Ret (None, Some (notFoundError [])) else nxt c req)"

definition RejectLongID :: "int \<Rightarrow> order_call \<Rightarrow> order_call" where
  "RejectLongID mx nxt c req =
     (if mx < int (length (req_ID req)) then Ret (None, Some (idTooLongError mx (int (length (req_ID req)))))
      else nxt c req)"

text \<open>\<open>CountCalls\<close>, with the counter it increments passed through.\<close>

definition CountCalls :: "order_call \<Rightarrow> 64 word \<Rightarrow> ctx \<Rightarrow> get_order_request \<Rightarrow> 64 word \<times> (order option \<times> goerr option) outcome" where
  "CountCalls nxt n c req = (n + 1, nxt c req)"

section \<open>Errors on the wire\<close>

definition statusFor :: "string \<Rightarrow> int" where
  "statusFor code =
     (if code = ''order_not_found'' then 404 else if code = ''id_too_long'' then 400 else 500)"

text \<open>\<open>envelopeFor\<close> and its encoding; \<open>omitempty\<close> leaves out a map without entries.\<close>

definition envelopeFor :: "string \<Rightarrow> (string \<times> param) list \<Rightarrow> string" where
  "envelopeFor code params =
     json_object [(''error'', json_object ([(''code'', json_string code)]
       @ (if params \<noteq> [] then [(''params'', json_map params)] else [])))]"

definition orders_writeError :: "writer \<Rightarrow> goerr \<Rightarrow> hstate \<Rightarrow> hstate" where
  "orders_writeError w err s =
     (case err_as Coded err of
        None \<Rightarrow> writeJSON w 500 (envelopeFor ''internal'' [])
          (log_plain ''ERROR'' ''unhandled error'' [(KeyCode, LStr ''internal''), (''err'', LStr (err_text err))] s)
      | Some code \<Rightarrow>
          let params = (case err_as Detailed err of None \<Rightarrow> [] | Some ps \<Rightarrow> ps)
          in writeJSON w (statusFor code) (envelopeFor code params)
               (log_plain ''INFO'' ''request failed'' [(KeyCode, LStr code)] s))"

section \<open>The handler\<close>

definition order_json :: "order option \<Rightarrow> string" where
  "order_json o' =
     (case o' of None \<Rightarrow> ''null''
      | Some x \<Rightarrow> json_object [(''id'', json_string (order_ID x)), (''qty'', itoa (order_Qty x))])"

definition orders_handler :: "store \<Rightarrow> string \<Rightarrow> handler" where
  "orders_handler st i r w s =
     (case contract_Chain [RejectEmptyID, RejectLongID 8] (GetOrder st) (sq_ctx r) \<lparr>req_ID = i\<rparr> of
        Panic v \<Rightarrow> (s, Some (PanicOther v))
      | Ret (o', Some err) \<Rightarrow> (orders_writeError w err s, None)
      | Ret (o', None) \<Rightarrow> (writeJSON w 200 (order_json o') s, None))"

definition orders_newServer ::
  "(int \<Rightarrow> string) \<Rightarrow> otel_globals \<Rightarrow> handler \<Rightarrow> store \<Rightarrow> string option \<Rightarrow> handler"
where
  "orders_newServer status_text g miss st wildcard =
     httpserver_Chain [Server status_text g zero_otel, AccessLog]
       (case wildcard of None \<Rightarrow> mux [] miss
        | Some i \<Rightarrow> allowing get_or_head ''GET, HEAD'' (mux ''GET /orders/{id}'' (orders_handler st i)))"

section \<open>What a request gets\<close>

lemma statusFor_final [simp]:
  "\<not> informational (statusFor code)" "statusFor code \<noteq> 204" "statusFor code \<noteq> 304"
  by (simp_all add: statusFor_def informational_def)

lemma log_plain_frame [simp]:
  "hs_wire (log_plain lv m as s) = hs_wire s" "hs_body (log_plain lv m as s) = hs_body s"
  "hs_now (log_plain lv m as s) = hs_now s" "hs_otel (log_plain lv m as s) = hs_otel s"
  "hs_pattern (log_plain lv m as s) = hs_pattern s" "in_step w (log_plain lv m as s) = in_step w s"
  "awaits r (log_plain lv m as s) = awaits r s"
  "hs_log (log_plain lv m as s) = hs_log s
     @ [\<lparr>ll_level = lv, ll_message = m, ll_span = None, ll_attrs = as\<rparr>]"
  by (simp_all add: log_plain_def in_step_def awaits_def)

text \<open>The code an error has for the client, the parameters beside it, and the line that names it.\<close>

definition public_code :: "goerr \<Rightarrow> string" where
  "public_code err = (case err_as Coded err of None \<Rightarrow> ''internal'' | Some code \<Rightarrow> code)"

definition public_params :: "goerr \<Rightarrow> (string \<times> param) list" where
  "public_params err =
     (if err_as Coded err = None then [] else case err_as Detailed err of None \<Rightarrow> [] | Some ps \<Rightarrow> ps)"

definition error_line :: "goerr \<Rightarrow> log_line" where
  "error_line err =
     (if err_as Coded err = None
      then \<lparr>ll_level = ''ERROR'', ll_message = ''unhandled error'', ll_span = None,
         ll_attrs = [(KeyCode, LStr ''internal''), (''err'', LStr (err_text err))]\<rparr>
      else \<lparr>ll_level = ''INFO'', ll_message = ''request failed'', ll_span = None,
         ll_attrs = [(KeyCode, LStr (public_code err))]\<rparr>)"

lemma statusFor_internal [simp]: "statusFor ''internal'' = 500"
  by (simp add: statusFor_def)

lemma orders_writeError_eq:
  "orders_writeError w err s =
     writeJSON w (statusFor (public_code err)) (envelopeFor (public_code err) (public_params err))
       (s\<lparr>hs_log := hs_log s @ [error_line err]\<rparr>)"
  by (cases "err_as Coded err")
     (simp_all add: orders_writeError_def public_code_def public_params_def error_line_def log_plain_def Let_def)

text \<open>What the service decides, and the reply to it.\<close>

definition order_outcome :: "store \<Rightarrow> string \<Rightarrow> goerr + order option" where
  "order_outcome st i =
     (if 8 < length i then Inl (idTooLongError 8 (int (length i)))
      else if i \<noteq> [] \<and> store_open st \<and> store_orders st i \<noteq> None then Inr (the (store_orders st i))
      else Inl (notFoundError i))"

definition reply_code :: "goerr + order option \<Rightarrow> int" where
  "reply_code x = (case x of Inl err \<Rightarrow> statusFor (public_code err) | Inr o' \<Rightarrow> 200)"

definition reply_body :: "goerr + order option \<Rightarrow> string" where
  "reply_body x = (case x of Inl err \<Rightarrow> envelopeFor (public_code err) (public_params err) | Inr o' \<Rightarrow> order_json o')
     @ [CHR 0x0A]"

definition reply_lines :: "goerr + order option \<Rightarrow> log_line list" where
  "reply_lines x = (case x of Inl err \<Rightarrow> [error_line err] | Inr o' \<Rightarrow> [])"

lemma chain_outcome:
  "contract_Chain [RejectEmptyID, RejectLongID 8] (GetOrder st) c \<lparr>req_ID = i\<rparr>
     = Ret (case order_outcome st i of Inl err \<Rightarrow> (None, Some err) | Inr o' \<Rightarrow> (o', None))"
  by (auto simp: calls.chain_Cons calls.chain_Nil RejectEmptyID_def RejectLongID_def GetOrder_def store_Get_def
      order_outcome_def split: option.splits)

lemma orders_handler_eq:
  "orders_handler st i r w s =
     (writeJSON w (reply_code (order_outcome st i))
        (butlast (reply_body (order_outcome st i)))
        (s\<lparr>hs_log := hs_log s @ reply_lines (order_outcome st i)\<rparr>), None)"
  by (auto simp: orders_handler_def chain_outcome orders_writeError_eq reply_code_def reply_body_def reply_lines_def
      butlast_append split: sum.split)

lemma reply_body_snoc: "reply_body x = butlast (reply_body x) @ [CHR 0x0A]"
  by (simp add: reply_body_def butlast_append)

lemma orders_answers_once:
  "answers_once (mux ''GET /orders/{id}'' (orders_handler st i)) r ''GET /orders/{id}''
     (reply_code (order_outcome st i)) (reply_body (order_outcome st i)) (\<lambda>c. reply_lines (order_outcome st i))"
proof (rule answers_once_mux)
  fix j c w s
  assume fresh: "awaits r s" "in_step w s"
  let ?x = "order_outcome st i"
  let ?s = "s\<lparr>hs_log := hs_log s @ reply_lines ?x\<rparr>"
  have "\<not> informational (reply_code ?x)" "reply_code ?x \<noteq> 204" "reply_code ?x \<noteq> 304"
    by (auto simp: reply_code_def split: sum.split) (simp add: informational_def)
  note once = writeJSON_answer [of r ?s w "reply_code ?x" "butlast (reply_body ?x)", OF _ _ this]
  have "awaits r ?s" "in_step w ?s" using fresh by (simp_all add: in_step_def awaits_def)
  note once [OF this]
  then show "\<exists>t. orders_handler st i (r\<lparr>sq_id := j, sq_ctx := c\<rparr>) w s = (t, None) \<and> in_step w t
      \<and> hs_wire t = Some (reply_code ?x) \<and> hs_body t = hs_body s @ sent_body r (reply_body ?x)
      \<and> hs_log t = hs_log s @ reply_lines ?x \<and> hs_now t = hs_now s \<and> hs_otel t = hs_otel s
      \<and> hs_pattern t = hs_pattern s"
    unfolding orders_handler_eq by (simp add: reply_body_snoc [symmetric])
qed

text \<open>C14: a request to the orders service, over any state of the store and with any method. On the route,
  for \<open>GET\<close> and \<open>HEAD\<close>: an id of more than eight bytes is a 400 with the limit and the length it had,
  sorted by name; an id that is empty or unknown, and every id once the store is closed, is a 404 with
  no parameters; anything else is a 200 with the order. Another method on the route is the 405 of
  \<open>ServeMux\<close>, another path its 404. A \<open>HEAD\<close> gets the status without the body. Every error reply of the
  service has exactly one log line with the same code (without a span: it is logged without the
  request's context), and then every request has the access-log line, which has the route, the status
  the client got, and the span the request was served in; the span and the metric carry that status
  and route too.\<close>

theorem order_requests_are_answered:
  assumes fresh: "awaits r s"
    and hist: "durationHistogram (meter_of g zero_otel) server_histogram = Some hg"
    and ctx: "c = tracer_of g zero_otel (length (hs_otel s)) (prop_extract (propagator_of g zero_otel) (sq_ctx r) (sq_header r))"
    and miss: "wildcard = None \<longrightarrow> miss = not_found"
    and run: "orders_newServer status_text g miss st wildcard r [] s = (t, out)"
  shows "\<exists>code route body lines.
      (case wildcard of
         None \<Rightarrow> code = 404 \<and> route = [] \<and> body = ''404 page not found'' \<and> lines = []
       | Some i \<Rightarrow>
           if \<not> get_or_head r then code = 405 \<and> route = [] \<and> body = ''Method Not Allowed'' \<and> lines = []
           else route = ''GET /orders/{id}'' \<and>
             (if 8 < length i
              then code = 400 \<and> body = envelopeFor ''id_too_long'' [(''max'', PInt 8), (''got'', PInt (int (length i)))]
                \<and> lines = [error_line (idTooLongError 8 (int (length i)))]
              else if i = [] \<or> \<not> store_open st \<or> store_orders st i = None
              then code = 404 \<and> body = envelopeFor ''order_not_found'' [] \<and> lines = [error_line (notFoundError i)]
              else code = 200 \<and> body = order_json (the (store_orders st i)) \<and> lines = []))
    \<and> out = None \<and> hs_wire t = Some code \<and> hs_body t = hs_body s @ sent_body r (body @ [CHR 0x0A])
    \<and> hs_log t = hs_log s @ lines @ [access_line c (sq_method r) route (Some code) 0]
    \<and> hs_otel t = hs_otel s @ server_span status_text hg (sq_method r) route (Some code) 0"
proof -
  define h where "h = (case wildcard of None \<Rightarrow> mux [] miss
     | Some i \<Rightarrow> allowing get_or_head ''GET, HEAD'' (mux ''GET /orders/{id}'' (orders_handler st i)))"
  from run have run': "Server status_text g zero_otel (AccessLog h) r [] s = (t, out)"
    by (simp add: orders_newServer_def h_def handlers.chain_Cons handlers.chain_Nil)
  note whole = served [OF answers_once_AccessLog fresh hist ctx run']
  consider (path) "wildcard = None" | (refused) i where "wildcard = Some i" "\<not> get_or_head r"
    | (order) i where "wildcard = Some i" "get_or_head r"
    by (cases wildcard) auto
  then show ?thesis
  proof cases
    case path
    with miss have "h = mux [] not_found" by (simp add: h_def)
    with whole not_found_answers_once [of r] path show ?thesis by fastforce
  next
    case refused
    have "answers_once h r [] 405 (''Method Not Allowed'' @ [CHR 0x0A]) (\<lambda>c. [])"
      using refused unfolding h_def refused(1) option.simps
      by (intro allowing_answers_once) (simp_all add: get_or_head_def method_not_allowed_answers_once [simplified])
    from whole [OF this] refused show ?thesis by auto
  next
    case order
    let ?x = "order_outcome st i"
    have "answers_once h r ''GET /orders/{id}'' (reply_code ?x) (reply_body ?x) (\<lambda>c. reply_lines ?x)"
      using order by (simp add: h_def, intro allowing_answers_once) (simp_all add: get_or_head_def orders_answers_once)
    from whole [OF this] order show ?thesis
      by (auto simp: order_outcome_def reply_code_def reply_body_def reply_lines_def public_code_def public_params_def
          idTooLongError_def notFoundError_def statusFor_def)
  qed
qed

definition demo_store :: store where
  "demo_store = \<lparr>store_orders = [''1'' \<mapsto> Some \<lparr>order_ID = ''1'', order_Qty = 3\<rparr>], store_open = True\<rparr>"

lemma awaits_idle [simp]: "awaits get_orders idle_server"
  by (simp add: awaits_def idle_server_def get_orders_def MethodHead_def)

theorem order_requests_are_answered_witness:
  "hs_body (fst (orders_newServer no_text demo_globals not_found demo_store (Some ''123456789'')
       get_orders [] idle_server))
     = envelopeFor ''id_too_long'' [(''max'', PInt 8), (''got'', PInt 9)] @ [CHR 0x0A]
   \<and> hs_wire (fst (orders_newServer no_text demo_globals not_found demo_store (Some ''123456789'')
       get_orders [] idle_server)) = Some 400"
proof -
  let ?run = "orders_newServer no_text demo_globals not_found demo_store (Some ''123456789'')
       get_orders [] idle_server"
  obtain t out where run: "?run = (t, out)" by fastforce
  have "durationHistogram (meter_of demo_globals zero_otel) server_histogram = Some (Histogram server_histogram)"
    by (simp add: durationHistogram_def meter_of_def zero_otel_def demo_globals_def)
  from order_requests_are_answered [OF awaits_idle this refl _ run]
  show ?thesis
    unfolding run by (simp add: idle_server_def get_or_head_def get_orders_def MethodGet_def MethodHead_def sent_body_def)
qed

text \<open>The two bodies as bytes.\<close>

lemma envelope_bytes:
  "envelopeFor ''order_not_found'' [] = ''{'' @ json_string ''error'' @ '':{'' @ json_string ''code'' @ '':''
     @ json_string ''order_not_found'' @ ''}}''"
  by (simp add: envelopeFor_def json_object_def)

text \<open>What a client learns of an error. Wrapping with context changes nothing of the reply: the status and
  the envelope are those of the code and the parameters of the vocabulary error inside, and exactly
  one line, with that code, is logged; an error without one is a 500 whose body is the same whatever
  the error says, and its text goes to the log alone.\<close>

lemma error_replies_carry_code_and_params_only:
  assumes "awaits r s" and "in_step w s"
  shows "(let t = orders_writeError w (wrap ms (ContractErr m code ps)) s in
      hs_wire t = Some (statusFor code)
      \<and> hs_body t = hs_body s @ sent_body r (envelopeFor code (case ps of None \<Rightarrow> [] | Some qs \<Rightarrow> qs) @ [CHR 0x0A])
      \<and> hs_log t = hs_log s @ [\<lparr>ll_level = ''INFO'', ll_message = ''request failed'', ll_span = None,
           ll_attrs = [(KeyCode, LStr code)]\<rparr>])
   \<and> (let t = orders_writeError w (wrap ms (Err m)) s in
      hs_wire t = Some 500
      \<and> hs_body t = hs_body s @ sent_body r (envelopeFor ''internal'' [] @ [CHR 0x0A])
      \<and> hs_log t = hs_log s @ [\<lparr>ll_level = ''ERROR'', ll_message = ''unhandled error'', ll_span = None,
           ll_attrs = [(KeyCode, LStr ''internal''), (''err'', LStr (err_text (wrap ms (Err m))))]\<rparr>])"
proof -
  have answered: "hs_wire (orders_writeError w err s) = Some (statusFor (public_code err))
      \<and> hs_body (orders_writeError w err s) = hs_body s @ sent_body r (envelopeFor (public_code err) (public_params err) @ [CHR 0x0A])
      \<and> hs_log (orders_writeError w err s) = hs_log s @ [error_line err]" for err
  proof -
    have "awaits r (s\<lparr>hs_log := hs_log s @ [error_line err]\<rparr>)" "in_step w (s\<lparr>hs_log := hs_log s @ [error_line err]\<rparr>)"
      using assms by (simp_all add: in_step_def awaits_def)
    from writeJSON_answer [OF this statusFor_final] show ?thesis by (simp add: orders_writeError_eq)
  qed
  show ?thesis
    unfolding Let_def using answered [of "wrap ms (ContractErr m code ps)"] answered [of "wrap ms (Err m)"]
    by (simp add: public_code_def public_params_def error_line_def)
qed

lemma error_replies_carry_code_and_params_only_witness:
  "hs_body (orders_writeError [] (wrap [''query''] (Err ''password expired'')) idle_server)
     = envelopeFor ''internal'' [] @ [CHR 0x0A]"
proof -
  have "in_step [] idle_server" "hs_body idle_server = []" "sq_method get_orders \<noteq> MethodHead"
    by (simp_all add: in_step_def idle_server_def get_orders_def MethodHead_def)
  then show ?thesis
    using error_replies_carry_code_and_params_only [OF awaits_idle, of "[]" "[''query'']" "''password expired''" "[]" None]
    by (simp add: sent_body_def Let_def)
qed

end
