(* ===== verification/Notifications.thy ===== *)
theory Notifications
  imports Machine Go_Strings Http "HOL-Library.Multiset"
begin

text \<open>
  \<open>examples/notifications\<close>, \<open>notification.go\<close> and \<open>worker.go\<close>: the store, its queue, and the goroutine that
  delivers. The request goroutines inside \<open>submit\<close>, the worker and the callers of \<open>stop\<close> interleave; the
  critical sections of the mutex are single steps, and so are a send, a receive and a \<open>close\<close>. A send
  to a full channel waits, one to a closed channel panics, also when it has been waiting.
\<close>

section \<open>The store\<close>

record notification =
  n_ID :: string
  n_Recipient :: string
  n_Message :: string
  n_Status :: string

record queuedNotification =
  qn_ctx :: ctx
  qn_notification :: notification

record notificationStore =
  ns_nextID :: "64 word"
  ns_items :: "string \<Rightarrow> notification option"
  ns_queue :: "queuedNotification list"
  ns_closed :: bool

definition newNotificationStore :: notificationStore where
  "newNotificationStore = \<lparr>ns_nextID = 0, ns_items = Map.empty, ns_queue = [], ns_closed = False\<rparr>"

definition queue_capacity :: nat where
  "queue_capacity = 64"

definition notification_id :: "64 word \<Rightarrow> string" where
  "notification_id k = ''notification-'' @ itoa (sint k)"

text \<open>\<open>context.WithoutCancel\<close>.\<close>

definition detached :: "ctx \<Rightarrow> ctx" where
  "detached c = c\<lparr>ctx_deadline := None, ctx_done_at := None, ctx_tokens := []\<rparr>"

text \<open>\<open>submit\<close> under the lock, and its send: \<open>None\<close> while it waits, otherwise the store or the panic.\<close>

definition submit_section :: "string \<Rightarrow> string \<Rightarrow> notificationStore \<Rightarrow> notificationStore \<times> notification" where
  "submit_section recipient message st =
     (let k = ns_nextID st + 1;
          n = \<lparr>n_ID = notification_id k, n_Recipient = recipient, n_Message = message, n_Status = ''queued''\<rparr>
      in (st\<lparr>ns_nextID := k, ns_items := (ns_items st)(n_ID n \<mapsto> n)\<rparr>, n))"

definition closed_channel :: string where
  "closed_channel = ''send on closed channel''"

definition submit_send ::
  "queuedNotification \<Rightarrow> notificationStore \<Rightarrow> (notificationStore + string) option"
where
  "submit_send q st =
     (if ns_closed st then Some (Inr closed_channel)
      else if length (ns_queue st) < queue_capacity then Some (Inl (st\<lparr>ns_queue := ns_queue st @ [q]\<rparr>))
      else None)"

definition store_get :: "notificationStore \<Rightarrow> string \<Rightarrow> notification option" where
  "store_get st i = ns_items st i"

definition zero_notification :: notification where
  "zero_notification = \<lparr>n_ID = [], n_Recipient = [], n_Message = [], n_Status = []\<rparr>"

definition setStatus :: "string \<Rightarrow> string \<Rightarrow> notificationStore \<Rightarrow> notificationStore" where
  "setStatus i status st =
     (let n = (case ns_items st i of None \<Rightarrow> zero_notification | Some n \<Rightarrow> n)
      in st\<lparr>ns_items := (ns_items st)(i \<mapsto> n\<lparr>n_Status := status\<rparr>)\<rparr>)"

section \<open>The delivery worker\<close>

datatype worker = NotStarted | Ranging | Delivering queuedNotification | Exited

record delivery_line =
  dl_level :: string
  dl_message :: string
  dl_ctx :: ctx
  dl_id :: string
  dl_err :: "goerr option"

text \<open>
  The state of the running service. \<open>sy_sending\<close> are the goroutines that have left the lock and not
  sent yet, \<open>sy_stopping\<close> counts the callers in the \<open>select\<close> of \<open>stop\<close>. The last four fields are history:
  what was submitted, what was sent, how each delivery ended, and what a panic took away.
\<close>

record system =
  sy_store :: notificationStore
  sy_sending :: "queuedNotification list"
  sy_worker :: worker
  sy_stopOnce :: bool
  sy_stopping :: nat
  sy_log :: "delivery_line list"
  sy_submitted :: "queuedNotification list"
  sy_accepted :: "queuedNotification list"
  sy_handled :: "(queuedNotification \<times> goerr option) list"
  sy_lost :: "queuedNotification list"

definition newDeliveryWorker :: system where
  "newDeliveryWorker = \<lparr>sy_store = newNotificationStore, sy_sending = [], sy_worker = NotStarted, sy_stopOnce = False,
     sy_stopping = 0, sy_log = [], sy_submitted = [], sy_accepted = [], sy_handled = [], sy_lost = []\<rparr>"

definition submit_enter :: "ctx \<Rightarrow> string \<Rightarrow> string \<Rightarrow> system \<Rightarrow> system" where
  "submit_enter c recipient message y =
     (case submit_section recipient message (sy_store y) of
        (st, n) \<Rightarrow> let q = \<lparr>qn_ctx = detached c, qn_notification = n\<rparr>
          in y\<lparr>sy_store := st, sy_sending := sy_sending y @ [q], sy_submitted := sy_submitted y @ [q]\<rparr>)"

definition remove_at :: "nat \<Rightarrow> 'a list \<Rightarrow> 'a list" where
  "remove_at p xs = take p xs @ drop (Suc p) xs"

definition submit_proceed :: "nat \<Rightarrow> system \<Rightarrow> system option" where
  "submit_proceed p y =
     (if p < length (sy_sending y)
      then let q = sy_sending y ! p; y1 = y\<lparr>sy_sending := remove_at p (sy_sending y)\<rparr>
        in (case submit_send q (sy_store y) of
              None \<Rightarrow> None
            | Some (Inl st) \<Rightarrow> Some (y1\<lparr>sy_store := st, sy_accepted := sy_accepted y @ [q]\<rparr>)
            | Some (Inr v) \<Rightarrow> Some (y1\<lparr>sy_lost := sy_lost y @ [q]\<rparr>))
      else None)"

text \<open>\<open>start\<close>: the goroutine. Its owner calls it once (\<open>Lifecycle_Props.every_component_lives_once\<close>).\<close>

definition worker_start :: "system \<Rightarrow> system option" where
  "worker_start y = (if sy_worker y = NotStarted then Some (y\<lparr>sy_worker := Ranging\<rparr>) else None)"

text \<open>The head of \<open>for item := range w.store.queue\<close>.\<close>

definition worker_receive :: "system \<Rightarrow> system option" where
  "worker_receive y =
     (if sy_worker y \<noteq> Ranging then None
      else case ns_queue (sy_store y) of
        q # qs \<Rightarrow> Some (y\<lparr>sy_store := (sy_store y)\<lparr>ns_queue := qs\<rparr>, sy_worker := Delivering q\<rparr>)
      | [] \<Rightarrow> if ns_closed (sy_store y) then Some (y\<lparr>sy_worker := Exited\<rparr>) else None)"

text \<open>The body of the loop, from the moment \<open>deliver\<close> has returned.\<close>

definition worker_delivered :: "goerr option \<Rightarrow> system \<Rightarrow> system option" where
  "worker_delivered err y =
     (case sy_worker y of
        Delivering q \<Rightarrow>
          let i = n_ID (qn_notification q);
              line = (case err of
                  Some e \<Rightarrow> \<lparr>dl_level = ''ERROR'', dl_message = ''notification delivery failed'',
                    dl_ctx = qn_ctx q, dl_id = i, dl_err = Some e\<rparr>
                | None \<Rightarrow> \<lparr>dl_level = ''INFO'', dl_message = ''notification delivered'',
                    dl_ctx = qn_ctx q, dl_id = i, dl_err = None\<rparr>)
          in Some (y\<lparr>sy_store := setStatus i (if err = None then ''delivered'' else ''failed'') (sy_store y),
               sy_worker := Ranging, sy_log := sy_log y @ [line], sy_handled := sy_handled y @ [(q, err)]\<rparr>)
      | _ \<Rightarrow> None)"

definition worker_stop :: "system \<Rightarrow> system" where
  "worker_stop y =
     (let y1 = (if sy_stopOnce y then y
                else y\<lparr>sy_stopOnce := True, sy_store := (sy_store y)\<lparr>ns_closed := True\<rparr>\<rparr>)
      in y1\<lparr>sy_stopping := Suc (sy_stopping y)\<rparr>)"

text \<open>The \<open>select\<close>: \<open>done\<close> is closed when the goroutine has ended; the context ends when it ends.\<close>

definition stop_answers :: "goerr option \<Rightarrow> system \<Rightarrow> system option" where
  "stop_answers res y =
     (if sy_stopping y = 0 then None
      else if res = None \<and> sy_worker y \<noteq> Exited then None
      else Some (y\<lparr>sy_stopping := sy_stopping y - 1\<rparr>))"

datatype system_action =
    Submit ctx string string
  | Proceed nat
  | WorkerStart
  | Receive
  | Delivered "goerr option"
  | WorkerStop
  | StopAnswers "goerr option"

fun system_step :: "system_action \<Rightarrow> system \<Rightarrow> system option" where
  "system_step (Submit c recipient message) y = Some (submit_enter c recipient message y)"
| "system_step (Proceed p) y = submit_proceed p y"
| "system_step WorkerStart y = worker_start y"
| "system_step Receive y = worker_receive y"
| "system_step (Delivered err) y = worker_delivered err y"
| "system_step WorkerStop y = Some (worker_stop y)"
| "system_step (StopAnswers res) y = stop_answers res y"

abbreviation system_reach :: "system \<Rightarrow> bool" where
  "system_reach \<equiv> reaches system_step newDeliveryWorker"

lemmas system_defs = submit_enter_def submit_section_def submit_proceed_def submit_send_def worker_start_def
  worker_receive_def worker_delivered_def worker_stop_def stop_answers_def setStatus_def

end
