(* ===== verification/Delivery.thy ===== *)
theory Delivery
  imports Notifications
begin

text \<open>
  The delivery queue proved: nothing is lost or delivered twice while the queue is open, deliveries
  are in the order of the sends, the status of a notification is its progress, and \<open>stop\<close> returns nil
  exactly after the queue has been drained.
\<close>

section \<open>Where a notification is\<close>

definition in_hand :: "system \<Rightarrow> queuedNotification list" where
  "in_hand y = (case sy_worker y of Delivering q \<Rightarrow> [q] | _ \<Rightarrow> [])"

definition line_of :: "queuedNotification \<times> goerr option \<Rightarrow> delivery_line" where
  "line_of h =
     \<lparr>dl_level = (if snd h = None then ''INFO'' else ''ERROR''),
      dl_message = (if snd h = None then ''notification delivered'' else ''notification delivery failed''),
      dl_ctx = qn_ctx (fst h), dl_id = n_ID (qn_notification (fst h)), dl_err = snd h\<rparr>"

definition flow_inv :: "system \<Rightarrow> bool" where
  "flow_inv y \<longleftrightarrow>
     mset (sy_submitted y) = mset (sy_sending y) + mset (sy_lost y) + mset (sy_accepted y)
     \<and> sy_accepted y = map fst (sy_handled y) @ in_hand y @ ns_queue (sy_store y)
     \<and> length (ns_queue (sy_store y)) \<le> queue_capacity
     \<and> (sy_lost y \<noteq> [] \<longrightarrow> ns_closed (sy_store y))
     \<and> (sy_stopOnce y \<longleftrightarrow> ns_closed (sy_store y))
     \<and> (sy_worker y = Exited \<longrightarrow> ns_closed (sy_store y) \<and> ns_queue (sy_store y) = [])
     \<and> sy_log y = map line_of (sy_handled y)"

lemma mset_remove_at: "p < length xs \<Longrightarrow> mset xs = add_mset (xs ! p) (mset (remove_at p xs))"
  by (subst id_take_nth_drop [of p xs]) (simp_all add: remove_at_def)

definition outcome_status :: "goerr option \<Rightarrow> string" where
  "outcome_status err = (if err = None then ''delivered'' else ''failed'')"

lemma delivered_eq:
  assumes "worker_delivered err y = Some y'"
  obtains q where "sy_worker y = Delivering q"
    "y' = y\<lparr>sy_store := setStatus (n_ID (qn_notification q)) (outcome_status err) (sy_store y), sy_worker := Ranging,
       sy_log := sy_log y @ [line_of (q, err)], sy_handled := sy_handled y @ [(q, err)]\<rparr>"
  using assms
  by (cases "sy_worker y"; cases err) (auto simp: worker_delivered_def outcome_status_def line_of_def Let_def)

lemma flow_inv_proceed:
  assumes inv: "flow_inv y" and step: "submit_proceed p y = Some y'"
  shows "flow_inv y'"
proof -
  have p: "p < length (sy_sending y)" using step by (simp add: submit_proceed_def split: if_splits)
  let ?q = "sy_sending y ! p"
  let ?y = "y\<lparr>sy_sending := remove_at p (sy_sending y)\<rparr>"
  have sent: "mset (sy_sending y) = add_mset ?q (mset (remove_at p (sy_sending y)))"
    by (rule mset_remove_at [OF p])
  show ?thesis
  proof (cases "ns_closed (sy_store y)")
    case True
    then have "y' = ?y\<lparr>sy_lost := sy_lost y @ [?q]\<rparr>"
      using step p by (simp add: submit_proceed_def submit_send_def)
    then show ?thesis using inv sent True by (simp add: flow_inv_def in_hand_def)
  next
    case False
    then have room: "length (ns_queue (sy_store y)) < queue_capacity"
      and y': "y' = ?y\<lparr>sy_store := (sy_store y)\<lparr>ns_queue := ns_queue (sy_store y) @ [?q]\<rparr>,
        sy_accepted := sy_accepted y @ [?q]\<rparr>"
      using step p by (auto simp: submit_proceed_def submit_send_def Let_def split: if_splits)
    show ?thesis using inv sent False room by (simp add: y' flow_inv_def in_hand_def)
  qed
qed

lemma flow_inv_step:
  assumes inv: "flow_inv y" and step: "system_step a y = Some y'"
  shows "flow_inv y'"
proof (cases a)
  case (Proceed p)
  with inv step show ?thesis by (auto intro: flow_inv_proceed)
next
  case (Delivered err)
  then have "worker_delivered err y = Some y'" using step by simp
  then show ?thesis
    using inv by (elim delivered_eq) (simp add: flow_inv_def in_hand_def setStatus_def Let_def)
next
  case Receive
  with inv step show ?thesis
    by (cases "sy_worker y"; cases "ns_queue (sy_store y)")
       (auto simp: flow_inv_def in_hand_def worker_receive_def split: if_splits)
next
  case WorkerStart
  with inv step show ?thesis by (cases "sy_worker y") (auto simp: flow_inv_def in_hand_def worker_start_def)
next
  case (Submit c recipient message)
  then have "y' = submit_enter c recipient message y" using step by simp
  then show ?thesis
    using inv by (simp add: flow_inv_def in_hand_def submit_enter_def submit_section_def Let_def)
next
  case WorkerStop
  then have "y' = worker_stop y" using step by simp
  then show ?thesis
    using inv by (cases "sy_stopOnce y") (simp_all add: flow_inv_def in_hand_def worker_stop_def Let_def)
next
  case (StopAnswers res)
  then obtain "y' = y\<lparr>sy_stopping := sy_stopping y - 1\<rparr>"
    using step by (auto simp: stop_answers_def split: if_splits)
  then show ?thesis using inv by (simp add: flow_inv_def in_hand_def)
qed

interpretation flow: invariant system_step newDeliveryWorker flow_inv
  by unfold_locales
     (simp add: flow_inv_def newDeliveryWorker_def newNotificationStore_def in_hand_def, rule flow_inv_step)

section \<open>Identifiers and statuses\<close>

abbreviation qn_id :: "queuedNotification \<Rightarrow> string" where
  "qn_id q \<equiv> n_ID (qn_notification q)"

lemma notification_id_eq_iff [simp]: "notification_id a = notification_id b \<longleftrightarrow> a = b"
proof
  assume "notification_id a = notification_id b"
  then have "itoa (sint a) = itoa (sint b)" by (simp add: notification_id_def)
  then have "atoi (itoa (sint a)) = atoi (itoa (sint b))" by simp
  then show "a = b" by (simp add: atoi_itoa word_eq_iff_sint)
qed simp

lemma of_nat_word_inj:
  assumes "a < 2 ^ 64" "b < 2 ^ 64"
  shows "(of_nat a :: 64 word) = of_nat b \<longleftrightarrow> a = b"
proof
  assume "(of_nat a :: 64 word) = of_nat b"
  then have "unat (of_nat a :: 64 word) = unat (of_nat b :: 64 word)" by simp
  with assms show "a = b" by (simp add: unat_of_nat take_bit_nat_eq_self)
qed simp

definition tracked :: "system \<Rightarrow> (queuedNotification \<times> string) list" where
  "tracked y = map (\<lambda>q. (q, ''queued'')) (sy_sending y @ sy_lost y @ in_hand y @ ns_queue (sy_store y))
     @ map (\<lambda>(q, err). (q, outcome_status err)) (sy_handled y)"

definition numbered :: "system \<Rightarrow> bool" where
  "numbered y \<longleftrightarrow> ns_nextID (sy_store y) = of_nat (length (sy_submitted y))
     \<and> map qn_id (sy_submitted y) = map (\<lambda>k. notification_id (of_nat (Suc k))) [0..<length (sy_submitted y)]"

definition progress :: "(string \<rightharpoonup> notification) \<Rightarrow> (queuedNotification \<times> string) set \<Rightarrow> bool" where
  "progress items T \<longleftrightarrow>
     (\<forall>(q, st) \<in> T. items (qn_id q) = Some ((qn_notification q)\<lparr>n_Status := st\<rparr>))"

lemma progressD: "progress items T \<Longrightarrow> (q, st) \<in> T \<Longrightarrow> items (qn_id q) = Some ((qn_notification q)\<lparr>n_Status := st\<rparr>)"
  by (auto simp: progress_def)

lemma progress_insert:
  assumes "progress items T" "i = qn_id q" "\<And>x t. (x, t) \<in> T \<Longrightarrow> qn_id x \<noteq> qn_id q"
  shows "progress (items(i \<mapsto> (qn_notification q)\<lparr>n_Status := st\<rparr>)) (insert (q, st) T)"
  using assms by (fastforce simp: progress_def)

lemma progress_subset: "progress items T \<Longrightarrow> U \<subseteq> T \<Longrightarrow> progress items U"
  by (auto simp: progress_def)

definition status_inv :: "system \<Rightarrow> bool" where
  "status_inv y \<longleftrightarrow> flow_inv y \<and> numbered y
     \<and> (length (sy_submitted y) < 2 ^ 64 \<longrightarrow> progress (ns_items (sy_store y)) (set (tracked y)))"

lemma tracked_all: "flow_inv y \<Longrightarrow> mset (map fst (tracked y)) = mset (sy_submitted y)"
  by (simp add: flow_inv_def tracked_def comp_def split_beta)

lemma numbered_distinct:
  assumes "numbered y" "length (sy_submitted y) < 2 ^ 64"
  shows "distinct (map qn_id (sy_submitted y))"
proof -
  have "inj_on (\<lambda>k. notification_id (of_nat (Suc k))) {0..<length (sy_submitted y)}"
    using assms(2) by (intro inj_onI) (simp only: notification_id_eq_iff, subst (asm) of_nat_word_inj, simp_all)
  then show ?thesis using assms(1) by (simp add: numbered_def distinct_map)
qed

lemma tracked_distinct:
  assumes "flow_inv y" "numbered y" "length (sy_submitted y) < 2 ^ 64"
  shows "distinct (map qn_id (map fst (tracked y)))"
proof -
  have "mset (map qn_id (map fst (tracked y))) = mset (map qn_id (sy_submitted y))"
    using tracked_all [OF assms(1)] by (simp only: mset_map)
  then show ?thesis using numbered_distinct [OF assms(2,3)] mset_eq_imp_distinct_iff by blast
qed

text \<open>A step that neither submits nor ends a delivery moves notifications about and touches no item.\<close>

lemma remove_at_set: "p < length xs \<Longrightarrow> set xs = insert (xs ! p) (set (remove_at p xs))"
  using mset_remove_at [of p xs] by (metis set_mset_add_mset_insert set_mset_mset)

lemma moves:
  assumes "system_step a y = Some y'" and "\<forall>c r m. a \<noteq> Submit c r m" and "\<forall>e. a \<noteq> Delivered e"
  shows "ns_items (sy_store y') = ns_items (sy_store y) \<and> sy_submitted y' = sy_submitted y
    \<and> ns_nextID (sy_store y') = ns_nextID (sy_store y) \<and> set (tracked y') = set (tracked y)"
proof (cases a)
  case (Proceed p)
  then have p: "p < length (sy_sending y)"
    using assms(1) by (simp add: submit_proceed_def split: if_splits)
  show ?thesis
    using assms(1) Proceed p remove_at_set [OF p]
    by (auto simp: submit_proceed_def submit_send_def tracked_def in_hand_def Let_def split: if_splits)
next
  case Receive
  then show ?thesis
    using assms(1)
    by (cases "sy_worker y"; cases "ns_queue (sy_store y)")
       (auto simp: tracked_def in_hand_def worker_receive_def split: if_splits)
next
  case WorkerStart
  then show ?thesis
    using assms(1) by (cases "sy_worker y") (auto simp: tracked_def in_hand_def worker_start_def)
next
  case WorkerStop
  then show ?thesis
    using assms(1) by (cases "sy_stopOnce y") (auto simp: tracked_def in_hand_def worker_stop_def Let_def)
next
  case (StopAnswers res)
  then show ?thesis
    using assms(1) by (auto simp: tracked_def in_hand_def stop_answers_def split: if_splits)
qed (use assms in auto)

lemma numbered_step:
  assumes "numbered y" "system_step a y = Some y'"
  shows "numbered y'"
proof (cases "\<exists>c r m. a = Submit c r m")
  case True
  then obtain c r m where "y' = submit_enter c r m y" using assms(2) by auto
  then show ?thesis
    using assms(1) by (simp add: numbered_def submit_enter_def submit_section_def Let_def add.commute)
next
  case False
  show ?thesis
  proof (cases "\<exists>e. a = Delivered e")
    case True
    then obtain e where "worker_delivered e y = Some y'" using assms(2) by auto
    then show ?thesis
      using assms(1) by (elim delivered_eq) (simp add: numbered_def setStatus_def Let_def)
  next
    case nodel: False
    with moves [OF assms(2)] False assms(1) show ?thesis by (simp add: numbered_def)
  qed
qed

lemma distinct_around:
  "distinct (map f (map fst (pre @ (q, s) # post))) \<Longrightarrow> (x, t) \<in> set (pre @ post) \<Longrightarrow> f x \<noteq> f q"
  by (force simp: image_iff)

lemma tracked_submitted: "flow_inv y \<Longrightarrow> fst ` set (tracked y) = set (sy_submitted y)"
  using tracked_all [of y] by (metis set_map set_mset_mset)

text \<open>What a status says of the deliveries made so far.\<close>

lemma outcome_status_simps [simp]:
  "outcome_status err = ''delivered'' \<longleftrightarrow> err = None" "outcome_status err = ''failed'' \<longleftrightarrow> err \<noteq> None"
  "outcome_status err \<noteq> ''queued''" "''delivered'' = outcome_status err \<longleftrightarrow> err = None"
  "''failed'' = outcome_status err \<longleftrightarrow> err \<noteq> None" "''queued'' \<noteq> outcome_status err"
  by (simp_all add: outcome_status_def)

lemma status_meaning:
  assumes "progress items (set (tracked y))" "(q, st) \<in> set (tracked y)"
  shows "st = ''delivered'' \<longleftrightarrow> (q, None) \<in> set (sy_handled y)"
    and "st = ''failed'' \<longleftrightarrow> (\<exists>e. (q, Some e) \<in> set (sy_handled y))"
    and "st = ''queued'' \<longleftrightarrow> (\<forall>err. (q, err) \<notin> set (sy_handled y))"
proof -
  have known: "st = outcome_status err" if "(q, err) \<in> set (sy_handled y)" for err
  proof -
    have "(q, outcome_status err) \<in> set (tracked y)" using that by (force simp: tracked_def)
    from progressD [OF assms(1) this] progressD [OF assms]
    have "(qn_notification q)\<lparr>n_Status := st\<rparr> = (qn_notification q)\<lparr>n_Status := outcome_status err\<rparr>" by simp
    from arg_cong [OF this, of n_Status] show ?thesis by simp
  qed
  have "st = ''queued'' \<or> (\<exists>err. (q, err) \<in> set (sy_handled y) \<and> st = outcome_status err)"
    using assms(2) by (auto simp: tracked_def)
  then consider "st = ''queued''" "\<forall>err. (q, err) \<notin> set (sy_handled y)"
    | err where "(q, err) \<in> set (sy_handled y)" "st = outcome_status err"
    using known by (metis outcome_status_simps(3))
  then have "(st = ''delivered'' \<longleftrightarrow> (q, None) \<in> set (sy_handled y))
      \<and> (st = ''failed'' \<longleftrightarrow> (\<exists>e. (q, Some e) \<in> set (sy_handled y)))
      \<and> (st = ''queued'' \<longleftrightarrow> (\<forall>err. (q, err) \<notin> set (sy_handled y)))"
  proof cases
    case 1
    then show ?thesis by simp
  next
    case (2 err)
    have same: "(err' = None) = (err = None)" if "(q, err') \<in> set (sy_handled y)" for err'
      using known [OF that] 2(2) outcome_status_simps(1) by metis
    show ?thesis unfolding 2(2) using 2(1) same by (cases err) auto
  qed
  then show "st = ''delivered'' \<longleftrightarrow> (q, None) \<in> set (sy_handled y)"
    "st = ''failed'' \<longleftrightarrow> (\<exists>e. (q, Some e) \<in> set (sy_handled y))"
    "st = ''queued'' \<longleftrightarrow> (\<forall>err. (q, err) \<notin> set (sy_handled y))" by simp_all
qed

lemma submitted_ids_fresh:
  assumes "numbered y" "Suc (length (sy_submitted y)) < 2 ^ 64" "x \<in> set (sy_submitted y)"
  shows "qn_id x \<noteq> notification_id (of_nat (Suc (length (sy_submitted y))))"
proof -
  have "qn_id x \<in> set (map (\<lambda>j. notification_id (of_nat (Suc j))) [0..<length (sy_submitted y)])"
    using assms(1,3) unfolding numbered_def by (metis image_eqI set_map)
  then obtain j where "j < length (sy_submitted y)" "qn_id x = notification_id (of_nat (Suc j))" by auto
  then show ?thesis
    using assms(2) of_nat_word_inj [of "Suc j" "Suc (length (sy_submitted y))"] by simp
qed

lemma progress_submit:
  assumes flow: "flow_inv y" and num: "numbered y"
    and before: "progress (ns_items (sy_store y)) (set (tracked y))"
    and few: "Suc (length (sy_submitted y)) < 2 ^ 64"
  shows "progress (ns_items (sy_store (submit_enter c r m y))) (set (tracked (submit_enter c r m y)))"
proof -
  let ?k = "of_nat (Suc (length (sy_submitted y))) :: 64 word"
  define n where "n = \<lparr>n_ID = notification_id ?k, n_Recipient = r, n_Message = m, n_Status = ''queued''\<rparr>"
  define q where "q = \<lparr>qn_ctx = detached c, qn_notification = n\<rparr>"
  have shape: "ns_items (sy_store (submit_enter c r m y))
      = (ns_items (sy_store y))(notification_id ?k \<mapsto> (qn_notification q)\<lparr>n_Status := ''queued''\<rparr>)"
    "set (tracked (submit_enter c r m y)) = insert (q, ''queued'') (set (tracked y))"
    using num by (auto simp: submit_enter_def submit_section_def numbered_def n_def q_def tracked_def in_hand_def
        Let_def add.commute)
  have id: "notification_id ?k = qn_id q" by (simp add: q_def n_def)
  have "qn_id x \<noteq> qn_id q" if "(x, t) \<in> set (tracked y)" for x t
    unfolding id [symmetric] using that tracked_submitted [OF flow] by (intro submitted_ids_fresh [OF num few]) force
  then show ?thesis unfolding shape by (rule progress_insert [OF before id])
qed

lemma progress_delivered:
  assumes inv: "flow_inv y" "numbered y" "length (sy_submitted y) < 2 ^ 64"
    and before: "progress (ns_items (sy_store y)) (set (tracked y))" and step: "worker_delivered err y = Some y'"
  shows "progress (ns_items (sy_store y')) (set (tracked y'))"
proof -
  obtain q where hand: "sy_worker y = Delivering q"
    and y': "y' = y\<lparr>sy_store := setStatus (qn_id q) (outcome_status err) (sy_store y), sy_worker := Ranging,
       sy_log := sy_log y @ [line_of (q, err)], sy_handled := sy_handled y @ [(q, err)]\<rparr>"
    using step by (rule delivered_eq)
  let ?pre = "map (\<lambda>q. (q, ''queued'')) (sy_sending y @ sy_lost y)"
  let ?post = "map (\<lambda>q. (q, ''queued'')) (ns_queue (sy_store y)) @ map (\<lambda>(q, err). (q, outcome_status err)) (sy_handled y)"
  have split: "tracked y = ?pre @ (q, ''queued'') # ?post" by (simp add: tracked_def in_hand_def hand)
  have after: "set (tracked y') = insert (q, outcome_status err) (set (?pre @ ?post))"
    by (auto simp: y' tracked_def in_hand_def setStatus_def Let_def)
  have "ns_items (sy_store y) (qn_id q) = Some ((qn_notification q)\<lparr>n_Status := ''queued''\<rparr>)"
    by (rule progressD [OF before]) (simp add: split)
  then have item: "ns_items (sy_store y') =
      (ns_items (sy_store y))(qn_id q \<mapsto> (qn_notification q)\<lparr>n_Status := outcome_status err\<rparr>)"
    by (simp add: y' setStatus_def)
  have rest: "progress (ns_items (sy_store y)) (set (?pre @ ?post))"
    by (rule progress_subset [OF before]) (auto simp: split)
  show ?thesis
    unfolding item after using tracked_distinct [OF inv] unfolding split
    by (intro progress_insert [OF rest refl]) (rule distinct_around)
qed

lemma status_inv_step:
  assumes inv: "status_inv y" and step: "system_step a y = Some y'"
  shows "status_inv y'"
proof -
  have flow: "flow_inv y" "flow_inv y'" and num: "numbered y" "numbered y'"
    using inv step flow_inv_step numbered_step by (auto simp: status_inv_def)
  have before: "length (sy_submitted y) < 2 ^ 64 \<Longrightarrow> progress (ns_items (sy_store y)) (set (tracked y))"
    using inv by (simp add: status_inv_def)
  have "progress (ns_items (sy_store y')) (set (tracked y'))" if few: "length (sy_submitted y') < 2 ^ 64"
  proof (cases "(\<exists>c r m. a = Submit c r m) \<or> (\<exists>e. a = Delivered e)")
    case False
    with moves [OF step] before few show ?thesis by auto
  next
    case True
    then show ?thesis
    proof (elim disjE exE)
      fix c r m assume "a = Submit c r m"
      with step have y': "y' = submit_enter c r m y" by simp
      with few have less: "Suc (length (sy_submitted y)) < 2 ^ 64"
        by (simp add: submit_enter_def submit_section_def Let_def)
      show ?thesis unfolding y' by (rule progress_submit [OF flow(1) num(1) before less]) (use less in linarith)
    next
      fix e assume "a = Delivered e"
      with step have d: "worker_delivered e y = Some y'" by simp
      then have "sy_submitted y' = sy_submitted y" by (elim delivered_eq) simp
      with few have less: "length (sy_submitted y) < 2 ^ 64" by metis
      show ?thesis by (rule progress_delivered [OF flow(1) num(1) less before [OF less] d])
    qed
  qed
  with flow(2) num(2) show ?thesis by (simp add: status_inv_def)
qed

lemma status_inv_start: "status_inv newDeliveryWorker"
  using flow.inv_start
  by (simp add: status_inv_def progress_def numbered_def tracked_def newDeliveryWorker_def newNotificationStore_def in_hand_def)

interpretation status: invariant system_step newDeliveryWorker status_inv
  by unfold_locales (rule status_inv_start, rule status_inv_step)

end
