(* ===== verification/Delivery_Props.thy ===== *)
theory Delivery_Props
  imports Delivery
begin

text \<open>
  What the notification service promises of its queue, and the window in which it does not keep it.
\<close>

section \<open>A run\<close>

text \<open>One notification delivered, one refused by the provider, and a stop that drains.\<close>

definition demo_run :: "system_action list" where
  "demo_run = [WorkerStart, Submit background ''ann'' ''hi'', Submit background ''bob'' ''yo'', Proceed 1, Proceed 0,
     Receive, Delivered None, WorkerStop, Receive, Delivered (Some DeadlineExceeded), Receive]"

definition demo_end :: system where
  "demo_end = (case run_all system_step demo_run newDeliveryWorker of None \<Rightarrow> newDeliveryWorker | Some y \<Rightarrow> y)"

lemmas run_defs = system_defs newDeliveryWorker_def newNotificationStore_def queue_capacity_def remove_at_def Let_def

lemma demo_run_end: "run_all system_step demo_run newDeliveryWorker = Some demo_end"
  unfolding demo_end_def demo_run_def by (simp add: run_defs)

lemma demo_end_facts:
  "sy_worker demo_end = Exited" "sy_stopping demo_end = 1" "length (sy_submitted demo_end) = 2"
  "map (\<lambda>h. (n_Recipient (qn_notification (fst h)), snd h)) (sy_handled demo_end)
     = [(''bob'', None), (''ann'', Some DeadlineExceeded)]"
  unfolding demo_end_def demo_run_def by (simp_all add: run_defs)

lemmas demo_reach = reachesI [OF demo_run_end]

section \<open>Properties\<close>

text \<open>C16: the delivery queue in every interleaving of requests, worker and stop. Every notification submitted
  is in exactly one place: waiting to be sent, sent, or lost to a panic, and the last only once the
  queue is closed; what was sent is, in that order, what has been handled, then the one in the
  worker's hand, then the queue, so each is delivered at most once and in order; the queue never
  holds more than 64; and the worker's log is one line for each that was handled, in its own context.\<close>

theorem notifications_are_handled_once_in_order:
  assumes "system_reach y"
  shows "mset (sy_submitted y) = mset (sy_sending y) + mset (sy_lost y) + mset (sy_accepted y)
    \<and> sy_accepted y = map fst (sy_handled y) @ in_hand y @ ns_queue (sy_store y)
    \<and> length (ns_queue (sy_store y)) \<le> 64
    \<and> (sy_lost y \<noteq> [] \<longrightarrow> ns_closed (sy_store y))
    \<and> sy_log y = map line_of (sy_handled y)"
  using flow.holds [OF assms] by (simp add: flow_inv_def queue_capacity_def)

theorem notifications_are_handled_once_in_order_witness:
  "map (n_Recipient \<circ> qn_notification) (sy_accepted demo_end) = [''bob'', ''ann''] \<and> ns_queue (sy_store demo_end) = []"
proof -
  note all = notifications_are_handled_once_in_order [OF demo_reach]
  have two: "length (sy_handled demo_end) = 2" using arg_cong [OF demo_end_facts(4), of length] by simp
  have "length (sy_submitted demo_end)
      = length (sy_sending demo_end) + length (sy_lost demo_end) + length (sy_accepted demo_end)"
    using arg_cong [OF conjunct1 [OF all], of size] by simp
  moreover have split: "sy_accepted demo_end = map fst (sy_handled demo_end) @ ns_queue (sy_store demo_end)"
    using all by (simp add: in_hand_def demo_end_facts(1))
  ultimately have none: "ns_queue (sy_store demo_end) = []" using two by (simp add: demo_end_facts(3))
  have "map (n_Recipient \<circ> qn_notification) (map fst (sy_handled demo_end))
      = map fst (map (\<lambda>h. (n_Recipient (qn_notification (fst h)), snd h)) (sy_handled demo_end))"
    by (simp add: comp_def)
  then show ?thesis using split none unfolding demo_end_facts(4) by simp
qed

text \<open>C18: what \<open>GET /notifications/{id}\<close> says, while fewer than \<open>2 ^ 64\<close> have been submitted: for every notification
  submitted, the store has it under its own id, with the recipient and the message it was submitted
  with, delivered or failed exactly when the worker has handled it with that result, and queued in
  every other case.\<close>

theorem status_tells_the_progress:
  assumes "system_reach y" and "length (sy_submitted y) < 2 ^ 64" and "q \<in> set (sy_submitted y)"
  shows "\<exists>n. store_get (sy_store y) (qn_id q) = Some n
    \<and> n_Recipient n = n_Recipient (qn_notification q) \<and> n_Message n = n_Message (qn_notification q)
    \<and> (n_Status n = ''delivered'' \<longleftrightarrow> (q, None) \<in> set (sy_handled y))
    \<and> (n_Status n = ''failed'' \<longleftrightarrow> (\<exists>e. (q, Some e) \<in> set (sy_handled y)))
    \<and> (n_Status n = ''queued'' \<longleftrightarrow> (\<forall>err. (q, err) \<notin> set (sy_handled y)))"
proof -
  have inv: "status_inv y" using status.holds [OF assms(1)] .
  then have items: "progress (ns_items (sy_store y)) (set (tracked y))"
    using assms(2) by (simp add: status_inv_def)
  have "q \<in> fst ` set (tracked y)"
    using inv assms(3) by (simp add: status_inv_def tracked_submitted)
  then obtain st where st: "(q, st) \<in> set (tracked y)" by (elim imageE) (metis prod.collapse)
  then show ?thesis
    using progressD [OF items st] status_meaning [OF items st] by (simp add: store_get_def)
qed

theorem status_tells_the_progress_witness:
  "\<exists>q. n_Recipient (qn_notification q) = ''ann''
    \<and> map_option n_Status (store_get (sy_store demo_end) (qn_id q)) = Some ''failed''"
proof -
  have "(''ann'', Some DeadlineExceeded)
      \<in> set (map (\<lambda>h. (n_Recipient (qn_notification (fst h)), snd h)) (sy_handled demo_end))"
    unfolding demo_end_facts(4) by simp
  then obtain q where q: "(q, Some DeadlineExceeded) \<in> set (sy_handled demo_end)" "n_Recipient (qn_notification q) = ''ann''"
    by auto
  have flow: "flow_inv demo_end" by (rule flow.holds [OF demo_reach])
  have "(q, outcome_status (Some DeadlineExceeded)) \<in> set (tracked demo_end)"
    using q(1) by (force simp: tracked_def)
  then have "q \<in> fst ` set (tracked demo_end)" by force
  then have "q \<in> set (sy_submitted demo_end)" by (simp only: tracked_submitted [OF flow])
  moreover have "length (sy_submitted demo_end) < 2 ^ 64" by (simp add: demo_end_facts(3))
  ultimately obtain n where "store_get (sy_store demo_end) (qn_id q) = Some n" "n_Status n = ''failed''"
    using status_tells_the_progress [OF demo_reach] q(1) by blast
  with q(2) show ?thesis by (intro exI [of _ q]) simp
qed

text \<open>Once the worker has ended nothing is sent or handled any more.\<close>

definition ended :: "queuedNotification list \<Rightarrow> (queuedNotification \<times> goerr option) list \<Rightarrow> system \<Rightarrow> bool" where
  "ended acc h y \<longleftrightarrow> flow_inv y \<and> sy_worker y = Exited \<and> sy_accepted y = acc \<and> sy_handled y = h"

lemma ended_step:
  assumes "ended acc h y" "system_step a y = Some y'"
  shows "ended acc h y'"
proof -
  have flow: "flow_inv y" and y: "sy_worker y = Exited" "sy_accepted y = acc" "sy_handled y = h"
    using assms(1) by (simp_all add: ended_def)
  have closed: "ns_closed (sy_store y)" using flow y(1) by (simp add: flow_inv_def)
  have "sy_worker y' = Exited \<and> sy_accepted y' = acc \<and> sy_handled y' = h"
  proof (cases a)
    case (Submit c r m)
    then have "y' = submit_enter c r m y" using assms(2) by simp
    with y show ?thesis by (simp add: submit_enter_def submit_section_def Let_def)
  next
    case (Proceed p)
    with assms(2) closed have "y' = y\<lparr>sy_sending := remove_at p (sy_sending y), sy_lost := sy_lost y @ [sy_sending y ! p]\<rparr>"
      by (auto simp: submit_proceed_def submit_send_def Let_def split: if_splits)
    with y show ?thesis by simp
  next
    case WorkerStop
    then have "y' = worker_stop y" using assms(2) by simp
    with y show ?thesis by (cases "sy_stopOnce y") (simp_all add: worker_stop_def Let_def)
  next
    case (StopAnswers res)
    then have "y' = y\<lparr>sy_stopping := sy_stopping y - 1\<rparr>"
      using assms(2) by (simp add: stop_answers_def split: if_splits)
    with y show ?thesis by simp
  qed (use assms(2) y(1) in \<open>simp_all add: worker_start_def worker_receive_def worker_delivered_def\<close>)
  with flow_inv_step [OF flow assms(2)] show ?thesis by (simp add: ended_def)
qed

text \<open>C17: \<open>stop\<close> returns nil only when the queue is drained: the worker has ended, everything that was ever
  sent has been handled, and nothing can be sent after it, whatever happens then.\<close>

theorem stop_returns_when_drained:
  assumes "system_reach y" and "system_step (StopAnswers None) y = Some y'" and "run_all system_step as y' = Some z"
  shows "sy_worker z = Exited \<and> ns_queue (sy_store z) = [] \<and> map fst (sy_handled z) = sy_accepted z
    \<and> sy_accepted z = sy_accepted y \<and> sy_handled z = sy_handled y"
proof -
  have "flow_inv y" using flow.holds [OF assms(1)] .
  then have "ended (sy_accepted y) (sy_handled y) y"
    using assms(2) by (auto simp: stop_answers_def ended_def split: if_splits)
  then have "ended (sy_accepted y) (sy_handled y) y'" using assms(2) by (rule ended_step)
  then have "ended (sy_accepted y) (sy_handled y) z"
    by (rule run_all_keeps [where P = "ended (sy_accepted y) (sy_handled y)" and step = system_step, rotated])
       (use assms(3) ended_step in blast)+
  then show ?thesis by (auto simp: ended_def flow_inv_def in_hand_def)
qed

theorem stop_returns_when_drained_witness:
  "\<exists>y'. system_step (StopAnswers None) demo_end = Some y' \<and> map fst (sy_handled y') = sy_accepted y'
    \<and> length (sy_handled y') = 2"
proof -
  obtain y' where y': "system_step (StopAnswers None) demo_end = Some y'"
    by (simp add: stop_answers_def demo_end_facts)
  have "length (sy_handled demo_end) = 2" using arg_cong [OF demo_end_facts(4), of length] by simp
  with stop_returns_when_drained [OF demo_reach y', of "[]" y'] y' show ?thesis by auto
qed

section \<open>The drain ends\<close>

definition worker_action :: "system_action \<Rightarrow> bool" where
  "worker_action a \<longleftrightarrow> a = Receive \<or> (\<exists>e. a = Delivered e)"

definition drain_left :: "system \<Rightarrow> nat" where
  "drain_left y =
     (case sy_worker y of
        Exited \<Rightarrow> 0
      | NotStarted \<Rightarrow> 2 * length (ns_queue (sy_store y)) + 1
      | Ranging \<Rightarrow> 2 * length (ns_queue (sy_store y)) + 1
      | Delivering q \<Rightarrow> 2 * length (ns_queue (sy_store y)) + 2)"

lemma drain_left_step:
  assumes "worker_action a" "flow_inv y" "system_step a y = Some y'"
  shows "flow_inv y' \<and> drain_left y' < drain_left y"
proof -
  have "drain_left y' < drain_left y"
    using assms(1,3) unfolding worker_action_def
  proof (elim disjE exE)
    assume "a = Receive"
    with assms(3) show ?thesis
      by (auto simp: worker_receive_def drain_left_def split: if_splits list.splits)
  next
    fix e assume "a = Delivered e"
    with assms(3) have "worker_delivered e y = Some y'" by simp
    then show ?thesis by (elim delivered_eq) (simp add: drain_left_def setStatus_def Let_def)
  qed
  with flow_inv_step [OF assms(2,3)] show ?thesis ..
qed

interpretation drain: measured system_step worker_action flow_inv drain_left
  by unfold_locales (rule drain_left_step)

text \<open>The drain ends. Once \<open>stop\<close> has closed the queue, the worker is never stuck before it has ended: it
  can receive, or a delivery is under way; nothing the requests do gives it more to do; and it ends
  after at most 130 of its own steps, two for each of the 64 and what it has in hand.\<close>

lemma the_drain_ends:
  assumes "system_reach y" and "ns_closed (sy_store y)" and "sy_worker y \<noteq> NotStarted"
  shows "(sy_worker y \<noteq> Exited \<longrightarrow> (\<exists>a. worker_action a \<and> system_step a y \<noteq> None))
    \<and> (\<forall>a y'. \<not> worker_action a \<and> system_step a y = Some y' \<longrightarrow> drain_left y' = drain_left y \<and> ns_closed (sy_store y'))
    \<and> (\<forall>as y'. list_all worker_action as \<and> run_all system_step as y = Some y' \<longrightarrow> length as \<le> 130)"
proof -
  have flow: "flow_inv y" using flow.holds [OF assms(1)] .
  have "\<exists>a. worker_action a \<and> system_step a y \<noteq> None" if "sy_worker y \<noteq> Exited"
  proof (cases "sy_worker y")
    case Ranging
    then have "system_step Receive y \<noteq> None"
      using assms(2) by (simp add: worker_receive_def split: list.split)
    then show ?thesis by (auto simp: worker_action_def)
  next
    case (Delivering q)
    then have "system_step (Delivered None) y \<noteq> None" by (simp add: worker_delivered_def Let_def)
    moreover have "worker_action (Delivered None)" by (simp add: worker_action_def)
    ultimately show ?thesis by blast
  qed (use assms that in simp_all)
  moreover have "drain_left y' = drain_left y \<and> ns_closed (sy_store y')"
    if "\<not> worker_action a" "system_step a y = Some y'" for a y'
    using that assms(2,3)
    by (cases a)
       (auto simp: worker_action_def submit_enter_def submit_section_def submit_proceed_def submit_send_def worker_start_def
          worker_stop_def stop_answers_def drain_left_def Let_def split: if_splits worker.splits)
  moreover have "length as \<le> 130" if "list_all worker_action as" "run_all system_step as y = Some y'" for as y'
  proof -
    have "drain_left y \<le> 130"
      using flow by (auto simp: flow_inv_def queue_capacity_def drain_left_def split: worker.split)
    with drain.bounded [OF that(1) flow that(2)] show ?thesis by simp
  qed
  ultimately show ?thesis by blast
qed

definition demo_draining :: system where
  "demo_draining = (case run_all system_step (take 8 demo_run) newDeliveryWorker of None \<Rightarrow> newDeliveryWorker | Some y \<Rightarrow> y)"

lemma the_drain_ends_witness:
  "run_all system_step (take 8 demo_run) newDeliveryWorker = Some demo_draining
    \<and> (\<exists>a. worker_action a \<and> system_step a demo_draining \<noteq> None)"
proof -
  have run: "run_all system_step (take 8 demo_run) newDeliveryWorker = Some demo_draining"
    and "ns_closed (sy_store demo_draining)" "sy_worker demo_draining = Ranging"
    unfolding demo_draining_def demo_run_def by (simp_all add: run_defs)
  with the_drain_ends [OF reachesI [OF run]] show ?thesis by simp
qed

section \<open>After the queue has been closed\<close>

text \<open>
  A request still inside \<open>submit\<close> when \<open>stop\<close> closes the queue panics, and its notification stays in the
  store as queued for ever: nobody will deliver it, and its client has no answer that names it.
\<close>

lemma submit_after_stop_panics:
  "\<exists>y. run_all system_step [WorkerStart, Submit background ''ann'' ''hi'', WorkerStop, Receive, StopAnswers None, Proceed 0]
        newDeliveryWorker = Some y
    \<and> length (sy_lost y) = 1 \<and> sy_handled y = []
    \<and> map_option n_Status (store_get (sy_store y) (notification_id 1)) = Some ''queued''"
  by (simp add: run_defs store_get_def)

end
