(* ===== verification/Notify_Http.thy ===== *)
theory Notify_Http
  imports Served Delivery_Props
begin

text \<open>
  \<open>examples/notifications\<close>, \<open>server.go\<close> and \<open>contract.go\<close>: validation, the two routes and their error
  replies. What \<open>json.Decoder\<close> makes of the body is part of the request; what \<open>store.submit\<close> and
  \<open>store.get\<close> answer this request is the arguments \<open>submit\<close> (the notification, or the panic of the send)
  and \<open>get\<close>: their effects are the steps of \<open>Notifications\<close>, and \<open>submit\<close> only passes its context on. A
  route is the registered path a request's path matches, with what it carries; a method its pattern
  does not have is refused, and another path is left to \<open>miss\<close>, which is \<open>ServeMux\<close>'s own answer (a 404,
  or the redirection of a path that is not clean).
\<close>

section \<open>The typed call\<close>

record submitRequest =
  sr_Recipient :: string
  sr_Message :: string

definition invalidNotificationError :: "string \<Rightarrow> goerr" where
  "invalidNotificationError field =
     ContractErr (''invalid notification field: '' @ field) ''notification.invalid'' (Some [(''field'', PStr field)])"

type_synonym submit_call = "(ctx, submitRequest, notification) call_handler"

definition validateNotification :: "submit_call \<Rightarrow> submit_call" where
  "validateNotification nxt c req =
     (if sr_Recipient req = [] then Ret (zero_notification, Some (invalidNotificationError ''recipient''))
      else if sr_Message req = [] then Ret (zero_notification, Some (invalidNotificationError ''message''))
      else nxt c req)"

definition submit_endpoint :: "(string \<Rightarrow> string \<Rightarrow> notification outcome) \<Rightarrow> submit_call" where
  "submit_endpoint submit = contract_Chain [validateNotification]
     (\<lambda>c req. bind_outcome (submit (sr_Recipient req) (sr_Message req)) (\<lambda>n. Ret (n, None)))"

section \<open>Replies\<close>

definition contract_error_json :: "string \<Rightarrow> (string \<times> param) list option \<Rightarrow> string" where
  "contract_error_json code params =
     json_object [(''error'', json_object [(''code'', json_string code),
       (''params'', case params of None \<Rightarrow> ''null'' | Some ps \<Rightarrow> json_map ps)])]"

definition writeContractError :: "writer \<Rightarrow> srequest \<Rightarrow> goerr \<Rightarrow> hstate \<Rightarrow> hstate" where
  "writeContractError w r err s =
     (case err_as Coded err of
        None \<Rightarrow> writeJSON w 500 (json_object [(''error'', json_object [(''code'', json_string ''internal'')])])
          (log_attrs r ''ERROR'' ''unhandled error'' [(''err'', LStr (err_text err))] s)
      | Some code \<Rightarrow> writeJSON w 400 (contract_error_json code (err_as Detailed err))
          (log_attrs r ''INFO'' ''request rejected'' [(KeyCode, LStr code)] s))"

definition accepted_json :: "notification \<Rightarrow> string" where
  "accepted_json n = json_object [(''id'', json_string (n_ID n)), (''status'', json_string (n_Status n))]"

definition notification_json :: "notification \<Rightarrow> string" where
  "notification_json n = json_object
     [(''id'', json_string (n_ID n)), (''recipient'', json_string (n_Recipient n)),
      (''message'', json_string (n_Message n)), (''status'', json_string (n_Status n))]"

section \<open>The handler\<close>

definition post_notification ::
  "(string \<Rightarrow> string \<Rightarrow> notification outcome) \<Rightarrow> goerr + submitRequest \<Rightarrow> handler"
where
  "post_notification submit decoded r w s =
     (case decoded of
        Inl e \<Rightarrow> (writeContractError w r (invalidNotificationError ''body'') s, None)
      | Inr req \<Rightarrow>
          (case submit_endpoint submit (sq_ctx r) req of
             Panic v \<Rightarrow> (s, Some (PanicError (Err v)))
           | Ret (n, Some err) \<Rightarrow> (writeContractError w r err s, None)
           | Ret (n, None) \<Rightarrow> (writeJSON w 202 (accepted_json n) s, None)))"

definition get_notification :: "(string \<Rightarrow> notification option) \<Rightarrow> string \<Rightarrow> handler" where
  "get_notification get i r w s =
     (case get i of
        None \<Rightarrow> not_found r w s
      | Some n \<Rightarrow> (writeJSON w 200 (notification_json n) s, None))"

datatype route = PostNotifications "goerr + submitRequest" | GetNotification string | NoRoute

fun route_pattern :: "route \<Rightarrow> string" where
  "route_pattern (PostNotifications d) = ''POST /notifications''"
| "route_pattern (GetNotification i) = ''GET /notifications/{id}''"
| "route_pattern NoRoute = []"

definition is_post :: "srequest \<Rightarrow> bool" where
  "is_post r \<longleftrightarrow> sq_method r = ''POST''"

fun route_methods :: "route \<Rightarrow> srequest \<Rightarrow> bool" where
  "route_methods (PostNotifications d) = is_post"
| "route_methods (GetNotification i) = get_or_head"
| "route_methods NoRoute = (\<lambda>r. True)"

definition newHandler ::
  "(int \<Rightarrow> string) \<Rightarrow> otel_globals \<Rightarrow> handler \<Rightarrow> (string \<Rightarrow> string \<Rightarrow> notification outcome)
     \<Rightarrow> (string \<Rightarrow> notification option) \<Rightarrow> route \<Rightarrow> handler"
where
  "newHandler status_text g miss submit get rt =
     httpserver_Chain [Server status_text g zero_otel, AccessLog, Recover]
       (case rt of
          PostNotifications d \<Rightarrow> allowing is_post ''POST'' (mux (route_pattern rt) (post_notification submit d))
        | GetNotification i \<Rightarrow> allowing get_or_head ''GET, HEAD'' (mux (route_pattern rt) (get_notification get i))
        | NoRoute \<Rightarrow> mux [] miss)"

section \<open>What a request gets\<close>

text \<open>The field a request is rejected for.\<close>

definition rejected_field :: "goerr + submitRequest \<Rightarrow> string option" where
  "rejected_field d = (case d of Inl e \<Rightarrow> Some ''body''
     | Inr req \<Rightarrow> if sr_Recipient req = [] then Some ''recipient''
                 else if sr_Message req = [] then Some ''message'' else None)"

definition rejection_line :: "ctx \<Rightarrow> log_line" where
  "rejection_line c = \<lparr>ll_level = ''INFO'', ll_message = ''request rejected'', ll_span = ctx_span c,
     ll_attrs = [(KeyCode, LStr ''notification.invalid'')]\<rparr>"

definition invalid_json :: "string \<Rightarrow> string" where
  "invalid_json f = contract_error_json ''notification.invalid'' (Some [(''field'', PStr f)])"

lemma submit_endpoint_eq:
  "submit_endpoint submit c req =
     (case rejected_field (Inr req) of
        Some f \<Rightarrow> Ret (zero_notification, Some (invalidNotificationError f))
      | None \<Rightarrow> bind_outcome (submit (sr_Recipient req) (sr_Message req)) (\<lambda>n. Ret (n, None)))"
  by (simp add: submit_endpoint_def calls.chain_Cons calls.chain_Nil validateNotification_def rejected_field_def)

lemma writeContractError_invalid:
  "writeContractError w r (invalidNotificationError f) s =
     writeJSON w 400 (invalid_json f) (s\<lparr>hs_log := hs_log s @ [rejection_line (sq_ctx r)]\<rparr>)"
  by (simp add: writeContractError_def invalidNotificationError_def log_attrs_def rejection_line_def invalid_json_def)

lemma post_notification_eq:
  "post_notification submit d r w s =
     (case rejected_field d of
        Some f \<Rightarrow> (writeJSON w 400 (invalid_json f) (s\<lparr>hs_log := hs_log s @ [rejection_line (sq_ctx r)]\<rparr>), None)
      | None \<Rightarrow> (case submit (sr_Recipient (projr d)) (sr_Message (projr d)) of
            Panic v \<Rightarrow> (s, Some (PanicError (Err v)))
          | Ret n \<Rightarrow> (writeJSON w 202 (accepted_json n) s, None)))"
proof (cases d)
  case (Inl e)
  then show ?thesis by (simp add: post_notification_def rejected_field_def writeContractError_invalid)
next
  case (Inr req)
  then show ?thesis
    by (cases "rejected_field d"; cases "submit (sr_Recipient req) (sr_Message req)")
       (simp_all add: post_notification_def submit_endpoint_eq writeContractError_invalid)
qed

lemma json_answers_once:
  assumes "\<And>i c w s. h (r\<lparr>sq_id := i, sq_ctx := c\<rparr>) w s = (writeJSON w code v (s\<lparr>hs_log := hs_log s @ lines c\<rparr>), None)"
    and "\<not> informational code" "code \<noteq> 204" "code \<noteq> 304"
  shows "answers_once (mux pat h) r pat code (v @ [CHR 0x0A]) lines"
proof (rule answers_once_mux)
  fix i c w s
  assume fresh: "awaits r s" "in_step w s"
  then have "awaits r (s\<lparr>hs_log := hs_log s @ lines c\<rparr>)" "in_step w (s\<lparr>hs_log := hs_log s @ lines c\<rparr>)"
    by (simp_all add: in_step_def awaits_def)
  from writeJSON_answer [OF this assms(2-4), of v]
  show "\<exists>t. h (r\<lparr>sq_id := i, sq_ctx := c\<rparr>) w s = (t, None) \<and> in_step w t \<and> hs_wire t = Some code
      \<and> hs_body t = hs_body s @ sent_body r (v @ [CHR 0x0A]) \<and> hs_log t = hs_log s @ lines c \<and> hs_now t = hs_now s
      \<and> hs_otel t = hs_otel s \<and> hs_pattern t = hs_pattern s"
    unfolding assms(1) by simp
qed

text \<open>The reply to each request: status, body, and the lines before the access-log line.\<close>

definition post_reply :: "notification outcome \<Rightarrow> goerr + submitRequest \<Rightarrow> int \<times> string \<times> (ctx \<Rightarrow> log_line list)" where
  "post_reply res d =
     (case rejected_field d of
        Some f \<Rightarrow> (400, invalid_json f @ [CHR 0x0A], \<lambda>c. [rejection_line c])
      | None \<Rightarrow> (case res of
            Ret n \<Rightarrow> (202, accepted_json n @ [CHR 0x0A], \<lambda>c. [])
          | Panic v \<Rightarrow> (500, [], \<lambda>c. panic_lines c (Some (PanicError (Err v))))))"

lemma post_answers_once:
  assumes "post_reply (submit (sr_Recipient (projr d)) (sr_Message (projr d))) d = (code, body, lines)"
    and "submit (sr_Recipient (projr d)) (sr_Message (projr d)) \<noteq> Panic ''net/http: abort Handler''"
  shows "answers_once (Recover (mux pat (post_notification submit d))) r pat code body lines"
proof (cases "rejected_field d")
  case (Some f)
  have "answers_once (mux pat (post_notification submit d)) r pat 400 (invalid_json f @ [CHR 0x0A]) (\<lambda>c. [rejection_line c])"
    by (rule json_answers_once) (simp_all add: post_notification_eq Some informational_def)
  with Some assms(1) show ?thesis by (auto simp: post_reply_def intro: answers_once_Recover)
next
  case None
  show ?thesis
  proof (cases "submit (sr_Recipient (projr d)) (sr_Message (projr d))")
    case (Ret n)
    have "answers_once (mux pat (post_notification submit d)) r pat 202 (accepted_json n @ [CHR 0x0A]) (\<lambda>c. [])"
      by (rule json_answers_once) (simp_all add: post_notification_eq None Ret informational_def)
    with None Ret assms(1) show ?thesis by (auto simp: post_reply_def intro: answers_once_Recover)
  next
    case (Panic v)
    have "panics_silently (mux pat (post_notification submit d)) r pat (PanicError (Err v))"
      by (simp add: panics_silently_def mux_def post_notification_eq None Panic)
    moreover have "\<not> is_abort (PanicError (Err v))"
      using assms(2) Panic by (simp add: ErrAbortHandler_def)
    ultimately have "answers_once (Recover (mux pat (post_notification submit d))) r pat 500 []
        (\<lambda>c. panic_lines c (Some (PanicError (Err v))))"
      by (rule answers_once_Recover_panic)
    with None Panic assms(1) show ?thesis by (auto simp: post_reply_def)
  qed
qed

text \<open>A method the pattern has.\<close>

lemma allowing_Recover:
  assumes "ok r" "\<And>i c. ok (r\<lparr>sq_id := i, sq_ctx := c\<rparr>) = ok r"
  shows "answers_once (Recover (allowing ok methods h)) r pat code body lines
    = answers_once (Recover h) r pat code body lines"
  using assms by (simp add: answers_once_def Recover_def allowing_def)

definition get_reply :: "notification option \<Rightarrow> int \<times> string" where
  "get_reply res = (case res of None \<Rightarrow> (404, ''404 page not found'' @ [CHR 0x0A])
     | Some n \<Rightarrow> (200, notification_json n @ [CHR 0x0A]))"

lemma get_answers_once:
  assumes "get_reply (get i) = (code, body)"
  shows "answers_once (Recover (mux pat (get_notification get i))) r pat code body (\<lambda>c. [])"
proof (cases "get i")
  case None
  have "answers_once (mux pat (get_notification get i)) r pat 404 (''404 page not found'' @ [CHR 0x0A]) (\<lambda>c. [])"
  proof (rule answers_once_mux)
    fix j c w s
    assume "awaits r s" "in_step w s"
    then show "\<exists>t. get_notification get i (r\<lparr>sq_id := j, sq_ctx := c\<rparr>) w s = (t, None) \<and> in_step w t
        \<and> hs_wire t = Some 404 \<and> hs_body t = hs_body s @ sent_body r (''404 page not found'' @ [CHR 0x0A])
        \<and> hs_log t = hs_log s @ [] \<and> hs_now t = hs_now s \<and> hs_otel t = hs_otel s \<and> hs_pattern t = hs_pattern s"
      using http_error_answer [of r s w 404 "''404 page not found''"]
      by (simp add: get_notification_def not_found_def None informational_def)
  qed
  with None assms show ?thesis by (auto simp: get_reply_def intro: answers_once_Recover)
next
  case (Some n)
  have "answers_once (mux pat (get_notification get i)) r pat 200 (notification_json n @ [CHR 0x0A]) (\<lambda>c. [])"
    by (rule json_answers_once) (simp_all add: get_notification_def Some informational_def)
  with Some assms show ?thesis by (auto simp: get_reply_def intro: answers_once_Recover)
qed

text \<open>C40: a request to the notification service. On \<open>/notifications\<close> with \<open>POST\<close>: a body that does not
  decode, an empty recipient and an empty message are each a 400 that names the field, one line with
  the code, and nothing is submitted; an accepted one is a 202 with its id and status; a submission
  that panics (the queue was closed under it) is a 500 without a body and with one panic line, and the
  panic goes no further. On \<open>/notifications/{id}\<close> with \<open>GET\<close> or \<open>HEAD\<close>: a 200 with the notification or
  the 404 of \<open>http.NotFound\<close>. Another method on either is the 405 of \<open>ServeMux\<close>, another path its 404. A
  \<open>HEAD\<close> gets the status without the body. Each request has one access-log line with the route and the
  status the client got, in the span of the request, and the span and the metric carry the same.\<close>

theorem notification_requests_are_answered:
  assumes fresh: "awaits r s"
    and hist: "durationHistogram (meter_of g zero_otel) server_histogram = Some hg"
    and ctx: "c = tracer_of g zero_otel (length (hs_otel s)) (prop_extract (propagator_of g zero_otel) (sq_ctx r) (sq_header r))"
    and abort: "\<forall>x y. submit x y \<noteq> Panic ''net/http: abort Handler''"
    and miss: "rt = NoRoute \<longrightarrow> miss = not_found"
    and run: "newHandler status_text g miss submit get rt r [] s = (t, out)"
  shows "\<exists>code route body lines.
      (if \<not> route_methods rt r then code = 405 \<and> route = [] \<and> body = ''Method Not Allowed'' @ [CHR 0x0A] \<and> lines = []
       else route = route_pattern rt \<and> (case rt of
         PostNotifications d \<Rightarrow> (case rejected_field d of
             Some f \<Rightarrow> code = 400 \<and> body = invalid_json f @ [CHR 0x0A] \<and> lines = [rejection_line c]
           | None \<Rightarrow> (case submit (sr_Recipient (projr d)) (sr_Message (projr d)) of
               Ret n \<Rightarrow> code = 202 \<and> body = accepted_json n @ [CHR 0x0A] \<and> lines = []
             | Panic v \<Rightarrow> code = 500 \<and> body = [] \<and> lines = panic_lines c (Some (PanicError (Err v)))))
       | GetNotification i \<Rightarrow> (case get i of
             None \<Rightarrow> code = 404 \<and> body = ''404 page not found'' @ [CHR 0x0A] \<and> lines = []
           | Some n \<Rightarrow> code = 200 \<and> body = notification_json n @ [CHR 0x0A] \<and> lines = [])
       | NoRoute \<Rightarrow> code = 404 \<and> body = ''404 page not found'' @ [CHR 0x0A] \<and> lines = []))
    \<and> out = None \<and> hs_wire t = Some code \<and> hs_body t = hs_body s @ sent_body r body
    \<and> hs_log t = hs_log s @ lines @ [access_line c (sq_method r) route (Some code) 0]
    \<and> hs_otel t = hs_otel s @ server_span status_text hg (sq_method r) route (Some code) 0"
proof -
  obtain h where h: "h = Recover (case rt of
          PostNotifications d \<Rightarrow> allowing is_post ''POST'' (mux (route_pattern rt) (post_notification submit d))
        | GetNotification i \<Rightarrow> allowing get_or_head ''GET, HEAD'' (mux (route_pattern rt) (get_notification get i))
        | NoRoute \<Rightarrow> mux [] miss)" by blast
  from run have run': "Server status_text g zero_otel (AccessLog h) r [] s = (t, out)"
    by (simp add: newHandler_def h handlers.chain_Cons handlers.chain_Nil)
  note whole = served [OF answers_once_AccessLog fresh hist ctx run']
  show ?thesis
  proof (cases "route_methods rt r")
    case False
    then have "answers_once h r [] 405 (''Method Not Allowed'' @ [CHR 0x0A]) (\<lambda>c. [])"
      unfolding h by (cases rt) (auto simp: is_post_def get_or_head_def
        intro!: answers_once_Recover allowing_answers_once method_not_allowed_answers_once [simplified])
    from whole [OF this] False show ?thesis by auto
  next
    case ok: True
    show ?thesis
    proof (cases rt)
      case (PostNotifications d)
      let ?res = "submit (sr_Recipient (projr d)) (sr_Message (projr d))"
      obtain code body lines where reply: "post_reply ?res d = (code, body, lines)" by (metis prod_cases3)
      from post_answers_once [where submit = submit, OF reply, where r = r and pat = "route_pattern rt"] abort ok
      have "answers_once h r (route_pattern rt) code body lines"
        by (simp add: h PostNotifications allowing_Recover is_post_def)
      from whole [OF this] reply ok show ?thesis
        by (auto simp: PostNotifications post_reply_def split: option.splits outcome.splits)
    next
      case (GetNotification i)
      obtain code body where reply: "get_reply (get i) = (code, body)" by fastforce
      from get_answers_once [where get = get, OF reply, where r = r and pat = "route_pattern rt"] ok
      have "answers_once h r (route_pattern rt) code body (\<lambda>c. [])"
        by (simp add: h GetNotification allowing_Recover get_or_head_def)
      from whole [OF this] reply ok show ?thesis
        by (auto simp: GetNotification get_reply_def split: option.splits)
    next
      case NoRoute
      with miss have "answers_once h r [] 404 (''404 page not found'' @ [CHR 0x0A]) (\<lambda>c. [])"
        by (simp add: h answers_once_Recover not_found_answers_once [simplified])
      from whole [OF this] ok NoRoute show ?thesis by auto
    qed
  qed
qed

definition post_request :: srequest where
  "post_request = get_orders\<lparr>sq_method := ''POST''\<rparr>"

theorem notification_requests_are_answered_witness:
  "\<exists>t. newHandler no_text demo_globals not_found (\<lambda>x y. Panic closed_channel) (\<lambda>i. None)
        (PostNotifications (Inr \<lparr>sr_Recipient = ''ann'', sr_Message = ''hi''\<rparr>)) post_request [] idle_server = (t, None)
      \<and> hs_wire t = Some 500"
proof -
  let ?rt = "PostNotifications (Inr \<lparr>sr_Recipient = ''ann'', sr_Message = ''hi''\<rparr>)"
  let ?submit = "\<lambda>x y. Panic closed_channel"
  obtain t out where run: "newHandler no_text demo_globals not_found ?submit (\<lambda>i. None) ?rt
      post_request [] idle_server = (t, out)" by fastforce
  have facts: "awaits post_request idle_server" "\<forall>x y. ?submit x y \<noteq> Panic ''net/http: abort Handler''"
    "?rt = NoRoute \<longrightarrow> not_found = not_found"
    "durationHistogram (meter_of demo_globals zero_otel) server_histogram = Some (Histogram server_histogram)"
    by (simp_all add: awaits_def post_request_def MethodHead_def idle_server_def closed_channel_def durationHistogram_def
        meter_of_def zero_otel_def demo_globals_def)
  from notification_requests_are_answered [OF facts(1,4) refl facts(2,3) run]
  have "out = None \<and> hs_wire t = Some 500"
    by (auto simp: rejected_field_def is_post_def post_request_def)
  with run show ?thesis by blast
qed

end
