(* ===== verification/Lifecycle_Deps.thy ===== *)
theory Lifecycle_Deps
  imports Lifecycle_Props
begin

text \<open>
  What registered dependencies mean for a running service: in every state of every interleaving a
  component that is starting, up or stopping has everything it depends on up. And what \<open>Run\<close> never
  changes: the components.
\<close>

lemma run_step_comps:
  assumes "run_step a s = Some s'"
  shows "r_comps s' = r_comps s"
proof (cases a)
  case Main
  with assms show ?thesis
    by (auto simp: main_step_def Let_def split: pc.splits if_splits option.splits nat.splits)
next
  case (CallStart p)
  with assms goroutine_frame(2) [of p s s' None] show ?thesis by simp
next
  case (StartReturns p res)
  with assms goroutine_frame(2) [of p s s' res] show ?thesis by simp
next
  case (CallStop p)
  with assms goroutine_frame(2) [of p s s' None] show ?thesis by simp
next
  case (StopReturns p res)
  with assms goroutine_frame(2) [of p s s' res] show ?thesis by simp
qed (use assms in \<open>auto simp: select_ctx_def select_fatal_def split: if_splits\<close>)

interpretation comps: invariant run_step "run_init l c now" "\<lambda>s. r_comps s = lc_comps l" for l c now
  by unfold_locales (simp add: run_init_def, simp add: run_step_comps)

lemma run_reach_comps: "run_reach l c now s \<Longrightarrow> r_comps s = lc_comps l"
  by (rule comps.holds)

section \<open>What is started has its dependencies started\<close>

definition deps_started :: "run \<Rightarrow> bool" where
  "deps_started s \<longleftrightarrow> (length (r_started s) = length (r_comps s) \<longrightarrow>
     (\<forall>i < length (r_comps s). r_started s ! i \<longrightarrow> (\<forall>d \<in> set (c_after (r_comps s ! i)). r_started s ! d)))"

lemma deps_started_cong:
  "r_started s' = r_started s \<Longrightarrow> r_comps s' = r_comps s \<Longrightarrow> deps_started s' = deps_started s"
  by (simp add: deps_started_def)

lemma deps_started_returns:
  assumes "life_inv s" "deps_started s" "start_returns p res s = Some s'"
  shows "deps_started s'"
proof (cases res)
  case (Some e)
  then have "r_started s' = r_started s \<and> r_comps s' = r_comps s"
    using assms(3) by (auto simp: start_returns_def Let_def split: pc.splits if_splits)
  with assms(2) deps_started_cong show ?thesis by blast
next
  case None
  obtain n where n: "r_pc s = Starting n" and p: "p < length (r_gs s)" "r_gs s ! p = Calling"
    using assms(3) by (auto simp: start_returns_def split: pc.splits if_splits)
  note f = starting_frame [OF assms(1) n p(1)]
  let ?i = "r_levels s ! n ! p"
  have wf: "wf_comps (r_comps s)" using assms(1) by (simp add: life_inv_def wf_lifecycle_def)
  have s': "r_started s' = (r_started s)[?i := True]" "r_comps s' = r_comps s"
    using assms(3) n p None by (auto simp: start_returns_def Let_def)
  have below: "r_started s ! d" if "d \<in> set (c_after (r_comps s ! ?i))" for d
    using f(7) [of d] dependency_in_range [OF wf f(3) that] level_above_dependencies [OF wf f(3) that] f(4)
    by (simp add: booted_below_def)
  have kept: "r_started s' ! d" if "r_started s ! d" for d
    using that by (cases "d = ?i") (simp_all add: s' f(3,10))
  have "r_started s' ! d" if i: "i < length (r_comps s)" "r_started s' ! i" "d \<in> set (c_after (r_comps s ! i))" for i d
  proof (cases "i = ?i")
    case True
    with i(3) below kept show ?thesis by simp
  next
    case False
    with i(2) have "r_started s ! i" by (simp add: s')
    with assms(2) i(1,3) f(10) kept show ?thesis by (simp add: deps_started_def)
  qed
  then show ?thesis by (simp add: deps_started_def s'(2))
qed

lemma deps_started_step:
  assumes "life_inv s" "deps_started s" "run_step a s = Some s'"
  shows "deps_started s'"
proof (cases a)
  case Main
  show ?thesis
  proof (cases "r_pc s")
    case Before
    with assms Main show ?thesis
      by (auto simp: main_step_def deps_started_def split: if_splits)
  next
    case (Starting n)
    with assms Main show ?thesis
      by (auto simp: main_step_def intro: deps_started_cong [THEN iffD2] split: if_splits option.splits)
  qed (use assms Main in \<open>auto simp: main_step_def deps_started_def Let_def split: if_splits nat.splits\<close>)
next
  case (StartReturns p res)
  with assms deps_started_returns show ?thesis by simp
next
  case (CallStart p)
  with assms(2,3) show ?thesis
    by (auto simp: call_start_def deps_started_def Let_def split: pc.splits if_splits option.splits)
next
  case (CallStop p)
  with assms(2,3) show ?thesis
    by (auto simp: call_stop_def deps_started_def Let_def split: pc.splits if_splits option.splits)
next
  case (StopReturns p res)
  with assms(2,3) show ?thesis
    by (auto simp: stop_returns_def deps_started_def Let_def split: pc.splits if_splits option.splits)
qed (use assms(2,3) in \<open>auto simp: select_ctx_def select_fatal_def deps_started_def split: if_splits\<close>)

interpretation deps: supported run_step "run_init l c now" "\<lambda>s. wf_lifecycle l \<longrightarrow> life_inv s"
    "\<lambda>s. wf_lifecycle l \<longrightarrow> deps_started s" for l c now
  by unfold_locales (simp add: deps_started_def run_init_def, blast intro: deps_started_step)

lemma deps_started_reach:
  assumes "wf_lifecycle l" "run_reach l c now s"
  shows "deps_started s"
  using deps.also_holds [OF assms(2)] assms(1) by simp

section \<open>Nothing runs without what it depends on\<close>

lemma dependency_up_starting:
  assumes inv: "life_inv s" and n: "r_pc s = Starting n"
    and i: "i < length (r_comps s)" "d < length (r_comps s)" "level_at s d < level_at s i"
    and running: "life_of s i \<in> {Booting, Up, Halting}"
  shows "life_of s d = Up"
proof -
  have low: "level_at s j \<noteq> n \<Longrightarrow> j < length (r_comps s) \<Longrightarrow> booted_below s n j" for j
    using inv n by (simp add: life_defs)
  have "level_at s i \<le> n"
    using low [of i] i(1) running by (cases "level_at s i = n") (auto simp: booted_below_def split: if_splits)
  with i low [of d] show ?thesis by (simp add: booted_below_def)
qed

lemma dependency_up_stopping:
  assumes inv: "life_inv s" and n: "r_pc s = Stopping n"
    and i: "i < length (r_comps s)" "d < length (r_comps s)" "level_at s d < level_at s i"
    and started: "r_started s ! i \<Longrightarrow> r_started s ! d" and running: "life_of s i \<in> {Booting, Up, Halting}"
  shows "life_of s d = Up"
proof -
  have low: "level_at s j \<noteq> n \<Longrightarrow> j < length (r_comps s) \<Longrightarrow> halted_from s n j" for j
    using inv n by (simp add: life_defs)
  have "r_started s ! i \<and> level_at s i \<le> n"
  proof (cases "level_at s i = n")
    case True
    obtain q where q: "q < length (r_gs s)" "r_levels s ! n ! q = i"
      using level_member [OF i(1)] True n inv by (auto simp: life_defs)
    then have "halts s n q" using inv n by (simp add: life_defs)
    with q running True show ?thesis by (auto simp: halts_def Let_def split: if_splits)
  next
    case False
    with low [of i] i running show ?thesis by (auto simp: halted_from_def split: if_splits)
  qed
  with started i low [of d] show ?thesis by (simp add: halted_from_def)
qed

lemma dependency_up:
  assumes inv: "life_inv s" and deps: "deps_started s"
    and i: "i < length (r_comps s)" and d: "d \<in> set (c_after (r_comps s ! i))"
    and running: "life_of s i \<in> {Booting, Up, Halting}"
  shows "life_of s d = Up"
proof -
  have wf: "wf_comps (r_comps s)" using inv by (simp add: life_inv_def wf_lifecycle_def)
  note range = dependency_in_range [OF wf i d] and lower = level_above_dependencies [OF wf i d]
  have all: "length (r_started s) = length (r_comps s)" if "r_pc s \<noteq> Before" "\<forall>e. r_pc s \<noteq> Result e"
    using inv that by (simp add: life_inv_def)
  have started: "r_started s ! d" if "r_started s ! i" "r_pc s \<noteq> Before" "\<forall>e. r_pc s \<noteq> Result e"
    using deps i d that all by (simp add: deps_started_def)
  show ?thesis
  proof (cases "r_pc s")
    case (NextLevel n)
    then have "booted_below s n i" "booted_below s n d" using inv i range by (simp_all add: life_defs)
    with running lower show ?thesis by (auto simp: booted_below_def split: if_splits)
  next
    case (Starting n)
    then show ?thesis by (rule dependency_up_starting [OF inv _ i range [THEN conjunct2] lower running])
  next
    case (NextStop m)
    then have h: "halted_from s m i" "halted_from s m d" using inv i range by (simp_all add: life_defs)
    with running lower started NextStop show ?thesis by (auto simp: halted_from_def split: if_splits)
  next
    case (Stopping n)
    with started show ?thesis by (intro dependency_up_stopping [OF inv _ i range [THEN conjunct2] lower _ running]) simp_all
  qed (use inv i range running in \<open>auto simp: life_defs\<close>)
qed

lemma dependency_up_reach:
  assumes "wf_lifecycle l" "run_reach l c now s"
    and "i < length (lc_comps l)" "d \<in> set (c_after (lc_comps l ! i))" "life_of s i \<in> {Booting, Up, Halting}"
  shows "life_of s d = Up"
  using dependency_up [OF life_inv_reach [OF assms(1,2)] deps_started_reach [OF assms(1,2)]] assms(3-5)
  by (simp add: run_reach_comps [OF assms(2)])

end
