(* ===== verification/Outbound.thy ===== *)
theory Outbound
  imports Resilience Served Notifications
begin

text \<open>
  The outgoing calls of the two example services: \<open>PricingClient.Quote\<close> (\<open>examples/orders/pricing.go\<close>) and
  \<open>providerClient.deliver\<close> (\<open>examples/notifications/provider.go\<close>). \<open>http.Client.Do\<close> is an argument, a round
  trip over the world; so is \<open>http.NewRequestWithContext\<close>, from the method, the URL and the bytes of
  the body, \<open>url.PathEscape\<close>, and what \<open>json.Decoder\<close> makes of a body. With a nil error \<open>Do\<close> returns a
  response with a body; the other case is a nil dereference.
\<close>

type_synonym new_request = "ctx \<Rightarrow> string \<Rightarrow> string \<Rightarrow> string option \<Rightarrow> goerr + request"

definition with_header :: "string \<Rightarrow> string \<Rightarrow> request \<Rightarrow> request" where
  "with_header k v req = req\<lparr>rq_header := (rq_header req)(k := v)\<rparr>"

text \<open>\<open>defer resp.Body.Close()\<close> around what is done with the response.\<close>

definition close_response :: "response \<Rightarrow> 'x world_scheme \<Rightarrow> 'x world_scheme" where
  "close_response r w = (case rs_body r of None \<Rightarrow> w | Some b \<Rightarrow> body_close b w)"

section \<open>Pricing\<close>

record 'x pricing_client =
  pc_baseURL :: string
  pc_http :: "'x round_tripper"

definition NewPricingClient :: "string \<Rightarrow> 'x round_tripper \<Rightarrow> 'x pricing_client" where
  "NewPricingClient baseURL c = \<lparr>pc_baseURL = baseURL, pc_http = c\<rparr>"

definition Quote ::
  "new_request \<Rightarrow> (body \<Rightarrow> 'x world_scheme \<Rightarrow> 'x world_scheme \<times> (goerr + int)) \<Rightarrow> 'x pricing_client
     \<Rightarrow> ctx \<Rightarrow> string \<Rightarrow> 'x world_scheme \<Rightarrow> 'x world_scheme \<times> (int \<times> goerr option) outcome"
where
  "Quote new_request decode p c sku w =
     (case new_request c MethodGet (pc_baseURL p @ ''/quote?sku='' @ sku) None of
        Inl e \<Rightarrow> (w, Ret (0, Some (Wrapped ''build pricing request'' e)))
      | Inr req \<Rightarrow> (case pc_http p w req of
          (w1, Panic v) \<Rightarrow> (w1, Panic v)
        | (w1, Ret (resp, Some e)) \<Rightarrow> (w1, Ret (0, Some (Wrapped ''call pricing'' e)))
        | (w1, Ret (None, None)) \<Rightarrow> (w1, Panic nil_dereference)
        | (w1, Ret (Some r, None)) \<Rightarrow>
            (case rs_body r of
               None \<Rightarrow> (w1, Panic nil_dereference)
             | Some b \<Rightarrow>
                 if rs_status r \<noteq> 200
                 then (close_response r w1, Ret (0, Some (Err (''pricing returned '' @ itoa (rs_status r)))))
                 else (case decode b w1 of
                     (w2, Inl e) \<Rightarrow> (close_response r w2, Ret (0, Some (Wrapped ''decode pricing response'' e)))
                   | (w2, Inr amount) \<Rightarrow> (close_response r w2, Ret (amount, None))))))"

section \<open>Delivery\<close>

record 'x provider_client =
  pv_baseURL :: string
  pv_http :: "'x round_tripper"

definition MethodPut_body :: "notification \<Rightarrow> goerr + string" where
  "MethodPut_body n = Inr (json_object
     [(''recipient'', json_string (n_Recipient n)), (''message'', json_string (n_Message n))])"

definition deliver ::
  "new_request \<Rightarrow> (string \<Rightarrow> string) \<Rightarrow> 'x provider_client \<Rightarrow> ctx \<Rightarrow> notification
     \<Rightarrow> 'x world_scheme \<Rightarrow> 'x world_scheme \<times> goerr option outcome"
where
  "deliver new_request path_escape p c n w =
     (case MethodPut_body n of
        Inl e \<Rightarrow> (w, Ret (Some (Wrapped ''encode provider request'' e)))
      | Inr bytes \<Rightarrow>
      (case new_request c MethodPut (pv_baseURL p @ ''/deliveries/'' @ path_escape (n_ID n)) (Some bytes) of
        Inl e \<Rightarrow> (w, Ret (Some (Wrapped ''build provider request'' e)))
      | Inr req \<Rightarrow> (case pv_http p w (with_header ''Content-Type'' ''application/json'' req) of
          (w1, Panic v) \<Rightarrow> (w1, Panic v)
        | (w1, Ret (resp, Some e)) \<Rightarrow> (w1, Ret (Some (Wrapped ''call provider'' e)))
        | (w1, Ret (None, None)) \<Rightarrow> (w1, Panic nil_dereference)
        | (w1, Ret (Some r, None)) \<Rightarrow>
            (case rs_body r of
               None \<Rightarrow> (w1, Panic nil_dereference)
             | Some b \<Rightarrow>
                 (close_response r w1,
                  Ret (if rs_status r < 200 \<or> 300 \<le> rs_status r
                       then Some (Err (''provider returned '' @ itoa (rs_status r))) else None))))))"

section \<open>What a call leaves behind\<close>

lemma closed_body: "body_handle b = Some i \<Longrightarrow> closed (bodies (body_close b w) i)"
  by (simp add: bodies_close)

text \<open>
  The outgoing calls over any client. Both close the body of every response they are given, and with
  it the context its reader owns, whatever they make of it; \<open>Quote\<close> succeeds exactly on a 200 that
  decodes and \<open>deliver\<close> exactly on a 2xx; a failure of the client comes back wrapped, so that a caller
  can still ask for what the client stack put there (an open circuit, a deadline).
\<close>

definition released :: "body \<Rightarrow> 'x world_scheme \<Rightarrow> bool" where
  "released b w \<longleftrightarrow> (\<forall>i. body_handle b = Some i \<longrightarrow> closed (bodies w i)) \<and> set (body_tokens b) \<subseteq> set (cancelled w)"

lemma released_close [simp]: "released b (body_close b w)"
  by (auto simp: released_def closed_body)

lemma quote_closes_and_reports:
  assumes "new_request c MethodGet (pc_baseURL p @ ''/quote?sku='' @ sku) None = Inr req"
    and "pc_http p w req = (w1, Ret (resp, err))"
    and "err = None \<longrightarrow> (\<exists>r b. resp = Some r \<and> rs_body r = Some b)"
    and "Quote new_request decode p c sku w = (w2, out)"
  shows "case err of
      Some e \<Rightarrow> w2 = w1 \<and> out = Ret (0, Some (Wrapped ''call pricing'' e))
    | None \<Rightarrow> released (the (rs_body (the resp))) w2
        \<and> ((\<exists>a. out = Ret (a, None)) \<longleftrightarrow> rs_status (the resp) = 200 \<and> (\<exists>a. snd (decode (the (rs_body (the resp))) w1) = Inr a))"
proof (cases err)
  case (Some e)
  with assms show ?thesis by (cases resp) (auto simp: Quote_def)
next
  case None
  with assms(3) obtain r b where r: "resp = Some r" "rs_body r = Some b" by blast
  with None assms show ?thesis
    by (cases "decode b w1"; cases "snd (decode b w1)")
       (auto simp: Quote_def close_response_def split: if_splits)
qed

lemma deliver_closes_and_reports:
  assumes "new_request c MethodPut (pv_baseURL pv @ ''/deliveries/'' @ path_escape (n_ID n))
        (Some (json_object [(''recipient'', json_string (n_Recipient n)), (''message'', json_string (n_Message n))])) = Inr req"
    and "pv_http pv w (with_header ''Content-Type'' ''application/json'' req) = (w1, Ret (resp, err))"
    and "err = None \<longrightarrow> (\<exists>r b. resp = Some r \<and> rs_body r = Some b)"
    and "deliver new_request path_escape pv c n w = (w2, out)"
  shows "case err of
      Some e \<Rightarrow> w2 = w1 \<and> out = Ret (Some (Wrapped ''call provider'' e))
    | None \<Rightarrow> released (the (rs_body (the resp))) w2
        \<and> (out = Ret None \<longleftrightarrow> 200 \<le> rs_status (the resp) \<and> rs_status (the resp) < 300)"
proof (cases err)
  case (Some e)
  with assms show ?thesis by (cases resp) (auto simp: deliver_def MethodPut_body_def)
next
  case None
  with assms(3) obtain r b where r: "resp = Some r" "rs_body r = Some b" by blast
  with None assms show ?thesis
    by (auto simp: deliver_def MethodPut_body_def close_response_def split: if_splits)
qed

end
