(* ===== verification/Consumer.thy ===== *)
theory Consumer
  imports Machine Prelude
begin

text \<open>
  \<open>examples/worker/consumer.go\<close>: a component that owns a goroutine. A consumer may be started again after
  a stop, so there is one loop, and one \<open>done\<close> channel, for every \<open>Start\<close> that found it not running; the
  fields \<open>cancel\<close> and \<open>done\<close> are those of the last. The closure of a loop has its own context, but
  \<open>defer close(c.done)\<close> reads the field when the goroutine runs its first statement: the channel a loop
  will close is the last one made by then. The calls of \<open>Stop\<close> under way are the channel and the
  context each has captured, by number, and whether it has cancelled yet. Mutex sections are single
  steps. Closing a closed channel panics, and an unrecovered panic in a goroutine ends the process.
\<close>

record loop =
  lp_cancelled :: bool
  lp_closes :: "nat option"
  lp_ended :: bool

record consumer =
  cs_running :: bool
  cs_loops :: "loop list"
  cs_closed :: "bool list"
  cs_stops :: "(nat \<times> bool) list"
  cs_crashed :: bool

definition NewConsumer :: consumer where
  "NewConsumer = \<lparr>cs_running = False, cs_loops = [], cs_closed = [], cs_stops = [], cs_crashed = False\<rparr>"

definition consumer_Start :: "consumer \<Rightarrow> consumer" where
  "consumer_Start c =
     (if cs_running c then c
      else c\<lparr>cs_running := True,
             cs_loops := cs_loops c @ [\<lparr>lp_cancelled = False, lp_closes = None, lp_ended = False\<rparr>],
             cs_closed := cs_closed c @ [False]\<rparr>)"

text \<open>The section of \<open>Stop\<close>: with nothing running it returns nil there; otherwise it has captured the last loop.\<close>

definition consumer_Stop :: "consumer \<Rightarrow> consumer" where
  "consumer_Stop c =
     (if \<not> cs_running c then c
      else c\<lparr>cs_running := False, cs_stops := cs_stops c @ [(length (cs_loops c) - 1, False)]\<rparr>)"

definition stop_cancels :: "nat \<Rightarrow> consumer \<Rightarrow> consumer option" where
  "stop_cancels p c =
     (if p < length (cs_stops c) \<and> \<not> snd (cs_stops c ! p)
      then let k = fst (cs_stops c ! p) in
        Some (c\<lparr>cs_loops := (cs_loops c)[k := (cs_loops c ! k)\<lparr>lp_cancelled := True\<rparr>],
                cs_stops := (cs_stops c)[p := (k, True)]\<rparr>)
      else None)"

text \<open>The \<open>select\<close> at the end of \<open>Stop\<close>: nil once the channel is closed, or the error of the ended context.\<close>

definition stop_answer :: "nat \<Rightarrow> goerr option \<Rightarrow> consumer \<Rightarrow> consumer option" where
  "stop_answer p res c =
     (if p < length (cs_stops c) \<and> snd (cs_stops c ! p)
          \<and> (res = None \<longrightarrow> cs_closed c ! fst (cs_stops c ! p))
      then Some (c\<lparr>cs_stops := take p (cs_stops c) @ drop (Suc p) (cs_stops c)\<rparr>) else None)"

text \<open>
  The goroutine: its first statement; then a tick changes nothing, and when it sees its context
  cancelled it returns, which closes the channel it read.
\<close>

definition loop_begins :: "nat \<Rightarrow> consumer \<Rightarrow> consumer option" where
  "loop_begins k c =
     (if k < length (cs_loops c) \<and> lp_closes (cs_loops c ! k) = None
      then Some (c\<lparr>cs_loops := (cs_loops c)[k := (cs_loops c ! k)\<lparr>lp_closes := Some (length (cs_closed c) - 1)\<rparr>]\<rparr>)
      else None)"

definition loop_exits :: "nat \<Rightarrow> consumer \<Rightarrow> consumer option" where
  "loop_exits k c =
     (if k < length (cs_loops c) \<and> lp_cancelled (cs_loops c ! k) \<and> \<not> lp_ended (cs_loops c ! k)
      then (case lp_closes (cs_loops c ! k) of None \<Rightarrow> None
          | Some d \<Rightarrow>
              if cs_closed c ! d then Some (c\<lparr>cs_crashed := True\<rparr>)
              else Some (c\<lparr>cs_loops := (cs_loops c)[k := (cs_loops c ! k)\<lparr>lp_ended := True\<rparr>],
                           cs_closed := (cs_closed c)[d := True]\<rparr>))
      else None)"

definition consumer_Running :: "consumer \<Rightarrow> bool" where
  "consumer_Running c = cs_running c"

datatype consumer_action =
    CStart | CStop | CCancel nat | CAnswer nat "goerr option" | CBegin nat | CExit nat | CTick

fun consumer_step :: "consumer_action \<Rightarrow> consumer \<Rightarrow> consumer option" where
  "consumer_step CStart c = (if cs_crashed c then None else Some (consumer_Start c))"
| "consumer_step CStop c = (if cs_crashed c then None else Some (consumer_Stop c))"
| "consumer_step (CCancel p) c = (if cs_crashed c then None else stop_cancels p c)"
| "consumer_step (CAnswer p res) c = (if cs_crashed c then None else stop_answer p res c)"
| "consumer_step (CBegin k) c = (if cs_crashed c then None else loop_begins k c)"
| "consumer_step (CExit k) c = (if cs_crashed c then None else loop_exits k c)"
| "consumer_step CTick c = (if cs_crashed c then None else Some c)"

text \<open>
  What the code relies on: when \<open>Start\<close> makes a new loop, every earlier one has run its first statement.
  With one \<open>Start\<close>, as under \<open>lifecycle\<close>, there is no earlier one.
\<close>

definition prompt :: "consumer_action \<Rightarrow> consumer \<Rightarrow> bool" where
  "prompt a c \<longleftrightarrow> (a = CStart \<and> \<not> cs_running c \<longrightarrow> list_all (\<lambda>l. lp_closes l \<noteq> None) (cs_loops c))"

definition prompt_step :: "consumer_action \<Rightarrow> consumer \<Rightarrow> consumer option" where
  "prompt_step a c = (if prompt a c then consumer_step a c else None)"

abbreviation consumer_reach :: "consumer \<Rightarrow> bool" where
  "consumer_reach \<equiv> reaches prompt_step NewConsumer"

section \<open>Every loop has its owner\<close>

text \<open>
  A loop is the running one, or a stop has captured it and is about to cancel it, or it is cancelled;
  a loop that has ended was cancelled. What a stop that has cancelled waits for is cancelled. A loop
  closes the channel made with it, at its end; only the last may still have to begin.
\<close>

definition owned :: "consumer \<Rightarrow> nat \<Rightarrow> bool" where
  "owned c k \<longleftrightarrow>
     (if cs_running c \<and> Suc k = length (cs_loops c)
      then \<not> lp_cancelled (cs_loops c ! k) \<and> (\<forall>b. (k, b) \<notin> set (cs_stops c))
      else (k, False) \<in> set (cs_stops c) \<or> lp_cancelled (cs_loops c ! k))
     \<and> (lp_ended (cs_loops c ! k) \<longrightarrow> lp_cancelled (cs_loops c ! k))
     \<and> ((k, True) \<in> set (cs_stops c) \<longrightarrow> lp_cancelled (cs_loops c ! k))
     \<and> (cs_closed c ! k \<longleftrightarrow> lp_ended (cs_loops c ! k))
     \<and> (lp_closes (cs_loops c ! k) = None \<longrightarrow> Suc k = length (cs_loops c) \<and> \<not> lp_ended (cs_loops c ! k))
     \<and> (lp_closes (cs_loops c ! k) \<noteq> None \<longrightarrow> lp_closes (cs_loops c ! k) = Some k)"

definition consumer_inv :: "consumer \<Rightarrow> bool" where
  "consumer_inv c \<longleftrightarrow> (\<forall>k < length (cs_loops c). owned c k)
     \<and> (\<forall>(k, b) \<in> set (cs_stops c). k < length (cs_loops c))
     \<and> (cs_running c \<longrightarrow> cs_loops c \<noteq> [])
     \<and> length (cs_closed c) = length (cs_loops c) \<and> \<not> cs_crashed c"

lemma stops_in_range: "consumer_inv c \<Longrightarrow> (k, b) \<in> set (cs_stops c) \<Longrightarrow> k < length (cs_loops c)"
  by (auto simp: consumer_inv_def)

lemma inv_Start:
  assumes "consumer_inv c" "prompt CStart c"
  shows "consumer_inv (consumer_Start c)"
proof (cases "cs_running c")
  case False
  let ?c = "consumer_Start c"
  have loops: "cs_loops ?c = cs_loops c @ [\<lparr>lp_cancelled = False, lp_closes = None, lp_ended = False\<rparr>]"
    "cs_stops ?c = cs_stops c" "cs_running ?c" "cs_closed ?c = cs_closed c @ [False]" "cs_crashed ?c = cs_crashed c"
    using False by (simp_all add: consumer_Start_def)
  have len: "length (cs_closed c) = length (cs_loops c)" using assms(1) by (simp add: consumer_inv_def)
  have begun: "lp_closes (cs_loops c ! k) \<noteq> None" if "k < length (cs_loops c)" for k
    using assms(2) False that by (simp add: prompt_def list_all_length)
  have new: "(length (cs_loops c), b) \<notin> set (cs_stops c)" for b
    using stops_in_range [OF assms(1)] by blast
  have "owned ?c k" if "k < length (cs_loops ?c)" for k
  proof (cases "k < length (cs_loops c)")
    case True
    with assms(1) have "owned c k" by (simp add: consumer_inv_def)
    with True False begun [OF True] show ?thesis by (auto simp: owned_def loops nth_append len)
  next
    case top: False
    with that have k: "k = length (cs_loops c)" by (simp add: loops)
    with new show ?thesis by (simp add: owned_def loops len nth_append)
  qed
  with assms(1) show ?thesis by (auto simp: consumer_inv_def loops)
qed (simp add: consumer_Start_def assms(1))

lemma inv_Stop:
  assumes "consumer_inv c"
  shows "consumer_inv (consumer_Stop c)"
proof (cases "cs_running c")
  case True
  let ?c = "consumer_Stop c"
  have shape: "cs_loops ?c = cs_loops c" "cs_stops ?c = cs_stops c @ [(length (cs_loops c) - 1, False)]" "\<not> cs_running ?c"
    "cs_closed ?c = cs_closed c" "cs_crashed ?c = cs_crashed c"
    using True by (simp_all add: consumer_Stop_def)
  have "owned ?c k" if k: "k < length (cs_loops c)" for k
  proof -
    have "owned c k" using assms k by (simp add: consumer_inv_def)
    then show ?thesis
      using True k by (cases "Suc k = length (cs_loops c)") (auto simp: owned_def shape)
  qed
  with assms True show ?thesis by (auto simp: consumer_inv_def shape)
qed (simp add: consumer_Stop_def assms)

lemma inv_cancels:
  assumes "consumer_inv c" "stop_cancels p c = Some c'"
  shows "consumer_inv c'"
proof -
  obtain k where p: "p < length (cs_stops c)" "cs_stops c ! p = (k, False)"
    using assms(2) by (cases "cs_stops c ! p") (auto simp: stop_cancels_def split: if_splits)
  then have mem: "(k, False) \<in> set (cs_stops c)" by (metis nth_mem)
  have k: "k < length (cs_loops c)" by (rule stops_in_range [OF assms(1) mem])
  have c': "cs_loops c' = (cs_loops c)[k := (cs_loops c ! k)\<lparr>lp_cancelled := True\<rparr>]"
    "cs_stops c' = (cs_stops c)[p := (k, True)]" "cs_running c' = cs_running c"
    "cs_closed c' = cs_closed c" "cs_crashed c' = cs_crashed c"
    using assms(2) p by (auto simp: stop_cancels_def)
  have stops: "set (cs_stops c') \<subseteq> insert (k, True) (set (cs_stops c))"
    unfolding c' by (rule set_update_subset_insert)
  have others: "(j, False) \<in> set (cs_stops c) \<Longrightarrow> j \<noteq> k \<Longrightarrow> (j, False) \<in> set (cs_stops c')" for j
    using p unfolding c' by (metis in_set_conv_nth length_list_update nth_list_update_neq prod.inject)
  have "owned c' j" if "j < length (cs_loops c)" for j
  proof (cases "j = k")
    case True
    have "owned c k" using assms(1) k by (simp add: consumer_inv_def)
    with mem have "\<not> (cs_running c \<and> Suc k = length (cs_loops c))" by (auto simp: owned_def)
    with \<open>owned c k\<close> True k show ?thesis by (auto simp: owned_def c')
  next
    case False
    with assms(1) that have "owned c j" by (simp add: consumer_inv_def)
    moreover from False have "(j, b) \<in> set (cs_stops c') \<Longrightarrow> (j, b) \<in> set (cs_stops c)" for b
      using stops by blast
    ultimately show ?thesis using False others [of j] by (auto simp: owned_def c'(1,3-5))
  qed
  with assms(1) stops k show ?thesis by (auto simp: consumer_inv_def c'(1,3-5))
qed

lemma inv_answer:
  assumes "consumer_inv c" "stop_answer p res c = Some c'"
  shows "consumer_inv c'"
proof -
  obtain k where p: "p < length (cs_stops c)" "cs_stops c ! p = (k, True)"
    using assms(2) by (cases "cs_stops c ! p") (auto simp: stop_answer_def split: if_splits)
  have c': "cs_loops c' = cs_loops c" "cs_stops c' = take p (cs_stops c) @ drop (Suc p) (cs_stops c)" "cs_running c' = cs_running c"
    "cs_closed c' = cs_closed c" "cs_crashed c' = cs_crashed c"
    using assms(2) by (auto simp: stop_answer_def split: if_splits)
  have all: "set (cs_stops c) = insert (k, True) (set (cs_stops c'))"
    using id_take_nth_drop [OF p(1)] p(2) unfolding c' by (metis Un_insert_right list.simps(15) set_append)
  have "owned c' j" if "j < length (cs_loops c)" for j
  proof -
    have "owned c j" using assms(1) that by (simp add: consumer_inv_def)
    then show ?thesis unfolding owned_def all c'(1,3-5) by auto
  qed
  with assms(1) show ?thesis by (auto simp: consumer_inv_def c'(1,3-5) all)
qed

lemma inv_begins:
  assumes "consumer_inv c" "loop_begins k c = Some c'"
  shows "consumer_inv c'"
proof -
  have k: "k < length (cs_loops c)" "lp_closes (cs_loops c ! k) = None"
    using assms(2) by (auto simp: loop_begins_def split: if_splits)
  have "owned c k" "length (cs_closed c) = length (cs_loops c)" using assms(1) k(1) by (simp_all add: consumer_inv_def)
  then have last: "length (cs_closed c) - 1 = k" using k(2) by (auto simp: owned_def dest: sym)
  have c': "c' = c\<lparr>cs_loops := (cs_loops c)[k := (cs_loops c ! k)\<lparr>lp_closes := Some k\<rparr>]\<rparr>"
    using assms(2) k unfolding loop_begins_def last by simp
  have "owned c' j" if "j < length (cs_loops c)" for j
  proof -
    have "owned c j" using assms(1) that by (simp add: consumer_inv_def)
    with k that show ?thesis by (cases "j = k") (auto simp: owned_def c')
  qed
  with assms(1) show ?thesis by (auto simp: consumer_inv_def c')
qed

lemma inv_exits:
  assumes "consumer_inv c" "loop_exits k c = Some c'"
  shows "consumer_inv c'"
proof -
  have k: "k < length (cs_loops c)" "lp_cancelled (cs_loops c ! k)" "\<not> lp_ended (cs_loops c ! k)"
    "lp_closes (cs_loops c ! k) \<noteq> None"
    using assms(2) by (auto simp: loop_exits_def split: if_splits option.splits)
  have own: "owned c k" and len: "length (cs_closed c) = length (cs_loops c)"
    using assms(1) k(1) by (simp_all add: consumer_inv_def)
  have closes: "lp_closes (cs_loops c ! k) = Some k" "\<not> cs_closed c ! k"
    using own k(3,4) by (auto simp: owned_def)
  have c': "c' = c\<lparr>cs_loops := (cs_loops c)[k := (cs_loops c ! k)\<lparr>lp_ended := True\<rparr>], cs_closed := (cs_closed c)[k := True]\<rparr>"
    using assms(2) k closes by (simp add: loop_exits_def)
  have "owned c' j" if "j < length (cs_loops c)" for j
  proof -
    have "owned c j" using assms(1) that by (simp add: consumer_inv_def)
    with k that show ?thesis by (cases "j = k") (auto simp: owned_def c' len closes)
  qed
  with assms(1) show ?thesis by (auto simp: consumer_inv_def c')
qed

lemma consumer_inv_step: "consumer_inv c \<Longrightarrow> prompt_step a c = Some c' \<Longrightarrow> consumer_inv c'"
  by (cases a) (auto simp: prompt_step_def inv_Start inv_Stop
      intro: inv_cancels inv_answer inv_begins inv_exits split: if_splits)

interpretation consumer: invariant prompt_step NewConsumer consumer_inv
  by unfold_locales (simp add: consumer_inv_def NewConsumer_def, rule consumer_inv_step)

section \<open>Properties\<close>

text \<open>The consumer, started and stopped by any number of goroutines, where no \<open>Start\<close> comes before an earlier
  loop has begun. Nothing panics. A \<open>Stop\<close> that found it running returns nil only after the loop it
  captured has ended; a loop ends only after a \<open>Stop\<close> captured it; and no loop is left to itself: with
  nothing running and no \<open>Stop\<close> before its \<open>cancel\<close>, every loop there ever was is cancelled, and each that
  has not ended has a step to make.\<close>

lemma stop_waits_for_its_loop:
  assumes "consumer_reach c"
  shows "\<not> cs_crashed c
    \<and> (\<forall>p c'. consumer_step (CAnswer p None) c = Some c' \<longrightarrow>
        (let k = fst (cs_stops c ! p) in k < length (cs_loops c) \<and> lp_ended (cs_loops c ! k)))
    \<and> (cs_running c \<longrightarrow> \<not> lp_ended (last (cs_loops c)) \<and> \<not> lp_cancelled (last (cs_loops c)))
    \<and> (\<not> cs_running c \<and> (\<forall>k. (k, False) \<notin> set (cs_stops c)) \<longrightarrow>
        (\<forall>k < length (cs_loops c). lp_cancelled (cs_loops c ! k)
          \<and> (\<not> lp_ended (cs_loops c ! k) \<longrightarrow>
               consumer_step (CBegin k) c \<noteq> None \<or> consumer_step (CExit k) c \<noteq> None)))"
proof -
  have inv: "consumer_inv c" by (rule consumer.holds [OF assms])
  then have alive: "\<not> cs_crashed c" by (simp add: consumer_inv_def)
  have own: "owned c k" if "k < length (cs_loops c)" for k
    using inv that by (simp add: consumer_inv_def)
  have "fst (cs_stops c ! p) < length (cs_loops c) \<and> lp_ended (cs_loops c ! fst (cs_stops c ! p))"
    if "consumer_step (CAnswer p None) c = Some c'" for p c'
  proof -
    have p: "p < length (cs_stops c)" "cs_closed c ! fst (cs_stops c ! p)"
      using that by (auto simp: stop_answer_def split: if_splits)
    have "(fst (cs_stops c ! p), snd (cs_stops c ! p)) \<in> set (cs_stops c)" using p(1) by simp
    from stops_in_range [OF inv this] p(2) own show ?thesis by (auto simp: owned_def)
  qed
  moreover have "\<not> lp_ended (last (cs_loops c)) \<and> \<not> lp_cancelled (last (cs_loops c))" if "cs_running c"
  proof -
    have ne: "cs_loops c \<noteq> []" using inv that by (simp add: consumer_inv_def)
    then have "owned c (length (cs_loops c) - 1)" by (intro own) simp
    with that ne show ?thesis by (auto simp: owned_def last_conv_nth)
  qed
  moreover have "lp_cancelled (cs_loops c ! k)
      \<and> (\<not> lp_ended (cs_loops c ! k) \<longrightarrow> consumer_step (CBegin k) c \<noteq> None \<or> consumer_step (CExit k) c \<noteq> None)"
    if "\<not> cs_running c" "\<forall>k. (k, False) \<notin> set (cs_stops c)" "k < length (cs_loops c)" for k
    using own [OF that(3)] that
    by (cases "lp_closes (cs_loops c ! k)") (simp_all add: owned_def alive loop_begins_def loop_exits_def)
  ultimately show ?thesis using alive by (auto simp: Let_def)
qed

lemma stop_waits_for_its_loop_witness:
  "\<exists>c. run_all prompt_step [CStart, CBegin 0, CStop, CCancel 0] NewConsumer = Some c \<and> length (cs_loops c) = 1
    \<and> lp_cancelled (cs_loops c ! 0)"
proof -
  have "\<exists>c. run_all prompt_step [CStart, CBegin 0, CStop, CCancel 0] NewConsumer = Some c \<and> \<not> cs_running c
      \<and> cs_stops c = [(0, True)] \<and> length (cs_loops c) = 1"
    by (simp add: prompt_step_def prompt_def NewConsumer_def consumer_Start_def consumer_Stop_def stop_cancels_def
        loop_begins_def)
  then obtain c where c: "run_all prompt_step [CStart, CBegin 0, CStop, CCancel 0] NewConsumer = Some c" "\<not> cs_running c"
    "cs_stops c = [(0, True)]" "length (cs_loops c) = 1"
    by blast
  with stop_waits_for_its_loop [OF reachesI [OF c(1)]] show ?thesis by auto
qed

text \<open>
  What the comments promise beyond that. A second \<open>Stop\<close> returns nil at once while the first still waits,
  with the loop alive; \<open>Running\<close> says false of a loop that is alive; and a \<open>Start\<close> in that window has two
  loops alive at once.
\<close>

lemma second_stop_does_not_wait:
  "\<exists>c. run_all consumer_step [CStart, CBegin 0, CStop, CStop] NewConsumer = Some c
    \<and> consumer_Stop c = c \<and> \<not> consumer_Running c \<and> \<not> lp_ended (cs_loops c ! 0)
    \<and> (\<forall>c'. consumer_step CStart c = Some c' \<longrightarrow>
          length (filter (\<lambda>l. \<not> lp_ended l) (cs_loops c')) = 2)"
  by (simp add: NewConsumer_def consumer_Start_def consumer_Stop_def consumer_Running_def loop_begins_def)

text \<open>
  Without the restriction a loop that begins late reads the channel of the next \<open>Start\<close>. It closes that
  one: the \<open>Stop\<close> of the second loop returns nil while that loop is alive, the channel the first \<open>Stop\<close>
  waits for is never closed, and when the second loop ends it closes a closed channel and the process
  panics.
\<close>

definition late_loop :: "consumer_action list" where
  "late_loop = [CStart, CStop, CCancel 0, CStart, CBegin 1, CBegin 0, CExit 0, CStop, CCancel 1]"

lemma late_loop_closes_the_wrong_channel:
  "case run_all consumer_step late_loop NewConsumer of None \<Rightarrow> False
   | Some c \<Rightarrow> consumer_step (CAnswer 1 None) c \<noteq> None \<and> \<not> lp_ended (cs_loops c ! 1)
      \<and> consumer_step (CAnswer 0 None) c = None \<and> lp_ended (cs_loops c ! 0)
      \<and> (\<exists>c'. consumer_step (CExit 1) c = Some c' \<and> cs_crashed c')"
  by (simp add: late_loop_def NewConsumer_def consumer_Start_def consumer_Stop_def stop_cancels_def stop_answer_def
      loop_begins_def loop_exits_def)

end
