(* ===== verification/Stacks.thy ===== *)
theory Stacks
  imports Lifecycle_Deps Probes Http_Server Kit Outbound Consumer
begin

text \<open>
  The composition roots of the three examples: \<open>buildStack\<close> of \<open>examples/orders/stack.go\<close> and
  \<open>examples/notifications/stack.go\<close>, and \<open>buildWorkerStack\<close> of \<open>examples/worker/stack.go\<close>. A function value
  handed to the lifecycle is named by what it calls (\<open>fn\<close> gives it its identity). The gates of a
  \<open>Health\<close> are reached through a pointer, so the admin server is a function of the health as it is
  when it answers. What the libraries bring is the record \<open>library\<close>; \<open>lib_Do\<close> is \<open>http.Client.Do\<close>.
\<close>

section \<open>What the roots are given\<close>

record 'x library =
  lib_parse_time :: "string \<Rightarrow> time option"
  lib_status_text :: "int \<Rightarrow> string"
  lib_otel :: otel_globals
  lib_transport :: "transport_config \<Rightarrow> 'x round_tripper"
  lib_Do :: "'x http_client \<Rightarrow> 'x round_tripper"
  lib_path :: "srequest \<Rightarrow> string"

definition zero_client_options :: "'x client_options" where
  "zero_client_options =
     \<lparr>co_dial_timeout = 0, co_tls_handshake_timeout = 0, co_response_header_timeout = 0, co_idle_conn_timeout = 0,
      co_expect_continue_timeout = 0, co_max_idle_conns = 0, co_max_idle_conns_per_host = 0, co_timeout = 0,
      co_tls_config = None, co_middleware = None\<rparr>"

definition zero_breaker_policy :: breaker_policy where
  "zero_breaker_policy = \<lparr>failure_threshold = 0, cooldown = 0, trip_if = None\<rparr>"

text \<open>\<open>httpserver.Options{Addr: addr, OnServeError: lc.Fatal}\<close>.\<close>

definition fatal_options :: "string \<Rightarrow> server_options" where
  "fatal_options addr =
     \<lparr>so_Addr = addr, so_ReadHeaderTimeout = 0, so_ReadTimeout = 0, so_WriteTimeout = 0, so_IdleTimeout = 0,
      so_MaxHeaderBytes = 0, so_OnServeError = True\<rparr>"

definition admin_server :: "'x library \<Rightarrow> string \<Rightarrow> health \<Rightarrow> server" where
  "admin_server lib addr h = server_New (\<lambda>r. AdminMux h (lib_path lib r) r) (fatal_options addr)"

text \<open>The lines the three roots share: a lifecycle whose hooks are the two edges of the health.\<close>

definition health_lifecycle :: "(string \<Rightarrow> func) \<Rightarrow> nat \<Rightarrow> duration \<Rightarrow> bool \<Rightarrow> lifecycle" where
  "health_lifecycle fn self delay logger =
     OnDrain (OnStarted (lifecycle_New self \<lparr>cfg_DrainDelay = delay, cfg_StopTimeout = 0, cfg_Logger = logger\<rparr>)
       (fn ''health.Up'')) (fn ''health.Drain'')"

section \<open>Orders\<close>

record appStackConfig =
  ac_APIAddr :: string
  ac_AdminAddr :: string
  ac_DrainDelay :: duration
  ac_Logger :: bool
  ac_Handler :: handler
  ac_PricingURL :: string

record 'x appStack =
  as_lc :: lifecycle
  as_health :: health
  as_api :: server
  as_admin :: "health \<Rightarrow> server"
  as_pricing :: "'x pricing_client"

definition breakerThreshold :: int where "breakerThreshold = 3"

definition orders_client_options :: "'x kit_options" where
  "orders_client_options =
     \<lparr>ko_http = zero_client_options,
      ko_retry = \<lparr>max_attempts = 3, pol_backoff = Some (Constant (10 * millisecond)), retry_methods = None, retry_if = None\<rparr>,
      ko_telemetry = zero_otel,
      ko_breaker = zero_breaker_policy\<lparr>failure_threshold := breakerThreshold\<rparr>,
      ko_disable_breaker = False\<rparr>"

definition orders_buildStack ::
  "'x library \<Rightarrow> (string \<Rightarrow> func) \<Rightarrow> nat \<Rightarrow> nat \<Rightarrow> appStackConfig \<Rightarrow> 'x world_scheme \<Rightarrow> 'x world_scheme \<times> 'x appStack"
where
  "orders_buildStack lib fn self k cfg w =
     (let lc0 = health_lifecycle fn self (ac_DrainDelay cfg) (ac_Logger cfg);
          (lc1, store) = lifecycle_Add lc0 ''store'' (Some (fn ''store.Open'')) (Some (fn ''store.Close'')) [];
          api = server_New (ac_Handler cfg) (fatal_options (ac_APIAddr cfg));
          (lc2, _) = lifecycle_Add lc1 ''api'' (Some (fn ''api.Start'')) (Some (fn ''api.Shutdown'')) [After [store]];
          (lc3, _) = lifecycle_Add lc2 ''admin'' (Some (fn ''admin.Start'')) (Some (fn ''admin.Shutdown'')) [After [store]];
          (w1, client) = NewClient (lib_parse_time lib) (lib_status_text lib) (lib_otel lib) (lib_transport lib) k
            orders_client_options w;
          pricing = NewPricingClient (ac_PricingURL cfg) (lib_Do lib client);
          (lc4, _) = lifecycle_Add lc3 ''pricing-client'' (Some (fn ''noop'')) (Some (fn ''pricing.CloseIdleConnections'')) []
      in (w1, \<lparr>as_lc = lc4, as_health = NewHealth, as_api = api,
           as_admin = admin_server lib (ac_AdminAddr cfg), as_pricing = pricing\<rparr>))"

section \<open>Notifications\<close>

record stackConfig =
  sc_APIAddr :: string
  sc_AdminAddr :: string
  sc_ProviderURL :: string
  sc_DrainDelay :: duration
  sc_Logger :: bool
  sc_Retry :: policy

record 'x notificationStack =
  nk_lifecycle :: lifecycle
  nk_health :: health
  nk_api :: server
  nk_admin :: "health \<Rightarrow> server"
  nk_provider :: "'x provider_client"
  nk_worker :: system

text \<open>The handler of the API is \<open>newHandler\<close> over the store; it is an argument here.\<close>

definition notifications_buildStack ::
  "'x library \<Rightarrow> (string \<Rightarrow> func) \<Rightarrow> nat \<Rightarrow> nat \<Rightarrow> stackConfig \<Rightarrow> handler \<Rightarrow> 'x world_scheme
     \<Rightarrow> 'x world_scheme \<times> 'x notificationStack"
where
  "notifications_buildStack lib fn self k cfg handler w =
     (let lc0 = health_lifecycle fn self (sc_DrainDelay cfg) (sc_Logger cfg);
          w1 = install_breaker k zero_breaker_policy w;
          client = httpclient_New (lib_transport lib) (zero_client_options\<lparr>co_middleware := Some (httpclient_Chain
            [Breaker k, Retry (lib_parse_time lib) (sc_Retry cfg), Client (lib_status_text lib) (lib_otel lib) zero_otel])\<rparr>);
          provider = \<lparr>pv_baseURL = sc_ProviderURL cfg, pv_http = lib_Do lib client\<rparr>;
          (lc1, clientRef) = lifecycle_Add lc0 ''provider-client''
            (Some (fn ''noop'')) (Some (fn ''provider.closeIdleConnections'')) [];
          (lc2, workerRef) = lifecycle_Add lc1 ''delivery-worker''
            (Some (fn ''worker.start'')) (Some (fn ''worker.stop'')) [After [clientRef]];
          api = server_New handler (fatal_options (sc_APIAddr cfg));
          (lc3, _) = lifecycle_Add lc2 ''api'' (Some (fn ''api.Start'')) (Some (fn ''api.Shutdown'')) [After [workerRef]];
          (lc4, _) = lifecycle_Add lc3 ''admin'' (Some (fn ''admin.Start'')) (Some (fn ''admin.Shutdown'')) [After [workerRef]]
      in (w1, \<lparr>nk_lifecycle = lc4, nk_health = NewHealth, nk_api = api,
           nk_admin = admin_server lib (sc_AdminAddr cfg), nk_provider = provider, nk_worker = newDeliveryWorker\<rparr>))"

section \<open>Worker\<close>

record workerStackConfig =
  wc_AdminAddr :: string
  wc_DrainDelay :: duration
  wc_Logger :: bool

record workerStack =
  wk_lc :: lifecycle
  wk_health :: health
  wk_admin :: "health \<Rightarrow> server"
  wk_consumer :: consumer

definition buildWorkerStack :: "'x library \<Rightarrow> (string \<Rightarrow> func) \<Rightarrow> nat \<Rightarrow> workerStackConfig \<Rightarrow> workerStack" where
  "buildWorkerStack lib fn self cfg =
     (let lc0 = health_lifecycle fn self (wc_DrainDelay cfg) (wc_Logger cfg);
          (lc1, queue) = lifecycle_Add lc0 ''queue'' (Some (fn ''c.Start'')) (Some (fn ''c.Stop'')) [];
          (lc2, _) = lifecycle_Add lc1 ''admin'' (Some (fn ''admin.Start'')) (Some (fn ''admin.Shutdown'')) [After [queue]]
      in \<lparr>wk_lc = lc2, wk_health = NewHealth, wk_admin = admin_server lib (wc_AdminAddr cfg),
           wk_consumer = NewConsumer\<rparr>)"

section \<open>What is registered\<close>

definition names_and_deps :: "lifecycle \<Rightarrow> (string \<times> nat list) list" where
  "names_and_deps l = map (\<lambda>c. (c_name c, c_after c)) (lc_comps l)"

definition health_wired :: "(string \<Rightarrow> func) \<Rightarrow> lifecycle \<Rightarrow> bool" where
  "health_wired fn l \<longleftrightarrow> wired (fn ''health.Up'') (fn ''health.Drain'') l"

lemma Add_ref [simp]:
  "snd (lifecycle_Add l name st sp opts) = \<lparr>ref_owner = lc_id l, ref_i = int (length (lc_comps l))\<rparr>"
  by (simp add: lifecycle_Add_def Let_def split_beta)

lemma Add_frame [simp]:
  "lc_id (fst (lifecycle_Add l name st sp opts)) = lc_id l"
  "lc_startedHooks (fst (lifecycle_Add l name st sp opts)) = lc_startedHooks l"
  "lc_drainHooks (fst (lifecycle_Add l name st sp opts)) = lc_drainHooks l"
  "length (lc_comps (fst (lifecycle_Add l name st sp opts))) = Suc (length (lc_comps l))"
  by (simp_all add: lifecycle_Add_def Let_def split_beta)

lemma Add_not_empty [simp]: "lc_comps (fst (lifecycle_Add l name st sp opts)) \<noteq> []"
  by (simp add: lifecycle_Add_def Let_def split_beta)

lemma Add_free [simp]:
  "names_and_deps (fst (lifecycle_Add l name (Some f) (Some g) [])) = names_and_deps l @ [(name, [])]"
  "lc_errs (fst (lifecycle_Add l name (Some f) (Some g) [])) = lc_errs l"
  by (simp_all add: names_and_deps_def lifecycle_Add_def Let_def)

lemma Add_after [simp]:
  assumes "i < length (lc_comps l)"
  shows "names_and_deps (fst (lifecycle_Add l name (Some f) (Some g) [After [\<lparr>ref_owner = lc_id l, ref_i = int i\<rparr>]]))
      = names_and_deps l @ [(name, [i])]"
    and "lc_errs (fst (lifecycle_Add l name (Some f) (Some g) [After [\<lparr>ref_owner = lc_id l, ref_i = int i\<rparr>]])) = lc_errs l"
  using assms by (simp_all add: names_and_deps_def lifecycle_Add_def valid_ref_def Let_def)

lemma health_lifecycle_shape [simp]:
  "wf_lifecycle (health_lifecycle fn self delay logger)" "names_and_deps (health_lifecycle fn self delay logger) = []"
  "lc_comps (health_lifecycle fn self delay logger) = []" "lc_errs (health_lifecycle fn self delay logger) = []"
  "lc_startedHooks (health_lifecycle fn self delay logger) = [fn ''health.Up'']"
  "lc_drainHooks (health_lifecycle fn self delay logger) = [fn ''health.Drain'']"
  by (simp_all add: health_lifecycle_def names_and_deps_def OnStarted_def OnDrain_def lifecycle_New_def wf_lifecycle_def wf_comps_def)

lemma Add_after_at [simp]:
  assumes "i < length (lc_comps l)" "o' = lc_id l"
  shows "names_and_deps (fst (lifecycle_Add l name (Some f) (Some g) [After [\<lparr>ref_owner = o', ref_i = int i\<rparr>]]))
      = names_and_deps l @ [(name, [i])]"
    and "lc_errs (fst (lifecycle_Add l name (Some f) (Some g) [After [\<lparr>ref_owner = o', ref_i = int i\<rparr>]])) = lc_errs l"
  using Add_after [OF assms(1)] assms(2) by simp_all

lemmas at_zero = Add_after_at [where i = 0, unfolded semiring_1_class.of_nat_0]
lemmas at_one = Add_after_at [where i = 1, unfolded semiring_1_class.of_nat_1]

lemma orders_registration:
  "let l = as_lc (snd (orders_buildStack lib fn self k cfg w)) in
     names_and_deps l = [(''store'', []), (''api'', [0]), (''admin'', [0]), (''pricing-client'', [])]
     \<and> lc_errs l = [] \<and> health_wired fn l \<and> wf_lifecycle l"
  by (simp add: orders_buildStack_def split_beta Let_def wf_Add health_wired_def wired_def at_zero)

lemma notifications_registration:
  "let l = nk_lifecycle (snd (notifications_buildStack lib fn self k cfg handler w)) in
     names_and_deps l = [(''provider-client'', []), (''delivery-worker'', [0]), (''api'', [1]), (''admin'', [1])]
     \<and> lc_errs l = [] \<and> health_wired fn l \<and> wf_lifecycle l"
  by (simp add: notifications_buildStack_def split_beta Let_def wf_Add health_wired_def wired_def at_zero at_one)

lemma worker_registration:
  "let l = wk_lc (buildWorkerStack lib fn self cfg) in
     names_and_deps l = [(''queue'', []), (''admin'', [0])]
     \<and> lc_errs l = [] \<and> health_wired fn l \<and> wf_lifecycle l"
  by (simp add: buildWorkerStack_def split_beta Let_def wf_Add health_wired_def wired_def at_zero)

section \<open>What a running service keeps\<close>

definition running :: "run \<Rightarrow> nat \<Rightarrow> bool" where
  "running s i \<longleftrightarrow> life_of s i \<in> {Booting, Up, Halting}"

lemma named_dependency:
  assumes "run_reach l c now s" "names_and_deps l = nds" "wf_lifecycle l"
    and "i < length nds" "d \<in> set (snd (nds ! i))" "running s i"
  shows "life_of s d = Up"
proof -
  have "length (lc_comps l) = length nds" using arg_cong [OF assms(2), of length] by (simp add: names_and_deps_def)
  moreover from this have "c_after (lc_comps l ! i) = snd (nds ! i)"
    using assms(4) by (simp add: assms(2) [symmetric] names_and_deps_def)
  ultimately show ?thesis
    using dependency_up_reach [OF assms(3,1), of i d] assms(4-6) by (simp add: running_def)
qed

lemma ready_named:
  assumes "run_reach l c now s" "names_and_deps l = nds" "wf_lifecycle l" "health_wired fn l"
    and "ready (probes (fn ''health.Up'') (fn ''health.Drain'') NewHealth s)" "i < length nds"
  shows "life_of s i = Up"
proof -
  have "length (r_comps s) = length nds"
    using arg_cong [OF assms(2), of length] by (simp add: names_and_deps_def run_reach_comps [OF assms(1)])
  moreover have "NewHealth = checked_health []" by (simp add: checked_health_def)
  ultimately show ?thesis
    using ready_all_up [OF assms(3) _ assms(1), of "fn ''health.Up''" "fn ''health.Drain''" "[]" i] assms(4-6)
    by (simp add: health_wired_def)
qed

text \<open>C19: the three services as their roots compose them, in every interleaving of \<open>Run\<close>. In orders the store
  is up whenever the API or the admin server is starting, up or stopping; in notifications the
  delivery worker is up whenever one of those two is, and the provider client whenever the worker is,
  so the queue is closed only after \<open>Shutdown\<close> of the API has returned; in worker the consumer is up
  whenever the admin server runs. And in all three the readiness probe is open only while every
  component is up.\<close>

theorem services_run_in_dependency_order:
  assumes "run_reach l c now s"
    and "probe = probes (fn ''health.Up'') (fn ''health.Drain'') NewHealth s"
  shows "(l = as_lc (snd (orders_buildStack lib fn self k cfg w)) \<longrightarrow>
        (running s 1 \<or> running s 2 \<longrightarrow> life_of s 0 = Up) \<and> (ready probe \<longrightarrow> (\<forall>i < 4. life_of s i = Up)))
    \<and> (l = nk_lifecycle (snd (notifications_buildStack lib fn self k cfg' handler w)) \<longrightarrow>
        (running s 2 \<or> running s 3 \<longrightarrow> life_of s 1 = Up) \<and> (running s 1 \<longrightarrow> life_of s 0 = Up)
        \<and> (ready probe \<longrightarrow> (\<forall>i < 4. life_of s i = Up)))
    \<and> (l = wk_lc (buildWorkerStack lib fn self cfg'') \<longrightarrow>
        (running s 1 \<longrightarrow> life_of s 0 = Up) \<and> (ready probe \<longrightarrow> (\<forall>i < 2. life_of s i = Up)))"
proof (intro conjI impI allI)
  assume l: "l = as_lc (snd (orders_buildStack lib fn self k cfg w))"
  note reg = orders_registration [of lib fn self k cfg w, folded l, unfolded Let_def]
  show "life_of s 0 = Up" if "running s 1 \<or> running s 2"
    using that named_dependency [OF assms(1) reg [THEN conjunct1], of 1 0]
      named_dependency [OF assms(1) reg [THEN conjunct1], of 2 0] reg by auto
  show "life_of s i = Up" if "ready probe" "i < 4" for i
    using ready_named [OF assms(1) reg [THEN conjunct1], of fn i] reg that by (simp add: assms(2))
next
  assume l: "l = nk_lifecycle (snd (notifications_buildStack lib fn self k cfg' handler w))"
  note reg = notifications_registration [of lib fn self k cfg' handler w, folded l, unfolded Let_def]
  show "life_of s 1 = Up" if "running s 2 \<or> running s 3"
    using that named_dependency [OF assms(1) reg [THEN conjunct1], of 2 1]
      named_dependency [OF assms(1) reg [THEN conjunct1], of 3 1] reg by auto
  show "life_of s 0 = Up" if "running s 1"
    using that named_dependency [OF assms(1) reg [THEN conjunct1], of 1 0] reg by auto
  show "life_of s i = Up" if "ready probe" "i < 4" for i
    using ready_named [OF assms(1) reg [THEN conjunct1], of fn i] reg that by (simp add: assms(2))
next
  assume l: "l = wk_lc (buildWorkerStack lib fn self cfg'')"
  note reg = worker_registration [of lib fn self cfg'', folded l, unfolded Let_def]
  show "life_of s 0 = Up" if "running s 1"
    using that named_dependency [OF assms(1) reg [THEN conjunct1], of 1 0] reg by auto
  show "life_of s i = Up" if "ready probe" "i < 2" for i
    using ready_named [OF assms(1) reg [THEN conjunct1], of fn i] reg that by (simp add: assms(2))
qed

definition demo_library :: "unit library" where
  "demo_library = \<lparr>lib_parse_time = (\<lambda>s. None), lib_status_text = no_text, lib_otel = demo_globals,
     lib_transport = (\<lambda>tc w req. (w, Ret (None, None))), lib_Do = (\<lambda>c w req. (w, Ret (None, None))), lib_path = (\<lambda>r. ''/readyz'')\<rparr>"

definition demo_names :: "string \<Rightarrow> func" where
  "demo_names x = length x"

definition demo_worker :: lifecycle where
  "demo_worker = wk_lc (buildWorkerStack demo_library demo_names 7 \<lparr>wc_AdminAddr = '':9090'', wc_DrainDelay = 2, wc_Logger = True\<rparr>)"

text \<open>The worker service, booted: the consumer was started before the admin server, and readiness is open.\<close>

theorem services_run_in_dependency_order_witness:
  "\<exists>s. run_steps booted (run_init demo_worker demo_ctx 0) = Some s
    \<and> ready (probes (demo_names ''health.Up'') (demo_names ''health.Drain'') NewHealth s) \<and> life_of s 1 = Up"
proof -
  have "(case run_steps booted (run_init demo_worker demo_ctx 0) of None \<Rightarrow> False
    | Some s \<Rightarrow> ready (probes (demo_names ''health.Up'') (demo_names ''health.Drain'') NewHealth s))"
    by code_simp
  then obtain s where s: "run_steps booted (run_init demo_worker demo_ctx 0) = Some s"
    "ready (probes (demo_names ''health.Up'') (demo_names ''health.Drain'') NewHealth s)"
    by (auto split: option.splits)
  from services_run_in_dependency_order [where fn = demo_names, OF reachesI [OF s(1)] refl] s(2)
  have "\<forall>i < 2. life_of s i = Up" unfolding demo_worker_def by blast
  with s show ?thesis by auto
qed

end
