(* ===== verification/Log_Records.thy ===== *)
theory Log_Records
  imports Logging
begin

text \<open>
  \<open>testkit/logger.go\<close>: the captured log output, read back. What \<open>encoding/json\<close> does to the bytes is two
  arguments: \<open>encode\<close>, the bytes \<open>slog.JSONHandler\<close> writes for a line in one \<open>Write\<close>, and \<open>next\<close>, one
  call of \<open>Decoder.Decode\<close> into a map: the members of the next object, the last of equal keys
  winning, and the bytes after it, or \<open>None\<close> at the end or at what does not decode. A value of the
  map is a string, or a number, bool, list or object, of which only its identity matters here. \<open>show\<close> is \<open>fmt.Sprintf("%v")\<close>.
\<close>

section \<open>Records\<close>

datatype jvalue = JString string | JOther nat

record captured =
  cr_Level :: string
  cr_Message :: string
  cr_Attrs :: "string \<Rightarrow> jvalue option"

type_synonym next_value = "string \<Rightarrow> ((string \<times> jvalue) list \<times> string) option"

text \<open>The buffer; \<open>Write\<close> appends and reports what it took.\<close>

definition records_Write :: "string \<Rightarrow> string \<Rightarrow> string \<times> (nat \<times> goerr option)" where
  "records_Write p buf = (buf @ p, (length p, None))"

definition LevelKey :: string where "LevelKey = ''level''"
definition MessageKey :: string where "MessageKey = ''msg''"
definition TimeKey :: string where "TimeKey = ''time''"

text \<open>The map of the decoder, and \<open>v.(string)\<close> with its zero value.\<close>

definition decoded_map :: "(string \<times> jvalue) list \<Rightarrow> string \<Rightarrow> jvalue option" where
  "decoded_map ms = map_of (rev ms)"

fun string_or_zero :: "jvalue \<Rightarrow> string" where
  "string_or_zero (JString s) = s"
| "string_or_zero (JOther i) = []"

definition recordFrom :: "(string \<Rightarrow> jvalue option) \<Rightarrow> captured" where
  "recordFrom m =
     \<lparr>cr_Level = (case m LevelKey of None \<Rightarrow> [] | Some v \<Rightarrow> string_or_zero v),
      cr_Message = (case m MessageKey of None \<Rightarrow> [] | Some v \<Rightarrow> string_or_zero v),
      cr_Attrs = m(LevelKey := None, MessageKey := None, TimeKey := None)\<rparr>"

text \<open>The loop of \<open>All\<close>: a value is at least one byte, so the length of the buffer is fuel enough.\<close>

fun read_values :: "next_value \<Rightarrow> nat \<Rightarrow> string \<Rightarrow> captured list" where
  "read_values nxt 0 raw = []"
| "read_values nxt (Suc n) raw =
     (case nxt raw of None \<Rightarrow> [] | Some (ms, rest) \<Rightarrow> recordFrom (decoded_map ms) # read_values nxt n rest)"

definition records_All :: "next_value \<Rightarrow> string \<Rightarrow> captured list" where
  "records_All nxt buf = read_values nxt (length buf) buf"

definition records_Last :: "next_value \<Rightarrow> string \<Rightarrow> captured option" where
  "records_Last nxt buf = (let all = records_All nxt buf in if length all = 0 then None else Some (last all))"

fun find_loop :: "(jvalue \<Rightarrow> string) \<Rightarrow> string \<Rightarrow> string \<Rightarrow> captured list \<Rightarrow> captured list \<Rightarrow> captured list" where
  "find_loop show key value [] out = out"
| "find_loop show key value (r # rs) out =
     find_loop show key value rs
       (case cr_Attrs r key of None \<Rightarrow> out | Some v \<Rightarrow> if show v = value then out @ [r] else out)"

definition records_Find :: "(jvalue \<Rightarrow> string) \<Rightarrow> next_value \<Rightarrow> string \<Rightarrow> string \<Rightarrow> string \<Rightarrow> captured list" where
  "records_Find show nxt key value buf = find_loop show key value (records_All nxt buf) []"

text \<open>\<open>Logger\<close>: the logger of package \<open>logging\<close> at level debug, over an empty buffer.\<close>

definition testkit_Logger :: "'v extractor list \<Rightarrow> ('v json_handler, 'v) log_handler \<times> string" where
  "testkit_Logger ex = (logging_New \<lparr>lo_Level = Some LevelDebug, lo_AddSource = False, lo_ReplaceAttr = None\<rparr> ex, [])"

section \<open>Writing and reading back\<close>

lemma records_Find_filter:
  "records_Find show nxt key value buf =
     filter (\<lambda>r. \<exists>v. cr_Attrs r key = Some v \<and> show v = value) (records_All nxt buf)"
proof -
  have "find_loop show key value rs out = out @ filter (\<lambda>r. \<exists>v. cr_Attrs r key = Some v \<and> show v = value) rs" for rs out
    by (induction rs arbitrary: out) (auto split: option.split)
  then show ?thesis by (simp add: records_Find_def)
qed

text \<open>What is documented of encoder and decoder: a line is not empty and decodes to its members, whatever follows.\<close>

definition json_stream ::
  "'l set \<Rightarrow> ('l \<Rightarrow> string) \<Rightarrow> ('l \<Rightarrow> (string \<times> jvalue) list) \<Rightarrow> next_value \<Rightarrow> bool"
where
  "json_stream L encode members nxt \<longleftrightarrow>
     nxt [] = None \<and> (\<forall>l \<in> L. \<forall>rest. encode l \<noteq> [] \<and> nxt (encode l @ rest) = Some (members l, rest))"

lemma read_values_stream:
  assumes "json_stream L encode members nxt" "set ls \<subseteq> L" "length (concat (map encode ls)) \<le> n"
  shows "read_values nxt n (concat (map encode ls)) = map (\<lambda>l. recordFrom (decoded_map (members l))) ls"
  using assms(2,3)
proof (induction ls arbitrary: n)
  case Nil
  then show ?case using assms(1) by (cases n) (simp_all add: json_stream_def)
next
  case (Cons l ls)
  have "encode l \<noteq> []" using assms(1) Cons.prems(1) by (simp add: json_stream_def)
  with Cons.prems(2) obtain m where n: "n = Suc m" "length (concat (map encode ls)) \<le> m"
    by (cases n) (auto simp: Suc_le_eq neq_Nil_conv)
  with Cons.IH [OF _ n(2)] Cons.prems(1) assms(1) show ?case by (simp add: json_stream_def)
qed

lemma decoded_map_eq:
  "distinct (map fst ms) \<Longrightarrow> decoded_map ms k = map_of ms k"
  using map_of_inject_set [of "rev ms" ms] by (simp add: decoded_map_def rev_map [symmetric])

text \<open>The members of a line: the three of \<open>log/slog\<close>, then the attributes.\<close>

definition line_members :: "string \<Rightarrow> string \<Rightarrow> string \<Rightarrow> (string \<times> jvalue) list \<Rightarrow> (string \<times> jvalue) list" where
  "line_members time level msg attrs =
     [(TimeKey, JString time), (LevelKey, JString level), (MessageKey, JString msg)] @ attrs"

definition plain_attrs :: "(string \<times> jvalue) list \<Rightarrow> bool" where
  "plain_attrs attrs \<longleftrightarrow> distinct (map fst attrs) \<and> set (map fst attrs) \<inter> {TimeKey, LevelKey, MessageKey} = {}"

lemma recordFrom_line:
  assumes "plain_attrs attrs"
  shows "recordFrom (decoded_map (line_members time level msg attrs))
    = \<lparr>cr_Level = level, cr_Message = msg, cr_Attrs = map_of attrs\<rparr>"
proof -
  have keys: "distinct (map fst (line_members time level msg attrs))"
    using assms by (simp add: plain_attrs_def line_members_def TimeKey_def LevelKey_def MessageKey_def)
  have eq: "decoded_map (line_members time level msg attrs) = map_of (line_members time level msg attrs)"
    using decoded_map_eq [OF keys] by (simp add: fun_eq_iff)
  have "map_of attrs k = None" if "k \<in> {TimeKey, LevelKey, MessageKey}" for k
    using assms that unfolding map_of_eq_None_iff by (auto simp: plain_attrs_def simp flip: set_map)
  then show ?thesis
    unfolding recordFrom_def eq
    by (auto simp: line_members_def fun_eq_iff TimeKey_def LevelKey_def MessageKey_def)
qed

text \<open>What a test reads of the lines written, for lines whose attributes have distinct keys that are not
  the three of \<open>log/slog\<close>: \<open>All\<close> has one record for each, oldest first, with its level, its message and
  exactly its attributes; \<open>Last\<close> is the newest, and reports that there is none only when nothing was
  logged; and \<open>Find\<close> has exactly those with the value, in order.\<close>

lemma records_read_back_what_was_logged:
  assumes stream: "json_stream (set ls) encode (\<lambda>(t, lv, m, as). line_members t lv m as) nxt"
    and plain: "\<forall>(t, lv, m, as) \<in> set ls. plain_attrs as"
    and rs: "rs = map (\<lambda>(t, lv, m, as). \<lparr>cr_Level = lv, cr_Message = m, cr_Attrs = map_of as\<rparr>) ls"
  shows "records_All nxt (fold (\<lambda>l buf. fst (records_Write (encode l) buf)) ls []) = rs
    \<and> records_Last nxt (fold (\<lambda>l buf. fst (records_Write (encode l) buf)) ls []) = (if ls = [] then None else Some (last rs))
    \<and> records_Find show nxt key value (fold (\<lambda>l buf. fst (records_Write (encode l) buf)) ls [])
      = filter (\<lambda>r. \<exists>v. cr_Attrs r key = Some v \<and> show v = value) rs"
proof -
  have "fold (\<lambda>l buf. fst (records_Write (encode l) buf)) ls buf = buf @ concat (map encode ls)" for buf
    by (induction ls arbitrary: buf) (simp_all add: records_Write_def)
  then have buf: "fold (\<lambda>l buf. fst (records_Write (encode l) buf)) ls [] = concat (map encode ls)" by simp
  have "records_All nxt (concat (map encode ls))
      = map (\<lambda>l. recordFrom (decoded_map (case l of (t, lv, m, as) \<Rightarrow> line_members t lv m as))) ls"
    unfolding records_All_def by (rule read_values_stream [OF stream order.refl]) simp
  also have "\<dots> = rs"
    unfolding rs using plain by (auto intro!: recordFrom_line)
  finally have all: "records_All nxt (concat (map encode ls)) = rs" .
  have "rs = [] \<longleftrightarrow> ls = []" by (simp add: rs)
  with all show ?thesis by (simp add: buf records_Find_filter records_Last_def Let_def)
qed

text \<open>
  Outside that: an attribute named like one of the three keys takes its place, so the record of a line
  logged at INFO with the message \<open>created\<close> and an attribute \<open>level\<close> has that attribute as its level.
\<close>

lemma reserved_keys_are_shadowed:
  "recordFrom (decoded_map (line_members t ''INFO'' ''created'' [(''level'', JString ''gold''), (''msg'', JString ''hi'')]))
    = \<lparr>cr_Level = ''gold'', cr_Message = ''hi'', cr_Attrs = Map.empty\<rparr>"
  by (simp add: recordFrom_def decoded_map_def line_members_def TimeKey_def LevelKey_def MessageKey_def fun_eq_iff)

end
