(* ===== verification/App_Config.thy ===== *)
theory App_Config
  imports Config_Load
begin

text \<open>
  The configuration structs of the three examples (\<open>config.go\<close> of each), as the types package \<open>config\<close>
  walks, and what loading them asks of an environment. \<open>Secret\<close> is a string to the decoder. \<open>Validate\<close> of
  the notification service gets what \<open>url.Parse\<close> makes of the URL as an argument: scheme and host.
\<close>

definition value_field :: "string \<Rightarrow> string \<Rightarrow> string option \<Rightarrow> ty \<Rightarrow> fld" where
  "value_field name env def t =
     \<lparr>f_name = name, f_exported = True, f_env = Some env, f_envPrefix = None, f_default = def, f_type = t\<rparr>"

definition group_field :: "string \<Rightarrow> string \<Rightarrow> ty \<Rightarrow> fld" where
  "group_field name prefix t =
     \<lparr>f_name = name, f_exported = True, f_env = None, f_envPrefix = Some prefix, f_default = None, f_type = t\<rparr>"

abbreviation gostring :: ty where "gostring \<equiv> TString ''string''"

section \<open>The types\<close>

definition orders_AppConfig :: "fld list" where
  "orders_AppConfig =
     [value_field ''Addr'' ''ADDR'' (Some '':8080'') gostring,
      value_field ''DBURL'' ''DATABASE_URL'' None (TString ''config.Secret''),
      value_field ''Debug'' ''DEBUG'' None (TPtr (TBool ''bool'')),
      group_field ''OTel'' ''OTEL_'' (TStruct ''main.OTelConfig''),
      group_field ''TLS'' ''TLS_'' (TPtr (TStruct ''main.TLSConfig'')),
      value_field ''AdminAddr'' ''ADMIN_ADDR'' (Some '':9090'') gostring,
      value_field ''DrainDelay'' ''DRAIN_DELAY'' (Some ''5s'') TDuration,
      value_field ''PricingURL'' ''PRICING_URL'' (Some ''http://localhost:9091'') gostring]"

definition OTelConfig :: "fld list" where
  "OTelConfig = [value_field ''Endpoint'' ''ENDPOINT'' (Some ''localhost:4317'') gostring,
     value_field ''Timeout'' ''TIMEOUT'' (Some ''5s'') TDuration]"

definition TLSConfig :: "fld list" where
  "TLSConfig = [value_field ''Cert'' ''CERT'' None gostring, value_field ''Key'' ''KEY'' None gostring]"

definition orders_structs :: structs where
  "orders_structs = [(''main.AppConfig'', orders_AppConfig), (''main.OTelConfig'', OTelConfig), (''main.TLSConfig'', TLSConfig)]"

definition notifications_AppConfig :: "fld list" where
  "notifications_AppConfig =
     [value_field ''APIAddr'' ''ADDR'' (Some '':8080'') gostring,
      value_field ''AdminAddr'' ''ADMIN_ADDR'' (Some '':9090'') gostring,
      value_field ''ProviderURL'' ''PROVIDER_URL'' None gostring,
      value_field ''DrainDelay'' ''DRAIN_DELAY'' (Some ''5s'') TDuration]"

definition notifications_structs :: structs where
  "notifications_structs = [(''main.AppConfig'', notifications_AppConfig)]"

definition notifications_Validate :: "(string \<Rightarrow> goerr + string \<times> string) \<Rightarrow> loaded \<Rightarrow> goerr option" where
  "notifications_Validate url_parse v =
     (let url = (case map_of (ld_values v) [2] of Some (VString s) \<Rightarrow> s | _ \<Rightarrow> []);
          bad = (case url_parse url of
              Inl e \<Rightarrow> True
            | Inr (scheme, host) \<Rightarrow> (scheme \<noteq> ''http'' \<and> scheme \<noteq> ''https'') \<or> host = [])
      in if bad then Some (Err ''PROVIDER_URL must be an absolute HTTP or HTTPS URL'') else None)"

definition WorkerConfig :: "fld list" where
  "WorkerConfig = [value_field ''AdminAddr'' ''ADMIN_ADDR'' (Some '':9090'') gostring,
     value_field ''DrainDelay'' ''DRAIN_DELAY'' (Some ''5s'') TDuration]"

definition worker_structs :: structs where
  "worker_structs = [(''main.WorkerConfig'', WorkerConfig)]"

section \<open>Their plans\<close>

lemmas field_defs = value_field_def group_field_def

text \<open>One binding of a plan: field, key, index path, default, whether nil stands for unset, decoder.\<close>

definition row :: "string \<Rightarrow> string \<Rightarrow> nat list \<Rightarrow> string option \<Rightarrow> bool \<Rightarrow> decoder \<Rightarrow> binding" where
  "row field key index def ptr dec =
     \<lparr>b_index = index, b_field = field, b_env = key, b_def = (case def of None \<Rightarrow> [] | Some d \<Rightarrow> d),
      b_hasDef = (def \<noteq> None), b_ptr = ptr, b_dec = dec\<rparr>"

lemma row_simps [simp]:
  "b_index (row field key index def ptr dec) = index" "b_env (row field key index def ptr dec) = key"
  "b_field (row field key index def ptr dec) = field" "b_hasDef (row field key index def ptr dec) = (def \<noteq> None)"
  "b_ptr (row field key index def ptr dec) = ptr" "b_dec (row field key index def ptr dec) = dec"
  "b_def (row field key index def ptr dec) = (case def of None \<Rightarrow> [] | Some d \<Rightarrow> d)"
  by (simp_all add: row_def)

text \<open>The walk over fields of these two shapes, one step each.\<close>

definition bound :: "binding \<Rightarrow> walker \<Rightarrow> walker" where
  "bound b w = w\<lparr>w_seen := (w_seen w)(b_env b \<mapsto> b_field b), w_bindings := w_bindings w @ [b]\<rparr>"

definition blocked :: "nat list \<Rightarrow> string \<Rightarrow> walker \<Rightarrow> walker" where
  "blocked index field w = w\<lparr>w_blocks := w_blocks w @ [\<lparr>k_index = index, k_field = field\<rparr>]\<rparr>"

lemma bound_simps [simp]:
  "w_seen (bound b w) = (w_seen w)(b_env b \<mapsto> b_field b)" "w_bindings (bound b w) = w_bindings w @ [b]"
  "w_blocks (bound b w) = w_blocks w" "w_violations (bound b w) = w_violations w"
  "w_seen (blocked ix f w) = w_seen w" "w_bindings (blocked ix f w) = w_bindings w"
  "w_blocks (blocked ix f w) = w_blocks w @ [\<lparr>k_index = ix, k_field = f\<rparr>]" "w_violations (blocked ix f w) = w_violations w"
  by (simp_all add: bound_def blocked_def)

lemma walk_value_field:
  assumes "nested_struct t = None" "decoderFor std t = Inr dec" "key \<noteq> []" "key \<noteq> ''-''" "w_seen w (prefix @ key) = None"
  shows "walk std env active (value_field name key def t # fs) i path prefix index w =
    walk std env active fs (Suc i) path prefix index
      (bound (row (path @ CHR ''.'' # name) (prefix @ key) (index @ [i]) def (is_pointer t) dec) w)"
  using assms by (simp add: value_field_def walk_value_def make_binding_def row_def bound_def Let_def)

lemma walk_group_field:
  assumes "nested_struct t = Some inner" "inner \<notin> set active" "map_of env inner = Some flds"
  shows "walk std env active (group_field name tag t # fs) i path prefix index w =
    walk std env active fs (Suc i) path prefix index
      (walk std env (active @ [inner]) flds 0 (path @ CHR ''.'' # name) (prefix @ tag) (index @ [i])
         (if is_pointer t then blocked (index @ [i]) (path @ CHR ''.'' # name) w else w))"
  using assms by (simp add: group_field_def blocked_def Let_def)

lemmas walk_steps = walk_value_field walk_group_field

definition string_dec :: decoder where
  "string_dec = (\<lambda>raw. Inr (VString raw))"

definition bool_ptr_dec :: decoder where
  "bool_ptr_dec = (\<lambda>raw. case (case parse_bool raw of Inl e \<Rightarrow> Inl (numError ''bool'' raw e) | Inr b \<Rightarrow> Inr (VBool b)) of
     Inl e \<Rightarrow> Inl e | Inr v \<Rightarrow> Inr (VPtr v))"

text \<open>The plan of the orders configuration: no problem of its own, ten keys and one optional block.\<close>

definition orders_rows :: "std \<Rightarrow> binding list" where
  "orders_rows std =
     [row ''AppConfig.Addr'' ''ADDR'' [0] (Some '':8080'') False string_dec,
      row ''AppConfig.DBURL'' ''DATABASE_URL'' [1] None False string_dec,
      row ''AppConfig.Debug'' ''DEBUG'' [2] None True bool_ptr_dec,
      row ''AppConfig.OTel.Endpoint'' ''OTEL_ENDPOINT'' [3, 0] (Some ''localhost:4317'') False string_dec,
      row ''AppConfig.OTel.Timeout'' ''OTEL_TIMEOUT'' [3, 1] (Some ''5s'') False (decodeDuration std),
      row ''AppConfig.TLS.Cert'' ''TLS_CERT'' [4, 0] None False string_dec,
      row ''AppConfig.TLS.Key'' ''TLS_KEY'' [4, 1] None False string_dec,
      row ''AppConfig.AdminAddr'' ''ADMIN_ADDR'' [5] (Some '':9090'') False string_dec,
      row ''AppConfig.DrainDelay'' ''DRAIN_DELAY'' [6] (Some ''5s'') False (decodeDuration std),
      row ''AppConfig.PricingURL'' ''PRICING_URL'' [7] (Some ''http://localhost:9091'') False string_dec]"

lemma orders_walk:
  "\<exists>w. buildPlan std orders_structs (TStruct ''main.AppConfig'') [] = w \<and> w_bindings w = orders_rows std
     \<and> w_blocks w = [\<lparr>k_index = [4], k_field = ''AppConfig.TLS''\<rparr>] \<and> w_violations w = []"
  by (simp add: buildPlan_def struct_of_def orders_structs_def orders_AppConfig_def OTelConfig_def TLSConfig_def
      short_name_def walk_steps string_dec_def bool_ptr_dec_def orders_rows_def del: walk.simps(2))

lemma orders_plan [simp]:
  "w_violations (buildPlan std orders_structs (TStruct ''main.AppConfig'') []) = []"
  "w_blocks (buildPlan std orders_structs (TStruct ''main.AppConfig'') []) = [\<lparr>k_index = [4], k_field = ''AppConfig.TLS''\<rparr>]"
  "w_bindings (buildPlan std orders_structs (TStruct ''main.AppConfig'') []) = orders_rows std"
  using orders_walk [of std] by auto

section \<open>What the orders service asks of its environment\<close>

definition missing :: "source \<Rightarrow> walker \<Rightarrow> string set" where
  "missing src p = {b_env b | b. b \<in> set (awake src (w_bindings p) (w_blocks p)) \<and> text_for src b = None \<and> \<not> b_ptr b}"

text \<open>
  The database URL always, and the two TLS keys exactly when one of them is set; nothing else is
  ever required.
\<close>

lemma orders_dormant:
  "dormant src (orders_rows std) [\<lparr>k_index = [4], k_field = f\<rparr>] b \<longleftrightarrow>
     underBlock (b_index b) [4] \<and> src ''TLS_CERT'' = None \<and> src ''TLS_KEY'' = None"
  by (simp add: dormant_def block_set_def orders_rows_def underBlock_def)

lemma text_for_None [simp]:
  "text_for src (row field key index def ptr dec) = None \<longleftrightarrow> src key = None \<and> def = None"
  by (auto simp: text_for_def split: option.split)

lemma orders_requires:
  "missing src (buildPlan std orders_structs (TStruct ''main.AppConfig'') []) =
     (if src ''DATABASE_URL'' = None then {''DATABASE_URL''} else {})
     \<union> (if src ''TLS_CERT'' = None \<and> src ''TLS_KEY'' \<noteq> None then {''TLS_CERT''} else {})
     \<union> (if src ''TLS_KEY'' = None \<and> src ''TLS_CERT'' \<noteq> None then {''TLS_KEY''} else {})"
proof -
  have "missing src (buildPlan std orders_structs (TStruct ''main.AppConfig'') []) =
      b_env ` set (filter (\<lambda>b. \<not> (underBlock (b_index b) [4] \<and> src ''TLS_CERT'' = None \<and> src ''TLS_KEY'' = None)
        \<and> text_for src b = None \<and> \<not> b_ptr b) (orders_rows std))"
    by (auto simp: missing_def awake_def orders_dormant)
  then show ?thesis
    by (cases "src ''TLS_CERT''"; cases "src ''TLS_KEY''"; cases "src ''DATABASE_URL''")
       (simp_all add: orders_rows_def underBlock_def insert_commute)
qed

section \<open>Environments that differ in one value\<close>

text \<open>Two sources that agree but for the value of one key, which both have.\<close>

definition same_but :: "string \<Rightarrow> source \<Rightarrow> source \<Rightarrow> bool" where
  "same_but key src src' \<longleftrightarrow> (\<forall>k. k \<noteq> key \<longrightarrow> src k = src' k) \<and> src key \<noteq> None \<and> src' key \<noteq> None"

lemma same_but_set: "same_but key src src' \<Longrightarrow> src k = None \<longleftrightarrow> src' k = None"
  by (cases "k = key") (auto simp: same_but_def)

lemma same_but_dormant: "same_but key src src' \<Longrightarrow> dormant src bs blocks b = dormant src' bs blocks b"
  by (simp add: dormant_def block_set_def same_but_set)

lemma same_but_awake: "same_but key src src' \<Longrightarrow> awake src bs blocks = awake src' bs blocks"
  by (simp add: awake_def same_but_dormant)

lemma same_but_binding:
  assumes "same_but key src src'" "b_env b \<noteq> key"
  shows "problem src b = problem src' b" "value_of src b = value_of src' b" "text_for src b = text_for src' b"
  using assms by (simp_all add: same_but_def problem_def value_of_def text_for_def)

lemma values_at_cong:
  assumes "\<And>b. b \<in> set bs \<Longrightarrow> b_index b = path \<Longrightarrow> value_of src b = value_of src' b"
  shows "map_of (concat (map (value_of src) bs)) path = map_of (concat (map (value_of src') bs)) path"
  using assms
proof (induction bs)
  case (Cons b bs)
  have here: "map_of (value_of src b) path = (if b_index b = path then map_of (value_of src b) path else None)" for src
    by (auto simp: value_of_def split: option.split sum.split)
  from Cons show ?case by (simp add: map_add_def) (metis here list.set_intros)
qed simp

text \<open>
  The orders configuration under two environments that differ in the database URL alone: the same
  problems, or structs that differ in that one field.
\<close>

lemma orders_load_same_but:
  assumes "same_but ''DATABASE_URL'' src src'"
  shows "case Load std orders_structs src None (TStruct ''main.AppConfig'') [] of
      Inl vs \<Rightarrow> Load std orders_structs src' None (TStruct ''main.AppConfig'') [] = Inl vs
    | Inr v \<Rightarrow> (\<exists>v'. Load std orders_structs src' None (TStruct ''main.AppConfig'') [] = Inr v'
        \<and> (\<forall>path. path \<noteq> [1] \<longrightarrow> map_of (ld_values v) path = map_of (ld_values v') path))"
proof -
  let ?bs = "awake src (orders_rows std) [\<lparr>k_index = [4], k_field = ''AppConfig.TLS''\<rparr>]"
  have bs: "awake src' (orders_rows std) [\<lparr>k_index = [4], k_field = ''AppConfig.TLS''\<rparr>] = ?bs"
    using same_but_awake [OF assms] by simp
  have db: "b = row ''AppConfig.DBURL'' ''DATABASE_URL'' [1] None False string_dec"
    if "b \<in> set ?bs" "b_env b = ''DATABASE_URL''" for b
  proof -
    have "b \<in> set (orders_rows std)" using that(1) by (simp add: awake_def)
    with that(2) show ?thesis by (auto simp: orders_rows_def)
  qed
  have problems: "problem src b = problem src' b" if "b \<in> set ?bs" for b
  proof (cases "b_env b = ''DATABASE_URL''")
    case True
    then show ?thesis using assms db [OF that] 
      by (auto simp: same_but_def problem_def text_for_def string_dec_def split: option.splits)
  qed (rule same_but_binding [OF assms])
  have texts: "(text_for src b \<noteq> None) = (text_for src' b \<noteq> None)" if "b \<in> set ?bs" for b
    using same_but_set [OF assms, of "b_env b"] by (auto simp: text_for_def split: option.splits)
  have values_: "map_of (concat (map (value_of src) ?bs)) path = map_of (concat (map (value_of src') ?bs)) path"
    if "path \<noteq> [1]" for path
  proof (rule values_at_cong)
    fix b
    assume "b \<in> set ?bs" "b_index b = path"
    then have "b_env b \<noteq> ''DATABASE_URL''" using db [of b] that by auto
    then show "value_of src b = value_of src' b" by (rule same_but_binding [OF assms])
  qed
  have ps: "concat (map (problem src) ?bs) = concat (map (problem src') ?bs)"
    using problems by (simp cong: map_cong)
  show ?thesis
    unfolding Load_def Let_def skips_eq decode_all_eq awake_def [symmetric] fold.simps id_apply load_options.simps orders_plan bs
    using ps values_ by (simp add: empty_struct_def)
qed

text \<open>With nothing set, the database URL is the one thing missing.\<close>

lemma load_without_database:
  assumes "std_duration std ''5s'' = Inr d"
  shows "Load std orders_structs Map.empty None (TStruct ''main.AppConfig'') []
      = Inl [required (row ''AppConfig.DBURL'' ''DATABASE_URL'' [1] None False string_dec)]"
proof -
  have "problem Map.empty (row field key index (Some def) ptr dec) = []" if "dec def = Inr x" for field key index def ptr dec x
    using that by (simp add: problem_def text_for_def)
  moreover have "problem Map.empty (row field key index None ptr dec)
      = (if ptr then [] else [required (row field key index None ptr dec)])" for field key index ptr dec
    by (simp add: problem_def text_for_def)
  moreover have "filter (\<lambda>b. \<not> underBlock (b_index b) [4]) (orders_rows std) =
      filter (\<lambda>b. b_index b \<notin> {[4, 0], [4, 1]}) (orders_rows std)"
    by (simp add: orders_rows_def underBlock_def)
  ultimately have "concat (map (problem Map.empty) (filter (\<lambda>b. \<not> underBlock (b_index b) [4]) (orders_rows std)))
      = [required (row ''AppConfig.DBURL'' ''DATABASE_URL'' [1] None False string_dec)]"
    by (simp add: orders_rows_def string_dec_def decodeDuration_def assms)
  then show ?thesis
    unfolding Load_def Let_def skips_eq decode_all_eq by (simp add: orders_dormant)
qed

text \<open>With the database URL set, the defaults do for the rest.\<close>

lemma load_with_database:
  assumes "std_duration std ''5s'' = Inr d"
  shows "\<exists>cfg. Load std orders_structs [''DATABASE_URL'' \<mapsto> url] None (TStruct ''main.AppConfig'') [] = Inr cfg"
proof -
  let ?src = "[''DATABASE_URL'' \<mapsto> url]"
  have "problem ?src (row field key index (Some def) ptr dec) = []"
    if "dec def = Inr x" "key \<noteq> ''DATABASE_URL''" for field key index def ptr dec x
    using that by (simp add: problem_def text_for_def)
  moreover have "problem ?src (row field ''DATABASE_URL'' index None ptr string_dec) = []" for field index ptr
    by (simp add: problem_def text_for_def string_dec_def)
  moreover have "problem ?src (row field key index None True dec) = []" if "key \<noteq> ''DATABASE_URL''" for field key index dec
    using that by (simp add: problem_def text_for_def)
  moreover have "filter (\<lambda>b. \<not> underBlock (b_index b) [4]) (orders_rows std) =
      filter (\<lambda>b. b_index b \<notin> {[4, 0], [4, 1]}) (orders_rows std)"
    by (simp add: orders_rows_def underBlock_def)
  ultimately have "concat (map (problem ?src) (filter (\<lambda>b. \<not> underBlock (b_index b) [4]) (orders_rows std))) = []"
    by (simp add: orders_rows_def string_dec_def decodeDuration_def assms)
  then show ?thesis
    unfolding Load_def Let_def skips_eq decode_all_eq by (simp add: orders_dormant orders_plan empty_struct_def)
qed

end
