(* ===== verification/Pprof.thy ===== *)
theory Pprof
  imports Health
begin

text \<open>
  \<open>httpserver/pprof/pprof.go\<close>: the one handler for the subtree of the profiling endpoints, over the five
  handlers of \<open>net/http/pprof\<close>, which are arguments. \<open>ServeMux\<close> takes the longest pattern that matches a
  (clean) path; a pattern that ends in a slash matches everything below it, and the path without the
  slash is redirected to it.
\<close>

record pprof_handlers =
  pp_Index :: handler
  pp_Cmdline :: handler
  pp_Profile :: handler
  pp_Symbol :: handler
  pp_Trace :: handler

definition pprof_routes :: "pprof_handlers \<Rightarrow> (string \<times> handler) list" where
  "pprof_routes p =
     [(''/debug/pprof/'', pp_Index p), (''/debug/pprof/cmdline'', pp_Cmdline p), (''/debug/pprof/profile'', pp_Profile p),
      (''/debug/pprof/symbol'', pp_Symbol p), (''/debug/pprof/trace'', pp_Trace p)]"

definition matches_pattern :: "string \<Rightarrow> string \<Rightarrow> bool" where
  "matches_pattern pat path \<longleftrightarrow> pat = path \<or> (last pat = CHR ''/'' \<and> take (length pat) path = pat)"

text \<open>The longest match, if any.\<close>

fun longest_match :: "string \<Rightarrow> (string \<times> handler) list \<Rightarrow> (string \<times> handler) option" where
  "longest_match path [] = None"
| "longest_match path ((pat, h) # rs) =
     (if matches_pattern pat path
      then (case longest_match path rs of
              Some (pat', h') \<Rightarrow> if length pat < length pat' then Some (pat', h') else Some (pat, h)
            | None \<Rightarrow> Some (pat, h))
      else longest_match path rs)"

text \<open>
  \<open>http.Redirect\<close> with the status \<open>ServeMux\<close> uses in Go 1.25, the version the modules declare. The path
  is one of the registered patterns here, so neither its header nor its link needs escaping.
\<close>

definition redirect :: "string \<Rightarrow> srequest \<Rightarrow> writer \<Rightarrow> hstate \<Rightarrow> hstate" where
  "redirect to r w s =
     (let had_type = ''Content-Type'' \<in> fst ` set (hs_header s);
          s1 = set_header ''Location'' to s;
          s2 = (if \<not> had_type \<and> (sq_method r = MethodGet \<or> sq_method r = MethodHead)
                then set_header ''Content-Type'' ''text/html; charset=utf-8'' s1 else s1);
          s3 = write_header w 301 s2
      in if \<not> had_type \<and> sq_method r = MethodGet
         then write_body w (''<a href='' @ [CHR 0x22] @ to @ [CHR 0x22] @ ''>Moved Permanently</a>.'' @ [CHR 0x0A, CHR 0x0A]) s3
         else s3)"

definition pprof_Handler :: "pprof_handlers \<Rightarrow> string \<Rightarrow> handler" where
  "pprof_Handler p path r w s =
     (case longest_match path (pprof_routes p) of
        Some (pat, h) \<Rightarrow> mux pat h r w s
      | None \<Rightarrow>
          if longest_match (path @ ''/'') (pprof_routes p) \<noteq> None \<and> (path @ ''/'') \<in> fst ` set (pprof_routes p)
          then mux (path @ ''/'') (\<lambda>r w s. (redirect (path @ ''/'') r w s, None)) r w s
          else mux [] not_found r w s)"

text \<open>The four named profiles go to their own handlers, the rest of the subtree to the index.\<close>

lemma pprof_routing:
  "pprof_Handler p ''/debug/pprof/cmdline'' = mux ''/debug/pprof/cmdline'' (pp_Cmdline p)"
  "pprof_Handler p ''/debug/pprof/profile'' = mux ''/debug/pprof/profile'' (pp_Profile p)"
  "pprof_Handler p ''/debug/pprof/symbol'' = mux ''/debug/pprof/symbol'' (pp_Symbol p)"
  "pprof_Handler p ''/debug/pprof/trace'' = mux ''/debug/pprof/trace'' (pp_Trace p)"
  by (intro ext; simp add: pprof_Handler_def pprof_routes_def matches_pattern_def)+

lemma pprof_subtree:
  assumes "rest \<notin> {''cmdline'', ''profile'', ''symbol'', ''trace''}"
  shows "pprof_Handler p (''/debug/pprof/'' @ rest) = mux ''/debug/pprof/'' (pp_Index p)"
proof (intro ext)
  fix r w s
  have "''cmdline'' \<noteq> rest" "''profile'' \<noteq> rest" "''symbol'' \<noteq> rest" "''trace'' \<noteq> rest" using assms by auto
  then show "pprof_Handler p (''/debug/pprof/'' @ rest) r w s = mux ''/debug/pprof/'' (pp_Index p) r w s"
    by (simp add: pprof_Handler_def pprof_routes_def matches_pattern_def)
qed

text \<open>The prefix without its slash is sent on to the index, in one answer; outside the subtree there is nothing.\<close>

lemma pprof_redirects:
  assumes "hs_wire s = None"
  shows "hs_wire (fst (pprof_Handler p ''/debug/pprof'' r [] s)) = Some 301
    \<and> (''Location'', ''/debug/pprof/'') \<in> set (hs_header (fst (pprof_Handler p ''/debug/pprof'' r [] s)))"
  using assms
  by (simp add: pprof_Handler_def pprof_routes_def matches_pattern_def redirect_def mux_def set_header_def Let_def
      conn_write_header_def conn_write_def informational_def)

end
