(* ===== verification/Config_Types.thy ===== *)
theory Config_Types
  imports Config_Load
begin

text \<open>
  Type soundness of \<open>Load\<close>. \<open>has_type\<close> says which values a field of each type can hold; \<open>type_at\<close>
  follows an index path through the struct types, as \<open>reflect.Value.FieldByIndex\<close> does. The decoder
  \<open>decoderFor\<close> picks for a type yields only values of it, and the walk pairs every index path with the
  decoder of the field it leads to, so what \<open>Load\<close> writes always fits where it is written.
\<close>

section \<open>Values of a type\<close>

fun has_type :: "ty \<Rightarrow> val \<Rightarrow> bool" where
  "has_type (TString n) v = (case v of VString s \<Rightarrow> True | _ \<Rightarrow> False)"
| "has_type (TBool n) v = (case v of VBool b \<Rightarrow> True | _ \<Rightarrow> False)"
| "has_type (TInt n bits) v = (case v of VInt i \<Rightarrow> - (2 ^ (bits - 1)) \<le> i \<and> i < 2 ^ (bits - 1) | _ \<Rightarrow> False)"
| "has_type (TUint n bits) v = (case v of VInt i \<Rightarrow> 0 \<le> i \<and> i < 2 ^ bits | _ \<Rightarrow> False)"
| "has_type (TFloat n bits) v = (case v of VOpaque f \<Rightarrow> True | _ \<Rightarrow> False)"
| "has_type (TText n k) v = (case v of VOpaque f \<Rightarrow> True | _ \<Rightarrow> False)"
| "has_type TDuration v = (case v of VDuration d \<Rightarrow> True | _ \<Rightarrow> False)"
| "has_type (TSlice t) v = (case v of VSlice vs \<Rightarrow> \<forall>u \<in> set vs. has_type t u | _ \<Rightarrow> False)"
| "has_type (TNamedSlice n t) v = (case v of VSlice vs \<Rightarrow> \<forall>u \<in> set vs. has_type t u | _ \<Rightarrow> False)"
| "has_type (TPtr t) v = (case v of VPtr u \<Rightarrow> has_type t u | _ \<Rightarrow> False)"
| "has_type (TStruct n) v = False"
| "has_type (TOther n) v = False"

lemma decode_elements_all:
  "decode_elements elem i ps = Inr vs \<Longrightarrow> v \<in> set vs \<Longrightarrow> \<exists>p \<in> set ps. elem p = Inr v"
proof (induction elem i ps arbitrary: vs rule: decode_elements.induct)
  case (2 elem i p ps)
  show ?case
  proof (cases "elem p")
    case (Inr x)
    with "2.prems" obtain us where us: "decode_elements elem (Suc i) ps = Inr us" "vs = x # us"
      by (auto split: sum.splits)
    with "2.IH" [OF Inr us(1)] Inr "2.prems"(2) show ?thesis by auto
  qed (use "2.prems" in simp)
qed simp

lemma slice_decoder_sound:
  assumes "slice_decoder name t r = Inr dec" "dec raw = Inr v"
    and "\<And>elem x u. r = Inr elem \<Longrightarrow> elem x = Inr u \<Longrightarrow> has_type t u"
  shows "\<exists>vs. v = VSlice vs \<and> (\<forall>u \<in> set vs. has_type t u)"
proof -
  obtain elem where elem: "r = Inr elem" "dec = decode_slice elem"
    using assms(1) by (auto simp: slice_decoder_def split: sum.splits if_splits)
  show ?thesis
  proof (cases "raw = []")
    case False
    then obtain vs where "v = VSlice vs" "decode_elements elem 0 (split_on (CHR '','') raw) = Inr vs"
      using assms(2) elem(2) by (auto simp: decode_slice_def split: sum.splits)
    then show ?thesis using assms(3) [OF elem(1)] by (auto dest: decode_elements_all)
  qed (use assms(2) elem in \<open>auto simp: decode_slice_def\<close>)
qed

lemma decoder_sound: "decoderFor std t = Inr dec \<Longrightarrow> dec raw = Inr v \<Longrightarrow> has_type t v"
proof (induction std t arbitrary: dec raw v rule: decoderFor.induct)
  case (8 std t)
  from slice_decoder_sound [OF 8(2) [simplified] 8(3)] 8(1) show ?case by auto
next
  case (9 std n t)
  from slice_decoder_sound [OF 9(2) [simplified] 9(3)] 9(1) show ?case by auto
qed (auto simp del: One_nat_def simp: decodeDuration_def decodeText_def dest!: parse_int_range parse_uint_range split: sum.splits)

section \<open>The field an index path leads to\<close>

fun type_at :: "structs \<Rightarrow> fld list \<Rightarrow> nat list \<Rightarrow> ty option" where
  "type_at env fs [] = None"
| "type_at env fs [i] = (if i < length fs then Some (f_type (fs ! i)) else None)"
| "type_at env fs (i # j # path) =
     (if i < length fs
      then (case nested_struct (f_type (fs ! i)) of
              None \<Rightarrow> None
            | Some n \<Rightarrow> (case map_of env n of None \<Rightarrow> None | Some flds \<Rightarrow> type_at env flds (j # path)))
      else None)"

lemma type_at_Cons_Suc: "type_at env (f # fs) (Suc j # path) = type_at env fs (j # path)"
  by (cases path) auto

text \<open>
  The bindings the fields from the \<open>i\<close>-th on give: each at an index path of its own, with the decoder
  of the field that path leads to.
\<close>

definition well_placed :: "std \<Rightarrow> structs \<Rightarrow> fld list \<Rightarrow> nat \<Rightarrow> nat list \<Rightarrow> binding list \<Rightarrow> bool" where
  "well_placed std env fs i index bs \<longleftrightarrow> distinct (map b_index bs)
     \<and> (\<forall>b \<in> set bs. \<exists>j path ft. b_index b = index @ (i + j) # path
          \<and> type_at env fs (j # path) = Some ft \<and> decoderFor std ft = Inr (b_dec b))"

lemma well_placed_Nil [simp]: "well_placed std env fs i index []"
  by (simp add: well_placed_def)

lemma well_placed_value:
  "decoderFor std (f_type f) = Inr dec \<Longrightarrow> well_placed std env [f] i index [make_binding f fp key (index @ [i]) dec]"
  by (auto simp: well_placed_def intro!: exI [of _ 0])

lemma well_placed_nested:
  assumes "well_placed std env flds 0 (index @ [i]) bs"
    and "nested_struct (f_type f) = Some n" "map_of env n = Some flds"
  shows "well_placed std env [f] i index bs"
  using assms by (fastforce simp: well_placed_def intro!: exI [of _ 0])

lemma well_placed_Cons:
  assumes here: "well_placed std env [f] i index bs" and rest: "well_placed std env fs (Suc i) index cs"
  shows "well_placed std env (f # fs) i index (bs @ cs)"
proof -
  have first: "\<exists>path ft. b_index b = index @ i # path \<and> type_at env (f # fs) (0 # path) = Some ft
      \<and> decoderFor std ft = Inr (b_dec b)" if b: "b \<in> set bs" for b
  proof -
    obtain j path ft where p: "b_index b = index @ (i + j) # path" "type_at env [f] (j # path) = Some ft"
        "decoderFor std ft = Inr (b_dec b)"
      using here b unfolding well_placed_def by blast
    then have "j = 0 \<and> type_at env (f # fs) (0 # path) = Some ft"
      by (cases path) (simp_all split: if_splits)
    with p show ?thesis by simp
  qed
  have later: "\<exists>j path ft. b_index b = index @ (i + Suc j) # path \<and> type_at env (f # fs) (Suc j # path) = Some ft
      \<and> decoderFor std ft = Inr (b_dec b)" if b: "b \<in> set cs" for b
    using rest b by (auto simp: well_placed_def type_at_Cons_Suc)
  have "b_index b \<noteq> b_index c" if "b \<in> set bs" "c \<in> set cs" for b c
    using first [OF that(1)] later [OF that(2)] by (elim exE conjE) simp
  then have "distinct (map b_index (bs @ cs))"
    using here rest by (auto simp: well_placed_def)
  moreover have "\<exists>j path ft. b_index b = index @ (i + j) # path
      \<and> type_at env (f # fs) (j # path) = Some ft \<and> decoderFor std ft = Inr (b_dec b)" if "b \<in> set (bs @ cs)" for b
    using that first [of b] later [of b] by (metis Un_iff add_0_right set_append)
  ultimately show ?thesis by (simp add: well_placed_def)
qed

lemma walk_bindings:
  "\<exists>bs. w_bindings (walk std env active fs i path prefix index w) = w_bindings w @ bs
     \<and> well_placed std env fs i index bs"
proof (induction std env active fs i path prefix index w rule: walk.induct)
  case (2 std env active f fs i path prefix index w)
  let ?idx = "index @ [i]" and ?fp = "path @ CHR ''.'' # f_name f"
  let ?adds = "\<lambda>w'. \<exists>bs. w_bindings w' = w_bindings w @ bs \<and> well_placed std env [f] i index bs"
  have nested: "?adds (walk std env (active @ [inner]) flds 0 ?fp (prefix @ tag) ?idx w1)"
    if "f_exported f" "f_env f \<noteq> Some ''-''" "\<not> (f_env f \<noteq> None \<and> f_envPrefix f \<noteq> None)"
      "nested_struct (f_type f) = Some inner" "f_envPrefix f = Some tag" "inner \<notin> set active"
      "map_of env inner = Some flds"
      "w1 = (if is_pointer (f_type f) then w\<lparr>w_blocks := w_blocks w @ [\<lparr>k_index = ?idx, k_field = ?fp\<rparr>]\<rparr> else w)"
    for inner tag flds w1
  proof -
    have "\<exists>bs. w_bindings (walk std env (active @ [inner]) flds 0 ?fp (prefix @ tag) ?idx w1) = w_bindings w1 @ bs
        \<and> well_placed std env flds 0 ?idx bs"
      by (rule "2.IH"(1) [where x = ?fp, OF _ refl _ that(2-6) that(8,7)]) (use that(1) in simp_all)
    then show ?thesis
      using well_placed_nested [OF _ that(4,7)] by (auto simp: that(8) split: if_splits)
  qed
  have value_: "?adds (walk_value std f ?fp prefix ?idx w)"
    by (cases rule: walk_value_cases [of std f ?fp prefix ?idx w]) (auto intro: well_placed_value exI [of _ "[]"])
  have same: "?adds w'" if "w_bindings w' = w_bindings w" for w'
    using that by (intro exI [of _ "[]"]) simp
  have step: "\<exists>bs. w_bindings (walk std env active fs (Suc i) path prefix index w') = w_bindings w @ bs
      \<and> well_placed std env (f # fs) i index bs" if adds: "?adds w'" 
      and ih: "\<exists>bs. w_bindings (walk std env active fs (Suc i) path prefix index w') = w_bindings w' @ bs
      \<and> well_placed std env fs (Suc i) index bs" for w'
    using adds ih by (auto intro: well_placed_Cons)
  show ?case
    by (subst walk.simps, unfold Let_def,
        rule step [OF _ "2.IH"(2) [OF refl refl refl [unfolded Let_def], unfolded Let_def]])
       (auto intro: same value_ nested split: option.split)
qed (auto intro: exI [of _ "[]"])

section \<open>Soundness\<close>

lemma buildPlan_well_placed:
  "\<exists>fs. (w_bindings (buildPlan std env t prefix) \<noteq> [] \<longrightarrow> (\<exists>n. struct_of t = Some n \<and> map_of env n = Some fs))
     \<and> well_placed std env fs 0 [] (w_bindings (buildPlan std env t prefix))"
proof (cases "\<exists>n fs. struct_of t = Some n \<and> map_of env n = Some fs")
  case True
  then obtain n fs where n: "struct_of t = Some n" "map_of env n = Some fs" by blast
  show ?thesis
    using walk_bindings [of std env "[n]" fs 0 "short_name n" prefix "[]"
        "\<lparr>w_bindings = [], w_blocks = [], w_violations = [], w_seen = Map.empty\<rparr>"]
    by (auto simp: buildPlan_def n Let_def)
next
  case False
  then have "w_bindings (buildPlan std env t prefix) = []"
    by (auto simp: buildPlan_def Let_def split: option.split)
  then show ?thesis by simp
qed

lemma value_of_index: "(path, x) \<in> set (value_of src b) \<Longrightarrow> path = b_index b \<and> (\<exists>raw. b_dec b raw = Inr x)"
  by (auto simp: value_of_def split: option.splits sum.splits)

lemma distinct_value_of: "distinct (map b_index bs) \<Longrightarrow> distinct (map fst (concat (map (value_of src) bs)))"
proof (induction bs)
  case (Cons b bs)
  then have "distinct (map fst (value_of src b))" "fst ` set (value_of src b) \<subseteq> {b_index b}"
    by (auto simp: value_of_def split: option.split sum.split)
  with Cons show ?case by (fastforce dest: value_of_index)
qed simp

lemma loaded_values:
  assumes "Load std env os_env validate t opts = Inr v"
  obtains src prefix where "ld_values v = concat (map (value_of src)
    (awake src (w_bindings (buildPlan std env t prefix)) (w_blocks (buildPlan std env t prefix))))"
  using assms unfolding Load_def Let_def skips_eq decode_all_eq
  by (auto simp: empty_struct_def awake_def intro: that split: if_splits option.splits)

text \<open>C38: what a successful \<open>Load\<close> writes is well typed. Every value goes to an index path that leads, through
  the nested structs and at most one pointer each, to a field of the configuration type, and is a
  value of that field's type (an integer within its width, a list of elements of the element type, a
  pointer to a value of the type pointed to); and no field is written twice.\<close>

theorem loaded_values_have_the_type_of_their_field:
  assumes "Load std env os_env validate t opts = Inr v"
  shows "distinct (map fst (ld_values v))
    \<and> (\<forall>path x. (path, x) \<in> set (ld_values v) \<longrightarrow>
         (\<exists>n fs ft. struct_of t = Some n \<and> map_of env n = Some fs \<and> type_at env fs path = Some ft \<and> has_type ft x))"
proof -
  obtain src prefix where v: "ld_values v = concat (map (value_of src)
      (awake src (w_bindings (buildPlan std env t prefix)) (w_blocks (buildPlan std env t prefix))))"
    by (rule loaded_values [OF assms])
  let ?bs = "w_bindings (buildPlan std env t prefix)"
  obtain fs where fs: "?bs \<noteq> [] \<longrightarrow> (\<exists>n. struct_of t = Some n \<and> map_of env n = Some fs)"
    and placed: "well_placed std env fs 0 [] ?bs"
    using buildPlan_well_placed by blast
  have "distinct (map fst (ld_values v))"
    unfolding v by (rule distinct_value_of) (use placed in \<open>auto simp: awake_def well_placed_def distinct_map_filter\<close>)
  moreover have "\<exists>n fs ft. struct_of t = Some n \<and> map_of env n = Some fs \<and> type_at env fs path = Some ft \<and> has_type ft x"
    if px: "(path, x) \<in> set (ld_values v)" for path x
  proof -
    obtain b raw where b: "b \<in> set ?bs" "path = b_index b" "b_dec b raw = Inr x"
      using px by (auto simp: v awake_def dest: value_of_index)
    then obtain ft where "type_at env fs path = Some ft" "decoderFor std ft = Inr (b_dec b)"
      using placed by (auto simp: well_placed_def)
    then show ?thesis using b fs by (fastforce dest: decoder_sound)
  qed
  ultimately show ?thesis by blast
qed

theorem loaded_values_have_the_type_of_their_field_witness:
  "\<exists>v x. Load demo_std demo_structs Map.empty None (TStruct ''Cfg'') [WithSource [''REDIS_ADDR'' \<mapsto> ''h:1'']] = Inr v
    \<and> ([0, 0], x) \<in> set (ld_values v) \<and> has_type (TString ''string'') x"
proof -
  obtain v where v: "Load demo_std demo_structs Map.empty None (TStruct ''Cfg'')
      [WithSource [''REDIS_ADDR'' \<mapsto> ''h:1'']] = Inr v" and x: "ld_values v = [([0, 0], VString ''h:1'')]"
    by (simp add: Load_def demo_plan resolve_def skips_def skip_block_def underBlock_def decode_field_def
        fieldByIndexAlloc_def empty_struct_def Let_def)
  have "\<exists>n fs ft. struct_of (TStruct ''Cfg'') = Some n \<and> map_of demo_structs n = Some fs
      \<and> type_at demo_structs fs [0, 0] = Some ft \<and> has_type ft (VString ''h:1'')"
    using loaded_values_have_the_type_of_their_field [OF v] x by simp
  then have "has_type (TString ''string'') (VString ''h:1'')"
    by (simp add: struct_of_def demo_structs_def)
  with v x show ?thesis by auto
qed

end
