(* ===== verification/Mains.thy ===== *)
theory Mains
  imports Stacks Orders App_Config Config_Secret
begin

text \<open>
  The three \<open>main\<close> functions (\<open>examples/*/main.go\<close>): load the configuration or say why not, build the stack,
  run it, and turn what \<open>Run\<close> returns into the exit code. What is observed of a process is its standard
  error, its log lines and its exit code. \<open>run\<close> is what \<open>Run\<close> returned in the execution at hand, under the
  signal context; which results it can return is the subject of \<open>Lifecycle_Props\<close>. The lines are those
  before and after \<open>Run\<close>; a level of info lets both kinds pass.
\<close>

section \<open>Processes\<close>

record process =
  pr_stderr :: string
  pr_log :: "log_line list"
  pr_code :: int

definition plain_line :: "string \<Rightarrow> string \<Rightarrow> (string \<times> log_value) list \<Rightarrow> log_line" where
  "plain_line level msg attrs = \<lparr>ll_level = level, ll_message = msg, ll_span = None, ll_attrs = attrs\<rparr>"

definition refused :: "violation list \<Rightarrow> process" where
  "refused vs = \<lparr>pr_stderr = error_Error vs @ [CHR 0x0A], pr_log = [], pr_code = 1\<rparr>"

definition ended :: "string \<Rightarrow> log_line list \<Rightarrow> goerr option \<Rightarrow> process" where
  "ended msg lines res =
     (case res of
        None \<Rightarrow> \<lparr>pr_stderr = [], pr_log = lines, pr_code = 0\<rparr>
      | Some e \<Rightarrow> \<lparr>pr_stderr = [], pr_log = lines @ [plain_line ''ERROR'' msg [(''err'', LStr (err_text e))]], pr_code = 1\<rparr>)"

text \<open>The fields of a loaded struct, by index path; one that was not written has its zero value.\<close>

definition string_at :: "loaded \<Rightarrow> nat list \<Rightarrow> string" where
  "string_at v path = (case map_of (ld_values v) path of Some (VString s) \<Rightarrow> s | _ \<Rightarrow> [])"

definition duration_at :: "loaded \<Rightarrow> nat list \<Rightarrow> duration" where
  "duration_at v path = (case map_of (ld_values v) path of Some (VDuration d) \<Rightarrow> d | _ \<Rightarrow> 0)"

section \<open>The three processes\<close>

definition starting_line :: "loaded \<Rightarrow> log_line" where
  "starting_line cfg = plain_line ''INFO'' ''starting''
     [(''addr'', LStr (string_at cfg [0])), (''admin_addr'', LStr (string_at cfg [5])),
      (''otel_endpoint'', LStr (string_at cfg [3, 0])), (''db'', LStr (secret_LogValue (Secret (string_at cfg [1]))))]"

definition first_orders :: "string \<Rightarrow> order option option" where
  "first_orders = [''1'' \<mapsto> Some \<lparr>order_ID = ''1'', order_Qty = 3\<rparr>]"

text \<open>
  The API serves the store as it is when a request reads it: \<open>st_now\<close> takes the new store to that state.
  \<open>wildcard\<close> and \<open>miss\<close> are what \<open>ServeMux\<close> makes of a request.
\<close>

definition orders_main ::
  "std \<Rightarrow> 'x library \<Rightarrow> (string \<Rightarrow> func) \<Rightarrow> nat \<Rightarrow> nat \<Rightarrow> handler \<Rightarrow> (srequest \<Rightarrow> string option) \<Rightarrow> (store \<Rightarrow> store)
     \<Rightarrow> (lifecycle \<Rightarrow> goerr option) \<Rightarrow> source \<Rightarrow> 'x world_scheme \<Rightarrow> process \<times> ('x world_scheme \<times> 'x appStack) option"
where
  "orders_main std lib fn self k miss wildcard st_now run os_env w =
     (case Load std orders_structs os_env None (TStruct ''main.AppConfig'') [] of
        Inl vs \<Rightarrow> (refused vs, None)
      | Inr cfg \<Rightarrow>
          let st = NewStore (Some first_orders);
              (w1, s) = orders_buildStack lib fn self k
                \<lparr>ac_APIAddr = string_at cfg [0], ac_AdminAddr = string_at cfg [5], ac_DrainDelay = duration_at cfg [6],
                 ac_Logger = True,
                 ac_Handler = (\<lambda>r. orders_newServer (lib_status_text lib) (lib_otel lib) miss (st_now st) (wildcard r) r),
                 ac_PricingURL = string_at cfg [7]\<rparr> w
          in (ended ''stopped'' [starting_line cfg] (run (as_lc s)), Some (w1, s)))"

definition notifications_main ::
  "std \<Rightarrow> (string \<Rightarrow> goerr + string \<times> string) \<Rightarrow> 'x library \<Rightarrow> (string \<Rightarrow> func) \<Rightarrow> nat \<Rightarrow> nat \<Rightarrow> handler
     \<Rightarrow> (lifecycle \<Rightarrow> goerr option) \<Rightarrow> source \<Rightarrow> 'x world_scheme \<Rightarrow> process \<times> ('x world_scheme \<times> 'x notificationStack) option"
where
  "notifications_main std url_parse lib fn self k handler run os_env w =
     (case Load std notifications_structs os_env (Some (notifications_Validate url_parse)) (TStruct ''main.AppConfig'') [] of
        Inl vs \<Rightarrow> (refused vs, None)
      | Inr cfg \<Rightarrow>
          let (w1, s) = notifications_buildStack lib fn self k
                \<lparr>sc_APIAddr = string_at cfg [0], sc_AdminAddr = string_at cfg [1], sc_ProviderURL = string_at cfg [2],
                 sc_DrainDelay = duration_at cfg [3], sc_Logger = True, sc_Retry = zero_policy\<rparr> handler w
          in (ended ''service stopped'' [] (run (nk_lifecycle s)), Some (w1, s)))"

definition worker_main ::
  "std \<Rightarrow> 'x library \<Rightarrow> (string \<Rightarrow> func) \<Rightarrow> nat \<Rightarrow> (lifecycle \<Rightarrow> goerr option) \<Rightarrow> source \<Rightarrow> process \<times> workerStack option"
where
  "worker_main std lib fn self run os_env =
     (case Load std worker_structs os_env None (TStruct ''main.WorkerConfig'') [] of
        Inl vs \<Rightarrow> (refused vs, None)
      | Inr cfg \<Rightarrow>
          let s = buildWorkerStack lib fn self
                \<lparr>wc_AdminAddr = string_at cfg [0], wc_DrainDelay = duration_at cfg [1], wc_Logger = True\<rparr>
          in (ended ''stopped'' [] (run (wk_lc s)), Some s))"

section \<open>What they tell the outside\<close>

lemma ended_code [simp]: "pr_code (ended msg lines res) = (if res = None then 0 else 1)" "pr_code (refused vs) = 1"
  by (auto simp: ended_def refused_def split: option.split)

lemma itoa_one: "itoa 1 = ''1''"
  by code_simp

text \<open>
  Without a database URL the orders service does not start: one line on standard error names the key
  and the field, nothing is logged, and the exit code is 1.
\<close>

lemma orders_refuses_without_database:
  assumes "std_duration std ''5s'' = Inr d"
  shows "orders_main std lib fn self k miss wildcard st_now run Map.empty w =
     (\<lparr>pr_stderr = ''config: 1 problem'' @ [CHR 0x0A] @ ''  DATABASE_URL (AppConfig.DBURL): required, not set'' @ [CHR 0x0A],
       pr_log = [], pr_code = 1\<rparr>, None)"
  by (simp add: orders_main_def load_without_database [OF assms] refused_def error_Error_def violation_Error_def
      required_def itoa_one)

text \<open>C39: the database URL stays inside the orders process. Under two environments that differ in nothing but
  the value of \<open>DATABASE_URL\<close>, the process writes the same to standard error, logs the same lines, exits
  with the same code, and builds the same stack: nothing of the secret reaches the outside, whether the
  rest of the configuration loads or not.\<close>

theorem database_url_stays_inside:
  assumes "\<forall>key. key \<noteq> ''DATABASE_URL'' \<longrightarrow> os_env key = os_env' key"
    and "os_env ''DATABASE_URL'' \<noteq> None" "os_env' ''DATABASE_URL'' \<noteq> None"
  shows "orders_main std lib fn self k miss wildcard st_now run os_env w
       = orders_main std lib fn self k miss wildcard st_now run os_env' w"
proof -
  have "same_but ''DATABASE_URL'' os_env os_env'" using assms by (simp add: same_but_def)
  note same = orders_load_same_but [OF this, of std]
  show ?thesis
  proof (cases "Load std orders_structs os_env None (TStruct ''main.AppConfig'') []")
    case (Inr v)
    with same obtain v' where v': "Load std orders_structs os_env' None (TStruct ''main.AppConfig'') [] = Inr v'"
      and fields: "\<And>path. path \<noteq> [1] \<Longrightarrow> map_of (ld_values v) path = map_of (ld_values v') path"
      by auto
    have at: "string_at v path = string_at v' path" "duration_at v path = duration_at v' path" if "path \<noteq> [1]" for path
      using fields [OF that] by (simp_all add: string_at_def duration_at_def)
    have "starting_line v = starting_line v'"
      by (simp add: starting_line_def secret_LogValue_def at)
    then show ?thesis by (simp add: orders_main_def Inr v' at)
  qed (use same in \<open>simp add: orders_main_def\<close>)
qed

text \<open>A process that starts, runs and stops.\<close>

definition orders_process :: "source \<Rightarrow> process \<times> (world \<times> unit appStack) option" where
  "orders_process os_env = orders_main (demo_std\<lparr>std_duration := (\<lambda>raw. Inr (5 * second))\<rparr>) demo_library demo_names 7 0
     not_found (\<lambda>r. None) id (\<lambda>l. None) os_env (world.truncate (start_upstream []))"

lemma orders_process_runs: "pr_code (fst (orders_process [''DATABASE_URL'' \<mapsto> url])) = 0"
proof -
  obtain cfg where "Load (demo_std\<lparr>std_duration := (\<lambda>raw. Inr (5 * second))\<rparr>) orders_structs [''DATABASE_URL'' \<mapsto> url] None
      (TStruct ''main.AppConfig'') [] = Inr cfg"
    using load_with_database [of "demo_std\<lparr>std_duration := (\<lambda>raw. Inr (5 * second))\<rparr>"] by fastforce
  then show ?thesis by (simp add: orders_process_def orders_main_def split_beta)
qed

theorem database_url_stays_inside_witness:
  "orders_process [''DATABASE_URL'' \<mapsto> ''postgres://app:hunter2@db/orders'']
      = orders_process [''DATABASE_URL'' \<mapsto> ''postgres://app:correct-horse@db/orders'']
    \<and> pr_code (fst (orders_process [''DATABASE_URL'' \<mapsto> ''postgres://app:hunter2@db/orders''])) = 0"
proof
  show "orders_process [''DATABASE_URL'' \<mapsto> ''postgres://app:hunter2@db/orders'']
      = orders_process [''DATABASE_URL'' \<mapsto> ''postgres://app:correct-horse@db/orders'']"
    unfolding orders_process_def by (rule database_url_stays_inside) simp_all
qed (rule orders_process_runs)

end
