(* ===== verification/Lifecycle_Order.thy ===== *)
theory Lifecycle_Order
  imports Lifecycle_Deps
begin

text \<open>
  The phases of a component's life in their order. A step of \<open>Run\<close> can only take a component forward in
  it, so nothing that was stopped is started again, whatever the interleaving.
\<close>

fun life_rank :: "life \<Rightarrow> nat" where
  "life_rank Fresh = 0"
| "life_rank Booting = 1"
| "life_rank Failed = 2"
| "life_rank Up = 3"
| "life_rank Halting = 4"
| "life_rank Down = 5"
| "life_rank Broken = 6"

lemma life_rank_inject [simp]: "life_rank l = life_rank m \<longleftrightarrow> l = m"
  by (cases l; cases m) simp_all

instantiation life :: linorder
begin

definition less_eq_life :: "life \<Rightarrow> life \<Rightarrow> bool" where
  "l \<le> m \<longleftrightarrow> life_rank l \<le> life_rank m"

definition less_life :: "life \<Rightarrow> life \<Rightarrow> bool" where
  "l < m \<longleftrightarrow> life_rank l < life_rank m"

instance
  by standard (auto simp: less_eq_life_def less_life_def)

end

lemma life_event_forward: "l \<le> life_event i l e"
  by (cases e; cases l) (auto simp: less_eq_life_def)

lemma goroutine_moves_forward:
  "call_start p s = Some s' \<Longrightarrow> life_of s i \<le> life_of s' i"
  "start_returns p res s = Some s' \<Longrightarrow> life_of s i \<le> life_of s' i"
  "call_stop p s = Some s' \<Longrightarrow> life_of s i \<le> life_of s' i"
  "stop_returns p res s = Some s' \<Longrightarrow> life_of s i \<le> life_of s' i"
  by (auto simp: call_start_def start_returns_def call_stop_def stop_returns_def Let_def life_event_forward
      simp del: life_event.simps split: pc.splits if_splits option.splits)

lemma step_moves_forward:
  assumes "run_step a s = Some s'"
  shows "life_of s i \<le> life_of s' i"
proof (cases a)
  case Main
  with assms show ?thesis
    by (auto simp: main_step_def Let_def split: pc.splits if_splits option.splits nat.splits)
qed (use assms in \<open>auto simp: select_ctx_def select_fatal_def intro: goroutine_moves_forward split: if_splits\<close>)

lemma life_moves_forward: "run_steps as s = Some s' \<Longrightarrow> life_of s i \<le> life_of s' i"
proof (induction as arbitrary: s)
  case (Cons a as)
  then obtain s1 where "run_step a s = Some s1" "run_steps as s1 = Some s'"
    by (auto split: option.splits)
  with Cons.IH [of s1] step_moves_forward show ?case by (blast intro: order_trans)
qed simp

text \<open>A component that was stopped stays stopped.\<close>

lemma down_stays_down:
  assumes "wf_lifecycle l" "run_reach l c now s" "run_steps as s = Some s'"
    and "life_of s i = Down"
  shows "life_of s' i = Down"
proof -
  have "life_of s' i \<noteq> Broken"
    by (rule life_inv_not_broken [OF life_inv_reach [OF assms(1) reaches_run_all [OF assms(2,3)]]])
  with life_moves_forward [OF assms(3), of i] assms(4) show ?thesis
    by (cases "life_of s' i") (simp_all add: less_eq_life_def)
qed

end
