(* ===== verification/Lifecycle_Stops.thy ===== *)
theory Lifecycle_Stops
  imports Lifecycle_Order
begin

text \<open>
  What can be told of the components from the returns of their stops: which steps log one, in which
  phase the component was, and that a run whose result is nil has stopped every component without an
  error.
\<close>

definition stop_returned :: "run \<Rightarrow> nat \<Rightarrow> goerr option \<Rightarrow> bool" where
  "stop_returned s i res \<longleftrightarrow> list_ex (\<lambda>(t, e). e = EvStopReturned i res) (r_log s)"

text \<open>The component goroutine \<open>p\<close> of the current level works for.\<close>

definition comp_at :: "run \<Rightarrow> nat \<Rightarrow> nat" where
  "comp_at s p = (case r_pc s of Starting n \<Rightarrow> r_levels s ! n ! p | Stopping n \<Rightarrow> r_levels s ! n ! p | _ \<Rightarrow> 0)"

lemma stop_returned_frame [simp]:
  "stop_returned (log_event e s) i r \<longleftrightarrow> stop_returned s i r \<or> e = EvStopReturned i r"
  "stop_returned (logf m a s) i r = stop_returned s i r" "stop_returned (begin_drain s) i r = stop_returned s i r"
  "stop_returned (s\<lparr>r_pc := a1\<rparr>) i r = stop_returned s i r" "stop_returned (s\<lparr>r_gs := b\<rparr>) i r = stop_returned s i r"
  "stop_returned (s\<lparr>r_errs := c\<rparr>) i r = stop_returned s i r" "stop_returned (s\<lparr>r_started := d\<rparr>) i r = stop_returned s i r"
  "stop_returned (s\<lparr>r_cancelled := e1\<rparr>) i r = stop_returned s i r" "stop_returned (s\<lparr>r_start_err := f\<rparr>) i r = stop_returned s i r"
  "stop_returned (s\<lparr>r_stop_errs := g\<rparr>) i r = stop_returned s i r" "stop_returned (s\<lparr>r_now := h\<rparr>) i r = stop_returned s i r"
  "stop_returned (s\<lparr>r_lc := k\<rparr>) i r = stop_returned s i r"
  by (auto simp: stop_returned_def logf_def begin_drain_def log_event_def)

lemma stop_returned_goroutine:
  "call_start p s = Some s' \<Longrightarrow> stop_returned s' i r = stop_returned s i r"
  "start_returns p res s = Some s' \<Longrightarrow> stop_returned s' i r = stop_returned s i r"
  "call_stop p s = Some s' \<Longrightarrow> stop_returned s' i r = stop_returned s i r"
  "stop_returns p res s = Some s' \<Longrightarrow> stop_returned s' i r \<longleftrightarrow> stop_returned s i r \<or> (i = comp_at s p \<and> r = res)"
  by (auto simp: call_start_def start_returns_def call_stop_def stop_returns_def comp_at_def Let_def
      split: pc.splits if_splits option.splits)

lemma stop_returned_step:
  assumes "run_step a s = Some s'"
  shows "stop_returned s' i r \<longleftrightarrow> stop_returned s i r \<or> (\<exists>p. a = StopReturns p r \<and> i = comp_at s p)"
proof (cases a)
  case Main
  with assms show ?thesis
    by (auto simp: main_step_def Let_def split: pc.splits if_splits option.splits nat.splits)
next
  case (StopReturns p res)
  with assms stop_returned_goroutine(4) [of p res s s' i r] show ?thesis by auto
qed (use assms in \<open>auto simp: select_ctx_def select_fatal_def stop_returned_goroutine split: if_splits\<close>)

text \<open>The stop that returns was under way; the call of a stop begins it.\<close>

lemma stop_returns_life:
  assumes "stop_returns p res s = Some s'"
  shows "life_of s' (comp_at s p) = life_event (comp_at s p) (life_of s (comp_at s p)) (EvStopReturned (comp_at s p) res)"
  using assms by (auto simp: stop_returns_def comp_at_def Let_def split: pc.splits if_splits option.splits)

lemma call_stop_life:
  assumes "call_stop p s = Some s'"
  shows "Halting \<le> life_of s' (comp_at s p)"
proof -
  have "\<exists>c. life_of s' (comp_at s p) = life_event (comp_at s p) (life_of s (comp_at s p)) (EvStop (comp_at s p) c)"
    using assms by (auto simp: call_stop_def comp_at_def Let_def split: pc.splits if_splits option.splits)
  then show ?thesis by (auto simp: less_eq_life_def)
qed

lemma down_stop_returned: "life_of s i = Down \<Longrightarrow> \<exists>r. stop_returned s i r"
proof -
  have "foldl (life_event i) Fresh (map snd log) = Down \<Longrightarrow> \<exists>r. list_ex (\<lambda>(t, e). e = EvStopReturned i r) log" for log
  proof (induction log rule: rev_induct)
    case (snoc x log)
    obtain t e where x: "x = (t, e)" by fastforce
    show ?case
    proof (cases "\<exists>r. e = EvStopReturned i r")
      case False
      with snoc.prems have "foldl (life_event i) Fresh (map snd log) = Down"
        by (cases e) (auto simp: x split: if_splits)
      with snoc.IH show ?thesis by auto
    qed (auto simp: x)
  qed simp
  then show "life_of s i = Down \<Longrightarrow> \<exists>r. stop_returned s i r"
    by (auto simp: life_of_def stop_returned_def)
qed

section \<open>A nil result\<close>

definition clean_inv :: "run \<Rightarrow> bool" where
  "clean_inv s \<longleftrightarrow> (r_pc s = Result None \<longrightarrow> r_start_err s = None \<and> r_stop_errs s = [])"

lemma run_result_None: "run_result s = None \<longleftrightarrow> r_start_err s = None \<and> r_stop_errs s = [] \<and> lc_fatalErr (r_lc s) = None"
  by (auto simp: run_result_def join_errors_None_iff Let_def split: option.split)

lemma clean_inv_step:
  assumes "clean_inv s" "run_step a s = Some s'"
  shows "clean_inv s'"
proof (cases a)
  case Main
  then have m: "main_step s = Some s'" using assms(2) by simp
  show ?thesis
  proof (cases "r_pc s")
    case Before
    with m show ?thesis by (auto simp: main_step_def clean_inv_def join_errors_None_iff neq_Nil_conv split: if_splits)
  next
    case (NextStop k)
    with m have "s' = (case k of 0 \<Rightarrow> s\<lparr>r_pc := Result (run_result s)\<rparr> | Suc n \<Rightarrow> s')" "k \<noteq> 0 \<longrightarrow> (\<exists>n. r_pc s' = Stopping n)"
      by (auto simp: main_step_def split: nat.splits)
    then show ?thesis by (cases k) (auto simp: clean_inv_def run_result_None dest: arg_cong [where f = r_pc])
  qed (use m in \<open>auto simp: main_step_def clean_inv_def Let_def split: if_splits option.splits\<close>)
qed (use assms in \<open>auto simp: clean_inv_def step_defs Let_def split: pc.splits if_splits option.splits\<close>)

interpretation clean: invariant run_step "run_init l c now" clean_inv for l c now
  by unfold_locales (simp add: clean_inv_def run_init_def, rule clean_inv_step)

lemmas clean_inv_reach = clean.holds

lemma run_step_errs:
  assumes "run_step a s = Some s'"
  shows "lc_errs (r_lc s') = lc_errs (r_lc s)"
proof (cases a)
  case Main
  with assms show ?thesis
    by (auto simp: main_step_def Let_def split: pc.splits if_splits option.splits nat.splits)
next
  case (CallStart p)
  with assms goroutine_frame(2) [of p s s' None] show ?thesis by simp
next
  case (StartReturns p res)
  with assms goroutine_frame(2) [of p s s' res] show ?thesis by simp
next
  case (CallStop p)
  with assms goroutine_frame(2) [of p s s' None] show ?thesis by simp
next
  case (StopReturns p res)
  with assms goroutine_frame(2) [of p s s' res] show ?thesis by simp
qed (use assms in \<open>auto simp: select_ctx_def select_fatal_def split: if_splits\<close>)

interpretation kept_errs: invariant run_step "run_init l c now" "\<lambda>s. lc_errs (r_lc s) = lc_errs l" for l c now
  by unfold_locales (simp add: run_init_def, simp add: run_step_errs)

lemma run_reach_errs: "run_reach l c now s \<Longrightarrow> lc_errs (r_lc s) = lc_errs l"
  by (rule kept_errs.holds)

text \<open>If \<open>Run\<close> returns nil, every component has been stopped, and its stop returned nil.\<close>

lemma clean_result:
  assumes "wf_lifecycle l" "run_reach l c now s" "lc_errs l = []" "r_pc s = Result None" "i < length (lc_comps l)"
  shows "stop_returned s i None"
proof -
  have clean: "r_start_err s = None" "r_stop_errs s = []"
    using clean_inv_reach [OF assms(2)] assms(4) by (simp_all add: clean_inv_def)
  have "life_of s i = Down"
    using complete_inv_reach [OF assms(1,2)] assms clean run_reach_errs [OF assms(2)] run_reach_comps [OF assms(2)]
    by (simp add: complete_inv_def)
  then obtain r where r: "stop_returned s i r" using down_stop_returned by blast
  have "stop_failures (r_comps s) (r_log s) = []"
    using error_inv_reach [OF assms(2)] clean by (simp add: error_inv_def)
  with r show ?thesis
    by (cases r) (auto simp: stop_returned_def list_ex_iff stop_failures_def)
qed

end
