(* ===== verification/Service_Run.thy ===== *)
theory Service_Run
  imports Lifecycle_Stops Delivery_Props
begin

text \<open>
  The notification service as a whole: \<open>Run\<close> over its stack and the store, queue and worker, in one
  machine. The calls the lifecycle makes into the delivery worker (component 1) are the worker's own
  steps: its start begins the goroutine and returns nil, its stop closes the queue, and the stop
  returns when the \<open>select\<close> in it does. Of the API server (component 2) one thing matters here, which
  \<open>net/http\<close> documents: \<open>Shutdown\<close> returns nil only when no handler is running any more, and none starts
  later. Until then handlers may submit, also ones that outlive a \<open>Shutdown\<close> which returned at its
  deadline. (They may also submit before the API is up, which is more than can happen.)
\<close>

record service =
  se_run :: run
  se_system :: system

definition service_init :: "lifecycle \<Rightarrow> ctx \<Rightarrow> time \<Rightarrow> service" where
  "service_init l c now = \<lparr>se_run = run_init l c now, se_system = newDeliveryWorker\<rparr>"

fun couple :: "action \<Rightarrow> run \<Rightarrow> system \<Rightarrow> system option" where
  "couple (CallStart p) s y = (if comp_at s p = 1 then worker_start y else Some y)"
| "couple (StartReturns p res) s y = (if comp_at s p = 1 \<and> res \<noteq> None then None else Some y)"
| "couple (CallStop p) s y = (if comp_at s p = 1 then Some (worker_stop y) else Some y)"
| "couple (StopReturns p res) s y =
     (if comp_at s p = 1 then stop_answers res y
      else if comp_at s p = 2 \<and> res = None \<and> sy_sending y \<noteq> [] then None else Some y)"
| "couple _ s y = Some y"

datatype service_action = Life action | Work system_action

definition quiet :: "run \<Rightarrow> bool" where
  "quiet s \<longleftrightarrow> stop_returned s 2 None"

fun own_step :: "system_action \<Rightarrow> run \<Rightarrow> bool" where
  "own_step (Submit c r m) s = (\<not> quiet s)"
| "own_step (Proceed p) s = True"
| "own_step Receive s = True"
| "own_step (Delivered e) s = True"
| "own_step _ s = False"

fun service_step :: "service_action \<Rightarrow> service \<Rightarrow> service option" where
  "service_step (Life a) x =
     (case run_step a (se_run x) of
        None \<Rightarrow> None
      | Some s \<Rightarrow> (case couple a (se_run x) (se_system x) of None \<Rightarrow> None | Some y \<Rightarrow> Some \<lparr>se_run = s, se_system = y\<rparr>))"
| "service_step (Work a) x =
     (if own_step a (se_run x)
      then case system_step a (se_system x) of None \<Rightarrow> None | Some y \<Rightarrow> Some (x\<lparr>se_system := y\<rparr>)
      else None)"

text \<open>Both parts of the whole are runs of their own machines.\<close>

lemma couple_steps:
  assumes "couple a s y = Some y'"
  shows "y' = y \<or> (\<exists>b. system_step b y = Some y')"
proof -
  have "\<exists>b. system_step b y = Some y'" if "worker_start y = Some y'"
    using that by (intro exI [of _ WorkerStart]) simp
  moreover have "\<exists>b. system_step b y = Some (worker_stop y)"
    by (intro exI [of _ WorkerStop]) simp
  moreover have "\<exists>b. system_step b y = Some y'" if "stop_answers res y = Some y'" for res
    using that by (intro exI [of _ "StopAnswers res"]) simp
  ultimately show ?thesis using assms by (cases a) (auto split: if_splits)
qed

abbreviation service_reach :: "lifecycle \<Rightarrow> ctx \<Rightarrow> time \<Rightarrow> service \<Rightarrow> bool" where
  "service_reach l c now \<equiv> reaches service_step (service_init l c now)"

lemma service_parts_step:
  assumes "run_reach l c now (se_run x) \<and> system_reach (se_system x)" "service_step a x = Some x'"
  shows "run_reach l c now (se_run x') \<and> system_reach (se_system x')"
proof (cases a)
  case (Life b)
  with assms(2) obtain s y where parts: "run_step b (se_run x) = Some s" "couple b (se_run x) (se_system x) = Some y"
    "x' = \<lparr>se_run = s, se_system = y\<rparr>" by (auto split: option.splits)
  have "system_reach y"
    using couple_steps [OF parts(2)] assms(1) by (auto intro: reaches.reaches_step)
  with assms(1) parts show ?thesis by (auto intro: reaches.reaches_step)
next
  case (Work b)
  with assms show ?thesis by (auto intro: reaches.reaches_step split: if_splits option.splits)
qed

interpretation parts: invariant service_step "service_init l c now"
    "\<lambda>x. run_reach l c now (se_run x) \<and> system_reach (se_system x)" for l c now
  by unfold_locales (simp add: service_init_def reaches.reaches_refl, rule service_parts_step)

lemmas service_parts = parts.holds

section \<open>What holds between them\<close>

definition service_inv :: "service \<Rightarrow> bool" where
  "service_inv x \<longleftrightarrow>
     (stop_returned (se_run x) 1 None \<longrightarrow> sy_worker (se_system x) = Exited)
     \<and> (quiet (se_run x) \<longrightarrow> sy_sending (se_system x) = [] \<and> sy_lost (se_system x) = [])
     \<and> (ns_closed (sy_store (se_system x)) \<longrightarrow> Halting \<le> life_of (se_run x) 1)"

text \<open>What the worker's own steps leave alone.\<close>

lemma own_step_frame:
  assumes "own_step a s" "system_step a y = Some y'"
  shows "ns_closed (sy_store y') = ns_closed (sy_store y)"
    and "sy_worker y = Exited \<Longrightarrow> sy_worker y' = Exited"
    and "quiet s \<Longrightarrow> sy_sending y = [] \<Longrightarrow> sy_sending y' = [] \<and> sy_lost y' = sy_lost y"
  using assms
  by (cases a; auto simp: system_defs Let_def split: if_splits option.splits sum.splits worker.splits list.splits)+

lemma couple_frame:
  assumes "couple a s y = Some y'"
  shows "sy_sending y' = sy_sending y" "sy_lost y' = sy_lost y" "sy_worker y = Exited \<Longrightarrow> sy_worker y' = Exited"
    and "ns_closed (sy_store y') \<Longrightarrow> ns_closed (sy_store y) \<or> (\<exists>p. a = CallStop p \<and> comp_at s p = 1)"
  using assms
  by (cases a; auto simp: worker_start_def worker_stop_def stop_answers_def Let_def split: if_splits)+

text \<open>When the API's \<open>Shutdown\<close> has returned, its dependency is still up, so nothing has been lost yet.\<close>

lemma nothing_lost_at_shutdown:
  assumes "wf_lifecycle l" "run_reach l c now s" "2 < length (lc_comps l)" "1 \<in> set (c_after (lc_comps l ! 2))"
    and "run_step (StopReturns p res) s = Some s'" "comp_at s p = 2"
  shows "life_of s 1 = Up"
proof -
  have "run_reach l c now s'" using assms(2,5) by (rule reaches.reaches_step)
  then have "life_of s' 2 \<noteq> Broken" by (intro life_inv_not_broken life_inv_reach [OF assms(1)])
  moreover have "life_of s' 2 = life_event 2 (life_of s 2) (EvStopReturned 2 res)"
    using stop_returns_life [of p res s s'] assms(5,6) by simp
  ultimately have "life_of s 2 = Halting" by (simp split: if_splits)
  then show ?thesis using dependency_up_reach [OF assms(1-4)] by simp
qed

text \<open>A step of the lifecycle with what it does to the queue: the three parts of the invariant.\<close>

lemma worker_exits_before_its_stop_returns:
  assumes "run_step b r = Some s" "couple b r y = Some y'"
    and "stop_returned r 1 None \<longrightarrow> sy_worker y = Exited" "stop_returned s 1 None"
  shows "sy_worker y' = Exited"
proof (cases "stop_returned r 1 None")
  case True
  with assms(3) couple_frame(3) [OF assms(2)] show ?thesis by simp
next
  case False
  with assms(4) stop_returned_step [OF assms(1)] assms(2) show ?thesis
    by (auto simp: stop_answers_def split: if_splits)
qed

lemma queue_closes_while_stopping:
  assumes "run_step b r = Some s" "couple b r y = Some y'"
    and "ns_closed (sy_store y) \<longrightarrow> Halting \<le> life_of r 1" "ns_closed (sy_store y')"
  shows "Halting \<le> life_of s 1"
  using couple_frame(4) [OF assms(2,4)]
proof
  assume "ns_closed (sy_store y)"
  then have "Halting \<le> life_of r 1" using assms(3) by simp
  also have "\<dots> \<le> life_of s 1" by (rule step_moves_forward [OF assms(1)])
  finally show ?thesis .
next
  assume "\<exists>p. b = CallStop p \<and> comp_at r p = 1"
  then show ?thesis using assms(1) call_stop_life by fastforce
qed

lemma shutdown_leaves_no_handler:
  assumes wf: "wf_lifecycle l" "2 < length (lc_comps l)" "1 \<in> set (c_after (lc_comps l ! 2))"
    and parts: "run_reach l c now r" "flow_inv y"
    and step: "run_step b r = Some s" "couple b r y = Some y'"
    and inv: "quiet r \<longrightarrow> sy_sending y = [] \<and> sy_lost y = []" "ns_closed (sy_store y) \<longrightarrow> Halting \<le> life_of r 1"
    and quiet: "quiet s"
  shows "sy_sending y' = [] \<and> sy_lost y' = []"
proof (cases "quiet r")
  case True
  with inv(1) couple_frame(1,2) [OF step(2)] show ?thesis by simp
next
  case False
  with quiet obtain p where b: "b = StopReturns p None" "comp_at r p = 2"
    using stop_returned_step [OF step(1)] by (auto simp: quiet_def)
  then have "sy_sending y' = []" using step(2) couple_frame(1) [OF step(2)] by (auto split: if_splits)
  moreover have "life_of r 1 = Up"
    by (rule nothing_lost_at_shutdown [OF wf(1) parts(1) wf(2,3) step(1) [unfolded b(1)] b(2)])
  then have "\<not> ns_closed (sy_store y)" using inv(2) by (auto simp: less_eq_life_def)
  then have "sy_lost y' = []" using parts(2) couple_frame(2) [OF step(2)] by (auto simp: flow_inv_def)
  ultimately show ?thesis by simp
qed

lemma service_inv_step:
  assumes wf: "wf_lifecycle l" "2 < length (lc_comps l)" "1 \<in> set (c_after (lc_comps l ! 2))"
    and parts: "run_reach l c now (se_run x)" "system_reach (se_system x)"
    and inv: "service_inv x" and step: "service_step a x = Some x'"
  shows "service_inv x'"
proof (cases a)
  case (Work b)
  then obtain y where own: "own_step b (se_run x)" "system_step b (se_system x) = Some y" and x': "x' = x\<lparr>se_system := y\<rparr>"
    using step by (auto split: if_splits option.splits)
  show ?thesis
    using inv own_step_frame [OF own] by (auto simp: service_inv_def x')
next
  case (Life b)
  then obtain s y where run: "run_step b (se_run x) = Some s" and couple: "couple b (se_run x) (se_system x) = Some y"
    and x': "x' = \<lparr>se_run = s, se_system = y\<rparr>"
    using step by (auto split: option.splits)
  show ?thesis
    using inv worker_exits_before_its_stop_returns [OF run couple] queue_closes_while_stopping [OF run couple]
      shutdown_leaves_no_handler [OF wf parts(1) flow.holds [OF parts(2)] run couple]
    by (simp add: service_inv_def x')
qed

interpretation service_runs: supported service_step "service_init l c now"
    "\<lambda>x. run_reach l c now (se_run x) \<and> system_reach (se_system x)"
    "\<lambda>x. wf_lifecycle l \<and> 2 < length (lc_comps l) \<and> 1 \<in> set (c_after (lc_comps l ! 2)) \<longrightarrow> service_inv x" for l c now
  by unfold_locales
     (simp add: service_inv_def service_init_def newDeliveryWorker_def newNotificationStore_def run_init_def
        stop_returned_def quiet_def, blast intro: service_inv_step)

lemma service_inv_reach:
  assumes "wf_lifecycle l" "2 < length (lc_comps l)" "1 \<in> set (c_after (lc_comps l ! 2))" "service_reach l c now x"
  shows "service_inv x"
  using service_runs.also_holds [OF assms(4)] assms(1-3) by simp

section \<open>A day of the service\<close>

text \<open>
  Two notifications, of which one is still inside \<open>submit\<close> when the service drains and one fails. The
  lifecycle is the one \<open>buildStack\<close> registers, with the names of its functions replaced by numbers.
\<close>

definition demo_service :: lifecycle where
  "demo_service =
     (let l0 = OnDrain (OnStarted (lifecycle_New 7 \<lparr>cfg_DrainDelay = 0, cfg_StopTimeout = 0, cfg_Logger = False\<rparr>) 1) 2;
          (l1, r0) = lifecycle_Add l0 ''provider-client'' (Some 3) (Some 4) [];
          (l2, r1) = lifecycle_Add l1 ''delivery-worker'' (Some 5) (Some 6) [After [r0]];
          (l3, r2) = lifecycle_Add l2 ''api'' (Some 7) (Some 8) [After [r1]];
          (l4, r3) = lifecycle_Add l3 ''admin'' (Some 9) (Some 10) [After [r1]]
      in l4)"

definition demo_day :: "service_action list" where
  "demo_day =
     map Life [Main, Main, CallStart 0, StartReturns 0 None, Main, Main, CallStart 0, StartReturns 0 None, Main, Main,
       CallStart 0, CallStart 1, StartReturns 0 None, StartReturns 1 None, Main, Main, Main, Main]
     @ map Work [Submit background ''ann'' ''hi'', Submit background ''bob'' ''yo'', Proceed 1, Receive, Delivered None]
     @ map Life [Tick 5, SelectCtx, Main, Main, Main, CallStop 0, CallStop 1]
     @ [Work (Proceed 0), Life (StopReturns 1 None), Life (StopReturns 0 None)]
     @ map Life [Main, Main, CallStop 0]
     @ map Work [Receive, Delivered (Some DeadlineExceeded), Receive]
     @ map Life [StopReturns 0 None, Main, Main, CallStop 0, StopReturns 0 None, Main, Main]"

lemma demo_day_runs:
  "case run_all service_step demo_day (service_init demo_service demo_ctx 0) of
     None \<Rightarrow> False | Some x \<Rightarrow> r_pc (se_run x) = Result None \<and> length (sy_handled (se_system x)) = 2"
  by code_simp

end
