(* ===== verification/Graceful.thy ===== *)
theory Graceful
  imports Stacks Service_Run
begin

text \<open>
  The promise of the composed notification service (\<open>Service_Run\<close>) on the stack \<open>buildStack\<close> registers.
\<close>

section \<open>A clean run loses nothing\<close>

text \<open>C15: a clean run loses no notification. In every interleaving of requests, deliveries and the lifecycle of
  the notification service as \<open>buildStack\<close> registers it: if \<open>Run\<close> returns nil, every notification that was
  ever submitted has been handled, each exactly once; none is in a sender's hands, in the queue, with the
  worker, or lost to the closed queue; and what the store then says of each is how its delivery ended.\<close>

theorem clean_run_loses_no_notification:
  assumes "service_reach (nk_lifecycle (snd (notifications_buildStack lib fn self k cfg handler w))) c now x"
    and "r_pc (se_run x) = Result None"
  shows "let y = se_system x in
     mset (sy_submitted y) = mset (map fst (sy_handled y))
     \<and> sy_sending y = [] \<and> ns_queue (sy_store y) = [] \<and> sy_worker y = Exited \<and> sy_lost y = []
     \<and> (length (sy_submitted y) < 2 ^ 64 \<longrightarrow> (\<forall>(q, err) \<in> set (sy_handled y).
          store_get (sy_store y) (n_ID (qn_notification q))
            = Some ((qn_notification q)\<lparr>n_Status := (if err = None then ''delivered'' else ''failed'')\<rparr>)))"
proof -
  let ?l = "nk_lifecycle (snd (notifications_buildStack lib fn self k cfg handler w))" and ?y = "se_system x"
  note reg = notifications_registration [of lib fn self k cfg handler w, unfolded Let_def]
  have "length (lc_comps ?l) = length (names_and_deps ?l)" by (simp add: names_and_deps_def)
  then have len: "length (lc_comps ?l) = 4" using reg by simp
  then have "c_after (lc_comps ?l ! 2) = snd (names_and_deps ?l ! 2)" by (simp add: names_and_deps_def)
  then have dep: "1 \<in> set (c_after (lc_comps ?l ! 2))" using reg by simp
  have wf: "wf_lifecycle ?l" "lc_errs ?l = []" using reg by blast+
  note parts = service_parts [OF assms(1)]
  have inv: "service_inv x" by (rule service_inv_reach [OF wf(1) _ dep assms(1)]) (simp add: len)
  have "stop_returned (se_run x) i None" if "i < 4" for i
    by (rule clean_result [OF wf(1) parts [THEN conjunct1] wf(2) assms(2)]) (use that len in simp)
  then have ended: "sy_worker ?y = Exited" "sy_sending ?y = []" "sy_lost ?y = []"
    using inv by (simp_all add: service_inv_def quiet_def)
  have status: "status_inv ?y" using status.holds parts by blast
  then have flow: "flow_inv ?y" by (simp add: status_inv_def)
  then have "mset (sy_submitted ?y) = mset (map fst (sy_handled ?y))" "ns_queue (sy_store ?y) = []"
    using ended by (simp_all add: flow_inv_def in_hand_def)
  moreover have "store_get (sy_store ?y) (qn_id q) = Some ((qn_notification q)\<lparr>n_Status := outcome_status err\<rparr>)"
    if "length (sy_submitted ?y) < 2 ^ 64" "(q, err) \<in> set (sy_handled ?y)" for q err
  proof -
    have "progress (ns_items (sy_store ?y)) (set (tracked ?y))" using status that(1) by (simp add: status_inv_def)
    moreover have "(q, outcome_status err) \<in> set (tracked ?y)" using that(2) by (force simp: tracked_def)
    ultimately show ?thesis unfolding store_get_def by (rule progressD)
  qed
  ultimately show ?thesis using ended by (auto simp: outcome_status_def Let_def)
qed

definition demo_functions :: "string \<Rightarrow> func" where
  "demo_functions x = (case map_of [(''health.Up'', 1), (''health.Drain'', 2), (''noop'', 3),
     (''provider.closeIdleConnections'', 4), (''worker.start'', 5), (''worker.stop'', 6), (''api.Start'', 7),
     (''api.Shutdown'', 8), (''admin.Start'', 9), (''admin.Shutdown'', 10)] x of None \<Rightarrow> 0 | Some f \<Rightarrow> f)"

definition demo_config :: stackConfig where
  "demo_config = \<lparr>sc_APIAddr = [], sc_AdminAddr = [], sc_ProviderURL = [], sc_DrainDelay = 0, sc_Logger = False,
     sc_Retry = zero_policy\<rparr>"

lemma demo_service_built:
  "nk_lifecycle (snd (notifications_buildStack demo_library demo_functions 7 0 demo_config handler w)) = demo_service"
  by (simp add: notifications_buildStack_def demo_service_def health_lifecycle_def demo_config_def demo_functions_def
      split_beta Let_def)

theorem clean_run_loses_no_notification_witness:
  "\<exists>x. run_all service_step demo_day (service_init demo_service demo_ctx 0) = Some x \<and> r_pc (se_run x) = Result None
    \<and> length (sy_handled (se_system x)) = 2
    \<and> mset (sy_submitted (se_system x)) = mset (map fst (sy_handled (se_system x)))"
proof -
  obtain x where x: "run_all service_step demo_day (service_init demo_service demo_ctx 0) = Some x"
    "r_pc (se_run x) = Result None" "length (sy_handled (se_system x)) = 2"
    using demo_day_runs by (auto split: option.splits)
  have "service_reach (nk_lifecycle (snd (notifications_buildStack demo_library demo_functions 7 0 demo_config
      (script_handler [] None) (world.truncate (start_upstream []))))) demo_ctx 0 x"
    using reachesI [OF x(1)] by (simp add: demo_service_built)
  from clean_run_loses_no_notification [OF this x(2)] x show ?thesis by (auto simp: Let_def)
qed

end
