(* ===== verification/Spec2Isabelle.thy ===== *)
theory Spec2Isabelle
  imports Breaker_Runs Kit Timeout_Props Lifecycle_Props Signals Config_Load Observability_Gaps Http_Server Probes
    Contract Kit_Logger Config_Secret Orders Notify_Http Delivery_Props Stacks Consumer Log_Records App_Config Pprof
    Config_Types Mains Graceful
begin

text \<open>
  svcrt is a set of small Go modules for building services: configuration, logging, an HTTP server with
  probes, an HTTP client with resilience, telemetry middleware, a lifecycle that starts and stops
  components in order, and test helpers; three example services compose them. This development models
  the whole implementation under \<open>src/\<close>, package by package, and proves what makes each part, and the
  compositions, correct. The claims C1 to C40 stand right before their theorems; the numbering is by
  importance.

  \<^bold>\<open>Conventions.\<close> A Go struct is a record, an enum or a sum of cases a datatype; \<open>int64\<close> and
  \<open>time.Duration\<close> are 64-bit words read by \<open>sint\<close>, with Go's wrap-around; a Go string is the list of its
  bytes. An error is a \<open>goerr\<close>, nil is \<open>None\<close>; a call that may panic returns an \<open>outcome\<close>; a fallible
  function returns a sum. Shared memory is explicit: a client-side call threads a \<open>world\<close> (clock, random
  source, response bodies, circuit breakers, the log of calls to the network and to OpenTelemetry), a
  handler threads an \<open>hstate\<close> (the connection, the log, the matched patterns). Code with goroutines is a
  step function on a state; mutex sections, channel operations and calls of the caller's functions are
  single steps, and the theorems hold for every interleaving (\<open>run_reach\<close>, \<open>breaker_reach\<close>, \<open>reaches\<close>).

  \<^bold>\<open>Foundations.\<close> What every part rests on:

  \<^item> \<open>Prelude\<close>: words, time, errors and their chains (\<open>errors.Is\<close>, \<open>errors.As\<close>, \<open>errors.Join\<close>), outcomes,
    and the collections of rules the rest uses.
  \<^item> \<open>Go_Strings\<close>: what is used of \<open>strings\<close>, \<open>strconv\<close> and \<open>unicode/utf8\<close>, with the round trips of decimal
    numbers and of split and join.
  \<^item> \<open>Http\<close>, \<open>World\<close>: contexts, requests, responses, \<open>http.RoundTripper\<close> as a function of the world, and
    what the modules rely on of a transport as locales (\<open>transport\<close>, \<open>single_send\<close>, \<open>network\<close>).
  \<^item> \<open>Middleware\<close>: the three \<open>Chain\<close> folds and their common law, a locale interpreted on each.
  \<^item> \<open>Machine\<close>: runs and reachable states of step functions; invariants, invariants that rest on another and
    measures as three locales, interpreted on every machine below.

  \<^bold>\<open>resilience.\<close> \<open>Backoff\<close> (\<open>backoff.go\<close>), \<open>Breaker\<close> and \<open>Breaker_Runs\<close> (\<open>breaker.go\<close>: the policy, the state
  machine, its refinement of an abstract circuit, every interleaving), \<open>Retry\<close>, \<open>Retry_Facts\<close>,
  \<open>Retry_Props\<close> (\<open>retry.go\<close>, \<open>retryafter.go\<close>), \<open>Resilience\<close> (the middlewares \<open>Breaker\<close> and \<open>Timeout\<close>,
  \<open>timeout.go\<close>), \<open>Timeout_Props\<close>. The retry loop recurses on \<open>MaxAttempts\<close> minus the attempt; that
  measure is its termination proof, no fuel is involved. The Retry theorems bound what is sent, say who
  owns every response, and give the caller the recovery of an upstream exactly within the budget.

  \<^bold>\<open>httpclient, telemetry, kit.\<close> \<open>Httpclient\<close> (\<open>httpclient/client.go\<close>), \<open>Telemetry_Client\<close>
  (\<open>telemetry.go\<close>, \<open>client.go\<close>), \<open>Telemetry_Server\<close> (\<open>server.go\<close>, \<open>extractor.go\<close>), \<open>Kit\<close> (\<open>kit/client.go\<close>:
  a call of the whole stack is one logical call), \<open>Kit_Logger\<close> (\<open>kit/logger.go\<close>).

  \<^bold>\<open>httpserver.\<close> \<open>Http_Handlers\<close> (\<open>accesslog.go\<close>, \<open>recover.go\<close>), \<open>Health\<close> (\<open>health.go\<close>, \<open>admin.go\<close>),
  \<open>Http_Server\<close> (\<open>server.go\<close> as a machine with its listeners and serving goroutines, and the race of a
  \<open>Start\<close> with a \<open>Shutdown\<close>), \<open>Pprof\<close>
  (\<open>pprof/pprof.go\<close>), \<open>Observability_Gaps\<close> (two responses the access log does not describe).

  \<^bold>\<open>lifecycle.\<close> \<open>Lifecycle\<close>, \<open>Lifecycle_Levels\<close> (registration, start levels against their meaning),
  \<open>Lifecycle_Run\<close> (\<open>Run\<close> as a machine of interleaved steps), \<open>Lifecycle_Inv\<close>, \<open>Lifecycle_Reports\<close>,
  \<open>Lifecycle_Props\<close> (order of starts and stops, hooks, returned errors, termination by the measure
  \<open>steps_left\<close>), \<open>Lifecycle_Order\<close> and \<open>Lifecycle_Stops\<close> (no component goes back in its life; a nil
  result means every stop returned nil), \<open>Signals\<close> (\<open>signal.go\<close>), \<open>Lifecycle_Deps\<close> and \<open>Probes\<close>
  (dependencies and readiness of a running service; the composition with \<open>httpserver\<close>).

  \<^bold>\<open>config.\<close> \<open>Config_Source\<close> (\<open>source.go\<close>), \<open>Config_Plan\<close> (\<open>plan.go\<close>, \<open>decode.go\<close>, \<open>errors.go\<close>), \<open>Config_Load\<close>
  (\<open>config.go\<close>), \<open>Config_Types\<close> (type soundness of what \<open>Load\<close> writes), \<open>Config_Secret\<close> (\<open>secret.go\<close>). The
  walk over a configuration type ends because every nested struct joins the active path: the measure
  is the number of struct types not on it, then the number of fields left.

  \<^bold>\<open>logging, contract, testkit.\<close> \<open>Logging\<close> (\<open>handler.go\<close>, \<open>logging.go\<close>; the handler over any \<open>slog.Handler\<close>,
  a locale, interpreted on the JSON handler), \<open>Contract\<close> (\<open>contract.go\<close> and \<open>testkit/assert.go\<close>),
  \<open>Upstream\<close> (\<open>testkit/upstream.go\<close>), \<open>Log_Records\<close> (\<open>testkit/logger.go\<close>; reading the buffer takes its length
  as fuel, enough because no value is empty).

  \<^bold>\<open>The examples.\<close> \<open>Served\<close> (what the two HTTP services share), \<open>Orders\<close> (\<open>orders.go\<close>, \<open>store.go\<close>,
  \<open>middleware.go\<close>, \<open>server.go\<close>), \<open>Outbound\<close> (\<open>pricing.go\<close> and \<open>provider.go\<close>), \<open>Notifications\<close>, \<open>Delivery\<close>,
  \<open>Delivery_Props\<close> (\<open>notification.go\<close>, \<open>worker.go\<close>: submitters, queue, worker and \<open>stop\<close> interleaved; the
  drain of a closed queue takes at most two steps for every queued notification and two more),
  \<open>Notify_Http\<close> (\<open>server.go\<close>, \<open>contract.go\<close>), \<open>Consumer\<close> (\<open>examples/worker/consumer.go\<close>: correct as long as a
  loop begins before the next \<open>Start\<close>, and what happens otherwise), \<open>App_Config\<close>
  (the three \<open>config.go\<close>), \<open>Stacks\<close> (the three \<open>stack.go\<close>: the registrations, and from the theorems on
  \<open>Run\<close> the dependency order of each service), \<open>Service_Run\<close> and \<open>Graceful\<close> (the lifecycle and the
  notification queue in one machine: a clean run loses no notification), \<open>Mains\<close> (the three
  \<open>main.go\<close>, down to the exit code).

  \<^bold>\<open>Parameters.\<close> What is not part of this repository is an argument: the OpenTelemetry API (tracer, meter,
  propagator; the calls to it are logged in order), the transport of \<open>net/http\<close> and \<open>http.Client.Do\<close>, the
  routing of \<open>ServeMux\<close> where its patterns have wildcards, \<open>http.ParseTime\<close>, \<open>http.StatusText\<close>,
  \<open>ParseFloat\<close>, \<open>ParseDuration\<close>, a type's own \<open>UnmarshalText\<close>, the decoding of JSON, \<open>url.Parse\<close> and
  \<open>url.PathEscape\<close>. Hypotheses on them state what their documentation says, and every theorem with a
  hypothesis has a witness that instantiates it.

  \<^bold>\<open>Idealised.\<close> Where the model is simpler than the machine: the failure counter of a breaker is a number
  without a bound, so its theorems are those of fewer than \<open>2 ^ 63\<close> failures in a row; draining a
  discarded response takes no time, so a slow body's share of the deadline is not counted; \<open>%q\<close> leaves
  runes beyond ASCII as they are, where \<open>strconv\<close> escapes the unprintable ones; an error text names a
  number type by its kind; that \<open>http.Server.Shutdown\<close> returns nil only when no handler runs is taken
  from its documentation where the lifecycle and the queue are coupled (\<open>Service_Run\<close>); a path that is
  not clean, which \<open>ServeMux\<close> redirects, is left to it.

  \<^bold>\<open>Not modelled.\<close> The compile-time marker \<open>contract.APIV1\<close> and the \<open>var _ Interface = T{}\<close> checks, which only
  the compiler sees; the \<open>Unwrap\<close> methods of the response writers (they expose optional interfaces to
  \<open>http.ResponseController\<close>); \<open>kit.go\<close> and \<open>testkit.go\<close>, which hold a package comment and the interface \<open>TB\<close>;
  the handlers of \<open>net/http/pprof\<close>; the \<open>Trace\<close> hooks of two composition roots, which only tests set;
  memory-model effects finer than the mutexes, atomics and channels of the code.
\<close>

end
